(* ===== verification/Prelude.thy ===== *)
theory Prelude
  imports Main "HOL-Library.AList" "HOL-Library.Char_ord" "HOL-Library.List_Lexorder"
    "HOL-Library.Multiset" "HOL-Library.Word"
begin

text \<open>
  Shared vocabulary of the development: the result type of Rust's \<open>?\<close> operator as a sum,
  the distinction between an error value and a panic, the contract of the \<open>Ord\<close> trait,
  the two standard containers the state resolution code is written with (a hash map and a
  hash set as association lists and lists without duplicates, a binary heap as a list), and
  byte strings.

  A \<open>&str\<close> is its UTF-8 bytes, one \<^typ>\<open>char\<close> for each byte, so that \<^const>\<open>length\<close>
  is \<open>str::len\<close>, positions are byte positions, and the order of lists is \<open>Ord for str\<close>.
\<close>

named_theorems result_simps \<open>unfolding of successful and failing results\<close>
named_theorems hash_simps \<open>lookups after updates of the container models\<close>

section \<open>Results\<close>

text \<open>A failure is a panic or an error value.\<close>

datatype 'e fail = Panic | Err 'e

definition rbind :: "'e + 'a \<Rightarrow> ('a \<Rightarrow> 'e + 'b) \<Rightarrow> 'e + 'b" where
  "rbind m f = (case m of Inl e \<Rightarrow> Inl e | Inr a \<Rightarrow> f a)"

definition map_err :: "('e \<Rightarrow> 'f) \<Rightarrow> 'e + 'a \<Rightarrow> 'f + 'a" where
  "map_err g m = (case m of Inl e \<Rightarrow> Inl (g e) | Inr a \<Rightarrow> Inr a)"

definition map_ok :: "('a \<Rightarrow> 'b) \<Rightarrow> 'e + 'a \<Rightarrow> 'e + 'b" where
  "map_ok f m = (case m of Inl e \<Rightarrow> Inl e | Inr a \<Rightarrow> Inr (f a))"

definition ok_or :: "'a option \<Rightarrow> 'e \<Rightarrow> 'e + 'a" where
  "ok_or m e = (case m of None \<Rightarrow> Inl e | Some a \<Rightarrow> Inr a)"

definition is_ok :: "'e + 'a \<Rightarrow> bool" where
  "is_ok m = (case m of Inl _ \<Rightarrow> False | Inr _ \<Rightarrow> True)"

definition ensure :: "bool \<Rightarrow> 'e \<Rightarrow> 'e + unit" where
  "ensure b e = (if b then Inr () else Inl e)"

lemma rbind_simps [simp, result_simps]:
  "rbind (Inl e) f = Inl e" "rbind (Inr a) f = f a"
  by (simp_all add: rbind_def)

lemma rbind_Inr_iff [result_simps]: "rbind m f = Inr b \<longleftrightarrow> (\<exists>a. m = Inr a \<and> f a = Inr b)"
  by (cases m) auto

lemma rbind_Inl_iff [result_simps]:
  "rbind m f = Inl e \<longleftrightarrow> m = Inl e \<or> (\<exists>a. m = Inr a \<and> f a = Inl e)"
  by (cases m) auto

lemma rbindE:
  assumes "rbind m f = Inr b"
  obtains a where "m = Inr a" "f a = Inr b"
  using assms by (auto simp: rbind_Inr_iff)

lemma rbind_assoc: "rbind (rbind m f) g = rbind m (\<lambda>a. rbind (f a) g)"
  by (cases m) auto

lemma map_err_simps [simp]: "map_err g (Inl e) = Inl (g e)" "map_err g (Inr a) = Inr a"
  by (simp_all add: map_err_def)

lemma map_err_Inr_iff [simp]: "map_err g m = Inr a \<longleftrightarrow> m = Inr a"
  by (cases m) auto

lemma map_ok_simps [simp]: "map_ok f (Inl e) = Inl e" "map_ok f (Inr a) = Inr (f a)"
  by (simp_all add: map_ok_def)

lemma map_ok_Inr_iff: "map_ok f m = Inr b \<longleftrightarrow> (\<exists>a. m = Inr a \<and> b = f a)"
  by (cases m) auto

lemma ok_or_simps [simp]: "ok_or None e = Inl e" "ok_or (Some a) e = Inr a"
  by (simp_all add: ok_or_def)

lemma ok_or_Inr_iff [result_simps]: "ok_or m e = Inr a \<longleftrightarrow> m = Some a"
  by (cases m) auto

lemma is_ok_simps [simp]: "\<not> is_ok (Inl e)" "is_ok (Inr a)"
  by (simp_all add: is_ok_def)

lemma is_ok_iff: "is_ok m \<longleftrightarrow> (\<exists>a. m = Inr a)"
  by (cases m) auto

lemma ensure_simps [simp]: "ensure True e = Inr ()" "ensure False e = Inl e"
  by (simp_all add: ensure_def)

lemma ensure_Inr_iff [result_simps]: "ensure b e = Inr u \<longleftrightarrow> b"
  by (cases b) auto

lemma ensure_Inl_iff: "ensure b e = Inl x \<longleftrightarrow> \<not> b \<and> x = e"
  by (cases b) auto

section \<open>The contract of Ord\<close>

datatype ordering = Less | Equal | Greater

fun ordering_then :: "ordering \<Rightarrow> ordering \<Rightarrow> ordering" where
  "ordering_then Equal o2 = o2"
| "ordering_then o1 o2 = o1"

definition cmp_of :: "'a::linorder \<Rightarrow> 'a \<Rightarrow> ordering" where
  "cmp_of x y = (if x < y then Less else if x = y then Equal else Greater)"

lemma cmp_of_simps [simp]:
  "cmp_of x y = Less \<longleftrightarrow> x < y"
  "cmp_of x y = Equal \<longleftrightarrow> x = y"
  "cmp_of x y = Greater \<longleftrightarrow> y < x"
  by (auto simp: cmp_of_def)

lemma ordering_then_simps [simp]:
  "ordering_then a b = Less \<longleftrightarrow> a = Less \<or> a = Equal \<and> b = Less"
  "ordering_then a b = Equal \<longleftrightarrow> a = Equal \<and> b = Equal"
  "ordering_then a b = Greater \<longleftrightarrow> a = Greater \<or> a = Equal \<and> b = Greater"
  by (cases a; simp)+

text \<open>
  What \<open>BinaryHeap\<close> relies on of an \<open>Ord\<close> instance: a total order that agrees with equality.
\<close>

locale rust_ord =
  fixes cmp :: "'a \<Rightarrow> 'a \<Rightarrow> ordering"
  assumes cmp_eq: "cmp x y = Equal \<longleftrightarrow> x = y"
    and cmp_flip: "cmp x y = Less \<longleftrightarrow> cmp y x = Greater"
    and cmp_trans: "cmp x y = Less \<Longrightarrow> cmp y z = Less \<Longrightarrow> cmp x z = Less"
begin

lemma cmp_refl: "cmp x x = Equal"
  by (simp add: cmp_eq)

lemma cmp_total: "cmp x y = Less \<or> x = y \<or> cmp y x = Less"
  using cmp_eq cmp_flip ordering.exhaust by metis

lemma cmp_antisym: "cmp x y \<noteq> Greater \<Longrightarrow> cmp y x \<noteq> Greater \<Longrightarrow> x = y"
  using cmp_eq cmp_flip ordering.exhaust by metis

lemma cmp_le_trans: "cmp x y \<noteq> Greater \<Longrightarrow> cmp y z \<noteq> Greater \<Longrightarrow> cmp x z \<noteq> Greater"
  using cmp_eq cmp_flip cmp_trans ordering.exhaust by metis

end

section \<open>Containers of the standard library\<close>

subsection \<open>BinaryHeap of reversed entries\<close>

text \<open>
  \<open>BinaryHeap<Reverse<T>>\<close> pops an entry that no other entry is smaller than. The heap is the
  list of its entries; \<open>pop\<close> takes the first smallest one.
\<close>

fun heap_min :: "('a \<Rightarrow> 'a \<Rightarrow> ordering) \<Rightarrow> 'a \<Rightarrow> 'a list \<Rightarrow> 'a" where
  "heap_min cmp m [] = m"
| "heap_min cmp m (x # xs) = heap_min cmp (if cmp x m = Less then x else m) xs"

definition heap_pop :: "('a \<Rightarrow> 'a \<Rightarrow> ordering) \<Rightarrow> 'a list \<Rightarrow> ('a \<times> 'a list) option" where
  "heap_pop cmp h =
     (case h of [] \<Rightarrow> None
      | x # xs \<Rightarrow> let m = heap_min cmp x xs in Some (m, remove1 m h))"

definition heap_push :: "'a \<Rightarrow> 'a list \<Rightarrow> 'a list" where
  "heap_push x h = x # h"

lemma heap_min_in: "heap_min cmp m xs \<in> insert m (set xs)"
  by (induction cmp m xs rule: heap_min.induct) (auto split: if_splits)

lemma heap_pop_None [simp]: "heap_pop cmp h = None \<longleftrightarrow> h = []"
  by (auto simp: heap_pop_def Let_def split: list.splits)

lemma heap_pop_Nil [simp]: "heap_pop cmp [] = None"
  by simp

lemma heap_pop_mset:
  assumes "heap_pop cmp h = Some (m, h')"
  shows "m \<in> set h" and "mset h = add_mset m (mset h')"
proof -
  from assms obtain x xs where h: "h = x # xs" and m: "m = heap_min cmp x xs"
    and h': "h' = remove1 m h"
    by (auto simp: heap_pop_def Let_def split: list.splits)
  show in_h: "m \<in> set h"
    using heap_min_in [of cmp x xs] by (simp add: h m)
  then show "mset h = add_mset m (mset h')"
    by (simp add: h')
qed

lemma heap_pop_length: "heap_pop cmp h = Some (m, h') \<Longrightarrow> length h = Suc (length h')"
  using heap_pop_mset(2) [of cmp h m h'] by (metis size_add_mset size_mset)

lemma heap_push_simps [simp]:
  "set (heap_push x h) = insert x (set h)" "length (heap_push x h) = Suc (length h)"
  "mset (heap_push x h) = add_mset x (mset h)" "map f (heap_push x h) = f x # map f h"
  by (simp_all add: heap_push_def)

context rust_ord
begin

lemma heap_min_le: "y \<in> insert m (set xs) \<Longrightarrow> cmp (heap_min cmp m xs) y \<noteq> Greater"
proof (induction xs arbitrary: m y)
  case Nil
  then show ?case by (simp add: cmp_refl)
next
  case (Cons x xs)
  let ?m = "if cmp x m = Less then x else m"
  have m: "cmp ?m m \<noteq> Greater" and x: "cmp ?m x \<noteq> Greater"
    using cmp_refl [of m] cmp_refl [of x] cmp_flip [of x m] by auto
  have "cmp (heap_min cmp ?m xs) ?m \<noteq> Greater"
    using Cons.IH [of ?m ?m] by blast
  then have "cmp (heap_min cmp ?m xs) m \<noteq> Greater \<and> cmp (heap_min cmp ?m xs) x \<noteq> Greater"
    using m x cmp_le_trans by meson
  moreover have "y \<in> set xs \<Longrightarrow> cmp (heap_min cmp ?m xs) y \<noteq> Greater"
    using Cons.IH [of y ?m] by blast
  ultimately show ?case
    using Cons.prems by auto
qed

lemma heap_pop_le: "heap_pop cmp h = Some (m, h') \<Longrightarrow> y \<in> set h \<Longrightarrow> cmp m y \<noteq> Greater"
  by (auto simp: heap_pop_def Let_def heap_min_le split: list.splits)

end

subsection \<open>HashSet\<close>

text \<open>A hash set is a list without duplicates; its order stands for the iteration order.\<close>

definition set_insert :: "'a \<Rightarrow> 'a list \<Rightarrow> 'a list" where
  "set_insert x xs = (if x \<in> set xs then xs else xs @ [x])"

lemma set_set_insert [simp, hash_simps]: "set (set_insert x xs) = insert x (set xs)"
  by (auto simp: set_insert_def)

lemma distinct_set_insert [simp]: "distinct (set_insert x xs) = distinct xs"
  by (auto simp: set_insert_def)

lemma set_insert_not_Nil [simp]: "set_insert x xs \<noteq> []"
  by (auto simp: set_insert_def)

definition collect_set :: "'a list \<Rightarrow> 'a list" where
  "collect_set xs = fold set_insert xs []"

lemma set_fold_set_insert [simp, hash_simps]:
  "set (fold set_insert xs acc) = set xs \<union> set acc"
  by (induction xs arbitrary: acc) auto

lemma distinct_fold_set_insert [simp]: "distinct (fold set_insert xs acc) = distinct acc"
  by (induction xs arbitrary: acc) auto

lemma collect_set_simps [simp]:
  "set (collect_set xs) = set xs" "distinct (collect_set xs)"
  by (simp_all add: collect_set_def)

subsection \<open>HashMap\<close>

text \<open>
  A hash map is an association list with distinct keys; \<^const>\<open>AList.update\<close> is
  \<open>insert\<close>, \<^const>\<open>AList.delete\<close> is \<open>remove\<close>, \<^const>\<open>map_of\<close> is \<open>get\<close>.
\<close>

abbreviation hm_insert :: "'k \<Rightarrow> 'v \<Rightarrow> ('k \<times> 'v) list \<Rightarrow> ('k \<times> 'v) list" where
  "hm_insert \<equiv> AList.update"

abbreviation hm_remove :: "'k \<Rightarrow> ('k \<times> 'v) list \<Rightarrow> ('k \<times> 'v) list" where
  "hm_remove \<equiv> AList.delete"

abbreviation hm_keys :: "('k \<times> 'v) list \<Rightarrow> 'k list" where
  "hm_keys m \<equiv> map fst m"

abbreviation hm_wf :: "('k \<times> 'v) list \<Rightarrow> bool" where
  "hm_wf m \<equiv> distinct (map fst m)"

definition hm_contains :: "('k \<times> 'v) list \<Rightarrow> 'k \<Rightarrow> bool" where
  "hm_contains m k = (case map_of m k of None \<Rightarrow> False | Some _ \<Rightarrow> True)"

text \<open>\<open>map.entry(k).and_modify(f).or_insert(v)\<close> and \<open>map.extend(m')\<close>.\<close>

definition hm_modify_or :: "'k \<Rightarrow> ('v \<Rightarrow> 'v) \<Rightarrow> 'v \<Rightarrow> ('k \<times> 'v) list \<Rightarrow> ('k \<times> 'v) list" where
  "hm_modify_or k f v m =
     (case map_of m k of None \<Rightarrow> hm_insert k v m | Some w \<Rightarrow> hm_insert k (f w) m)"

definition hm_extend :: "('k \<times> 'v) list \<Rightarrow> ('k \<times> 'v) list \<Rightarrow> ('k \<times> 'v) list" where
  "hm_extend m m' = fold (\<lambda>(k, v). hm_insert k v) m' m"

lemma hm_contains_iff [simp]: "hm_contains m k \<longleftrightarrow> k \<in> set (hm_keys m)"
  by (simp add: hm_contains_def map_of_eq_None_iff split: option.splits)
     (metis domI dom_map_of_conv_image_fst option.distinct(1))

lemma hm_keysI: "map_of m k = Some v \<Longrightarrow> k \<in> fst ` set m"
  by (force dest: map_of_SomeD)

lemma map_of_hm_insert [simp, hash_simps]: "map_of (hm_insert k v m) = (map_of m)(k \<mapsto> v)"
  by (rule update_conv')

lemma map_of_hm_remove [simp, hash_simps]: "map_of (hm_remove k m) = (map_of m)(k := None)"
  by (rule delete_conv')

lemma hm_wf_insert [simp]: "hm_wf m \<Longrightarrow> hm_wf (hm_insert k v m)"
  by (rule distinct_update)

lemma hm_wf_remove [simp]: "hm_wf m \<Longrightarrow> hm_wf (hm_remove k m)"
  by (rule distinct_delete)

lemma set_keys_hm_insert [simp]: "fst ` set (hm_insert k v m) = insert k (fst ` set m)"
  using dom_update [of k v m] by (simp add: dom_map_of_conv_image_fst)

lemma set_keys_hm_remove [simp]: "fst ` set (hm_remove k m) = fst ` set m - {k}"
  by (auto simp: AList.delete_eq)

lemma hm_remove_length: "k \<in> set (hm_keys m) \<Longrightarrow> length (hm_remove k m) < length m"
proof -
  assume "k \<in> set (hm_keys m)"
  then obtain v where "(k, v) \<in> set m" by auto
  then show ?thesis
    by (auto simp: AList.delete_eq intro!: length_filter_less)
qed

lemma hm_insert_length: "k \<in> set (hm_keys m) \<Longrightarrow> length (hm_insert k v m) = length m"
  by (induction m) auto

lemma map_of_hm_modify_or [hash_simps]:
  "map_of (hm_modify_or k f v m) =
     (map_of m)(k \<mapsto> (case map_of m k of None \<Rightarrow> v | Some w \<Rightarrow> f w))"
  by (simp add: hm_modify_or_def split: option.splits)

lemma hm_wf_modify_or [simp]: "hm_wf m \<Longrightarrow> hm_wf (hm_modify_or k f v m)"
  by (simp add: hm_modify_or_def split: option.splits)

lemma hm_wf_extend [simp]: "hm_wf m \<Longrightarrow> hm_wf (hm_extend m m')"
  unfolding hm_extend_def
  by (induction m' arbitrary: m) (auto split: prod.splits)

lemma map_of_hm_extend [hash_simps]:
  "hm_wf m' \<Longrightarrow> map_of (hm_extend m m') = map_of m ++ map_of m'"
  unfolding hm_extend_def
proof (induction m' arbitrary: m)
  case Nil
  then show ?case by simp
next
  case (Cons kv m')
  obtain k v where kv: "kv = (k, v)" by (cases kv)
  with Cons.prems have "k \<notin> dom (map_of m')" and wf: "hm_wf m'"
    by (auto simp: dom_map_of_conv_image_fst)
  then have "(map_of m)(k \<mapsto> v) ++ map_of m' = (map_of m ++ map_of m')(k \<mapsto> v)"
    by (simp add: map_add_upd_left)
  then show ?case
    using Cons.IH [OF wf, of "hm_insert k v m"] by (simp add: kv del: fun_upd_apply)
qed

subsection \<open>Ordered maps\<close>

text \<open>
  A \<open>BTreeMap\<close> is the list of its entries by strictly increasing key, which is the order of its
  iterator.
\<close>

fun bt_insert :: "'k::linorder \<Rightarrow> 'v \<Rightarrow> ('k \<times> 'v) list \<Rightarrow> ('k \<times> 'v) list" where
  "bt_insert k v [] = [(k, v)]"
| "bt_insert k v ((k', v') # m) =
     (if k < k' then (k, v) # (k', v') # m
      else if k = k' then (k, v) # m else (k', v') # bt_insert k v m)"

definition bt_wf :: "('k::linorder \<times> 'v) list \<Rightarrow> bool" where
  "bt_wf m \<longleftrightarrow> sorted_wrt (<) (map fst m)"

lemma bt_wf_simps [simp]:
  "bt_wf []" "bt_wf ((k, v) # m) \<longleftrightarrow> (\<forall>k'\<in>fst ` set m. k < k') \<and> bt_wf m"
  by (auto simp: bt_wf_def)

lemma set_keys_bt_insert [simp]: "fst ` set (bt_insert k v m) = insert k (fst ` set m)"
  by (induction k v m rule: bt_insert.induct) (simp_all add: insert_commute)

lemma bt_wf_insert [simp]: "bt_wf m \<Longrightarrow> bt_wf (bt_insert k v m)"
  by (induction k v m rule: bt_insert.induct) (auto simp: not_less le_less)

lemma bt_wf_distinct: "bt_wf m \<Longrightarrow> hm_wf m"
  by (simp add: bt_wf_def strict_sorted_iff)

lemma bt_wf_filter: "bt_wf m \<Longrightarrow> bt_wf (filter P m)"
  by (induction m) auto

lemma map_of_bt_insert [hash_simps]: "bt_wf m \<Longrightarrow> map_of (bt_insert k v m) = (map_of m)(k \<mapsto> v)"
proof (induction m)
  case (Cons kv m)
  obtain k' v' where kv: "kv = (k', v')" by (cases kv)
  with Cons have "k < k' \<Longrightarrow> map_of m k = None" by (force simp: map_of_eq_None_iff)
  with Cons kv show ?case by auto
qed simp

lemma bt_insert_last: "(\<forall>k'\<in>fst ` set m. k' < k) \<Longrightarrow> bt_insert k v m = m @ [(k, v)]"
  by (induction m) auto

lemma bt_insert_same: "bt_wf m \<Longrightarrow> map_of m k = Some v \<Longrightarrow> bt_insert k v m = m"
proof (induction m)
  case (Cons kv m)
  obtain k' v' where kv: "kv = (k', v')" by (cases kv)
  show ?case
  proof (cases "k = k'")
    case False
    with Cons.prems kv have "map_of m k = Some v" "bt_wf m" by auto
    moreover have "k' < k"
      using Cons.prems kv hm_keysI [OF calculation(1)] by auto
    ultimately show ?thesis using Cons.IH kv by (auto dest: less_asym)
  qed (use Cons.prems kv in auto)
qed simp

lemma bt_wf_append: "bt_wf (m @ m') \<longleftrightarrow> bt_wf m \<and> bt_wf m' \<and> (\<forall>k\<in>fst ` set m. \<forall>k'\<in>fst ` set m'. k < k')"
  by (auto simp: bt_wf_def sorted_wrt_append)

text \<open>Collecting entries that are already in order rebuilds the list.\<close>

lemma fold_bt_insert_sorted:
  "bt_wf (acc @ m) \<Longrightarrow> fold (\<lambda>(k, v). bt_insert k v) m acc = acc @ m"
proof (induction m arbitrary: acc)
  case (Cons kv m)
  obtain k v where kv: "kv = (k, v)" by (cases kv)
  from Cons.prems kv have "bt_insert k v acc = acc @ [(k, v)]"
    by (intro bt_insert_last) (auto simp: bt_wf_append)
  with Cons kv show ?case by simp
qed simp

lemma bt_eqI:
  assumes "bt_wf m" "bt_wf m'" "map_of m = map_of m'"
  shows "m = m'"
proof (rule map_sorted_distinct_set_unique [where f = fst])
  note wf = bt_wf_distinct [OF assms(1)] bt_wf_distinct [OF assms(2)]
  have same: "set m = set m'" using map_of_inject_set [OF wf] assms(3) by simp
  show "inj_on fst (set m \<union> set m')" using wf(1) same by (simp add: distinct_map)
  show "sorted (map fst m)" "sorted (map fst m')"
    using assms(1,2) by (simp_all add: bt_wf_def strict_sorted_iff)
  show "distinct (map fst m)" "distinct (map fst m')" by (rule wf)+
  show "set m = set m'" by (rule same)
qed

section \<open>Byte strings\<close>

text \<open>\<open>str::find\<close> for an ASCII character: the byte position of its first occurrence.\<close>

fun str_find :: "char \<Rightarrow> string \<Rightarrow> nat option" where
  "str_find c [] = None"
| "str_find c (x # xs) = (if x = c then Some 0 else map_option Suc (str_find c xs))"

lemma str_find_None: "str_find c s = None \<longleftrightarrow> c \<notin> set s"
  by (induction s) auto

lemma str_find_Some:
  "str_find c s = Some i \<longleftrightarrow> i < length s \<and> s ! i = c \<and> c \<notin> set (take i s)"
proof (induction s arbitrary: i)
  case Nil
  then show ?case by simp
next
  case (Cons x xs)
  then show ?case by (cases i) auto
qed

lemma str_find_split:
  assumes "str_find c s = Some i"
  shows "s = take i s @ c # drop (Suc i) s"
proof -
  from assms have "i < length s" and "s ! i = c"
    by (simp_all add: str_find_Some)
  then show ?thesis
    using id_take_nth_drop [of i s] by simp
qed

lemma str_find_append: "c \<notin> set xs \<Longrightarrow> str_find c (xs @ c # ys) = Some (length xs)"
  by (induction xs) auto

definition byte :: "char \<Rightarrow> nat" where
  "byte c = of_char c"

definition is_ascii_digit :: "char \<Rightarrow> bool" where
  "is_ascii_digit c \<longleftrightarrow> 48 \<le> byte c \<and> byte c \<le> 57"

definition is_ascii_lower :: "char \<Rightarrow> bool" where
  "is_ascii_lower c \<longleftrightarrow> 97 \<le> byte c \<and> byte c \<le> 122"

definition is_ascii_upper :: "char \<Rightarrow> bool" where
  "is_ascii_upper c \<longleftrightarrow> 65 \<le> byte c \<and> byte c \<le> 90"

definition is_ascii_alphanumeric :: "char \<Rightarrow> bool" where
  "is_ascii_alphanumeric c \<longleftrightarrow> is_ascii_digit c \<or> is_ascii_lower c \<or> is_ascii_upper c"

text \<open>\<open>str::is_char_boundary\<close> and slicing \<open>&s[i..]\<close>, which panics off a boundary.\<close>

definition is_char_boundary :: "string \<Rightarrow> nat \<Rightarrow> bool" where
  "is_char_boundary s i \<longleftrightarrow>
     i = length s \<or> i < length s \<and> \<not> (128 \<le> byte (s ! i) \<and> byte (s ! i) < 192)"

definition slice_from :: "string \<Rightarrow> nat \<Rightarrow> 'e fail + string" where
  "slice_from s i = (if is_char_boundary s i then Inr (drop i s) else Inl Panic)"

end
