(* ===== verification/Identifiers.thy ===== *)
theory Identifiers
  imports Prelude
begin

text \<open>
  Matrix identifiers: the validators of \<open>common-identifiers-validation\<close> and the accessors of
  \<open>common-types/src/identifiers\<close>, with the address and number parsers of the standard library
  they call. The flag \<open>compat_len\<close> is the feature \<open>compat-arbitrary-length-ids\<close>, which removes the
  length check of \<open>validate_id\<close>; the workspace enables it for its clients.
\<close>

section \<open>Errors\<close>

datatype mxc_uri_error = WrongSchema | MissingSlash | MediaIdMalformed | ServerNameMalformed

datatype matrix_id_error =
  InvalidPartsNumber | MissingRoom | NoIdentifier | TooManyIdentifiers | UnknownIdentifier
  | UnknownIdentifierPair | UnknownType

datatype matrix_to_error = InvalidUrl | WrongBaseUrl | UnknownArgument

datatype matrix_uri_error = WrongScheme | TooManyActions | UnknownQueryItem

datatype voip_version_id_error = WrongUintValue

datatype id_error =
  Empty | InvalidCharacters | InvalidMatrixId matrix_id_error | InvalidMatrixToUri matrix_to_error
  | InvalidMatrixUri matrix_uri_error | InvalidMxcUri mxc_uri_error
  | InvalidVoipVersionId voip_version_id_error | InvalidServerName | InvalidUtf8
  | MaximumLengthExceeded | MissingColon | MissingLeadingSigil

section \<open>Parsers of the standard library\<close>

text \<open>\<open>u16::from_str\<close>: an optional plus sign and at least one digit, at most 65535.\<close>

definition digits_value :: "string \<Rightarrow> nat" where
  "digits_value ds = foldl (\<lambda>n c. 10 * n + (byte c - 48)) 0 ds"

definition parse_u16 :: "string \<Rightarrow> nat option" where
  "parse_u16 s =
     (let ds = (case s of [] \<Rightarrow> [] | c # cs \<Rightarrow> if c = CHR ''+'' then cs else s)
      in if ds \<noteq> [] \<and> list_all is_ascii_digit ds \<and> digits_value ds \<le> 65535
         then Some (digits_value ds) else None)"

text \<open>
  The address parser of \<open>core::net\<close>. Each reader returns the rest of the input, or
  \<^const>\<open>None\<close> and consumes nothing.
\<close>

definition read_given_char :: "char \<Rightarrow> string \<Rightarrow> string option" where
  "read_given_char c s = (case s of [] \<Rightarrow> None | x # xs \<Rightarrow> if x = c then Some xs else None)"

definition is_hex_digit :: "char \<Rightarrow> bool" where
  "is_hex_digit c \<longleftrightarrow> is_ascii_digit c \<or> 65 \<le> byte c \<and> byte c \<le> 70 \<or> 97 \<le> byte c \<and> byte c \<le> 102"

text \<open>A group of one to four hexadecimal digits.\<close>

definition read_hex_group :: "string \<Rightarrow> string option" where
  "read_hex_group s =
     (let n = length (takeWhile is_hex_digit s)
      in if n = 0 \<or> 4 < n then None else Some (drop n s))"

text \<open>A decimal octet: one to three digits, no leading zero, at most 255.\<close>

definition read_octet :: "string \<Rightarrow> string option" where
  "read_octet s =
     (let ds = takeWhile is_ascii_digit s; n = length ds
      in if n = 0 \<or> 3 < n \<or> (hd ds = CHR ''0'' \<and> 1 < n) \<or> 255 < digits_value ds
         then None else Some (drop n s))"

definition read_separator :: "char \<Rightarrow> nat \<Rightarrow> (string \<Rightarrow> string option) \<Rightarrow> string \<Rightarrow> string option" where
  "read_separator sep i inner s =
     (if 0 < i then Option.bind (read_given_char sep s) inner else inner s)"

definition read_ipv4_addr :: "string \<Rightarrow> string option" where
  "read_ipv4_addr s =
     Option.bind (read_separator CHR ''.'' 0 read_octet s)
       (\<lambda>s. Option.bind (read_separator CHR ''.'' 1 read_octet s)
         (\<lambda>s. Option.bind (read_separator CHR ''.'' 2 read_octet s)
           (\<lambda>s. read_separator CHR ''.'' 3 read_octet s)))"

text \<open>The first argument is how many groups may still follow, the second how many were read.\<close>

fun read_groups :: "nat \<Rightarrow> nat \<Rightarrow> string \<Rightarrow> nat \<times> bool \<times> string" where
  "read_groups 0 i s = (i, False, s)"
| "read_groups (Suc n) i s =
     (case (if 1 \<le> n then read_separator CHR '':'' i read_ipv4_addr s else None) of
        Some s' \<Rightarrow> (i + 2, True, s')
      | None \<Rightarrow>
          (case read_separator CHR '':'' i read_hex_group s of
             None \<Rightarrow> (i, False, s)
           | Some s' \<Rightarrow> read_groups n (i + 1) s'))"

definition read_ipv6_addr :: "string \<Rightarrow> string option" where
  "read_ipv6_addr s =
     (case read_groups 8 0 s of
        (head_size, head_ipv4, s) \<Rightarrow>
          if head_size = 8 then Some s
          else if head_ipv4 then None
          else Option.bind (read_given_char CHR '':'' s)
                 (\<lambda>s. Option.bind (read_given_char CHR '':'' s)
                   (\<lambda>s. Some (snd (snd (read_groups (8 - (head_size + 1)) 0 s))))))"

definition parse_ipv6 :: "string \<Rightarrow> bool" where
  "parse_ipv6 s \<longleftrightarrow> read_ipv6_addr s = Some []"

definition parse_ipv4 :: "string \<Rightarrow> bool" where
  "parse_ipv4 s \<longleftrightarrow> length s \<le> 15 \<and> read_ipv4_addr s = Some []"

section \<open>Validators\<close>

definition ID_MAX_BYTES :: nat where
  "ID_MAX_BYTES = 255"

definition server_name_validate :: "string \<Rightarrow> id_error + unit" where
  "server_name_validate server_name =
     (if server_name = [] then Inl InvalidServerName
      else rbind
        (if hd server_name = CHR ''['' then
           (case str_find CHR '']'' server_name of
              None \<Rightarrow> Inl InvalidServerName
            | Some end_of_ipv6 \<Rightarrow>
                if \<not> parse_ipv6 (drop 1 (take end_of_ipv6 server_name)) then Inl InvalidServerName
                else Inr (end_of_ipv6 + 1))
         else
           (let end_of_host = (case str_find CHR '':'' server_name of
                                 None \<Rightarrow> length server_name | Some i \<Rightarrow> i)
            in if end_of_host = 0 then Inl InvalidServerName
               else if list_ex (\<lambda>b. \<not> (is_ascii_alphanumeric b \<or> b = CHR ''-'' \<or> b = CHR ''.''))
                         (take end_of_host server_name)
               then Inl InvalidServerName
               else Inr end_of_host))
        (\<lambda>end_of_host.
           if length server_name \<noteq> end_of_host
              \<and> (server_name ! end_of_host \<noteq> CHR '':''
                 \<or> parse_u16 (drop (end_of_host + 1) server_name) = None)
           then Inl InvalidServerName else Inr ()))"

definition validate_id :: "bool \<Rightarrow> string \<Rightarrow> char \<Rightarrow> id_error + unit" where
  "validate_id compat_len s first_byte =
     (if \<not> compat_len \<and> ID_MAX_BYTES < length s then Inl MaximumLengthExceeded
      else if s = [] \<or> hd s \<noteq> first_byte then Inl MissingLeadingSigil
      else Inr ())"

definition parse_id :: "bool \<Rightarrow> string \<Rightarrow> char \<Rightarrow> id_error + nat" where
  "parse_id compat_len s first_byte =
     rbind (validate_id compat_len s first_byte) (\<lambda>_.
     rbind (ok_or (str_find CHR '':'' s) MissingColon) (\<lambda>colon_idx.
     rbind (server_name_validate (drop (colon_idx + 1) s)) (\<lambda>_.
     Inr colon_idx)))"

definition validate_delimited_id :: "bool \<Rightarrow> string \<Rightarrow> char \<Rightarrow> id_error + unit" where
  "validate_delimited_id compat_len s first_byte = rbind (parse_id compat_len s first_byte) (\<lambda>_. Inr ())"

definition localpart_is_backwards_compatible :: "string \<Rightarrow> id_error + unit" where
  "localpart_is_backwards_compatible localpart =
     (if CHR '':'' \<in> set localpart \<or> CHR 0x00 \<in> set localpart
      then Inl InvalidCharacters else Inr ())"

definition user_id_validate :: "bool \<Rightarrow> string \<Rightarrow> id_error + unit" where
  "user_id_validate compat_len s =
     rbind (parse_id compat_len s CHR ''@'') (\<lambda>colon_idx.
       localpart_is_backwards_compatible (drop 1 (take colon_idx s)))"

definition fully_conforming_byte :: "char \<Rightarrow> bool" where
  "fully_conforming_byte b \<longleftrightarrow>
     is_ascii_digit b \<or> is_ascii_lower b \<or> b \<in> set ''-.=_/+''"

definition localpart_is_fully_conforming :: "string \<Rightarrow> id_error + bool" where
  "localpart_is_fully_conforming localpart =
     (if localpart = [] then Inl Empty
      else let is_fully_conforming = list_all fully_conforming_byte localpart
           in if \<not> is_fully_conforming
                 \<and> list_ex (\<lambda>b. byte b < 0x21 \<or> b = CHR '':'' \<or> 0x7E < byte b) localpart
              then Inl InvalidCharacters
              else Inr is_fully_conforming)"

definition user_id_validate_strict :: "bool \<Rightarrow> string \<Rightarrow> id_error + unit" where
  "user_id_validate_strict compat_len s =
     (if ID_MAX_BYTES < length s then Inl MaximumLengthExceeded
      else rbind (parse_id compat_len s CHR ''@'') (\<lambda>colon_idx.
           rbind (localpart_is_fully_conforming (drop 1 (take colon_idx s))) (\<lambda>conforming.
           if \<not> conforming then Inl InvalidCharacters else Inr ())))"

definition room_id_validate :: "bool \<Rightarrow> string \<Rightarrow> id_error + unit" where
  "room_id_validate compat_len s =
     rbind (validate_id compat_len s CHR ''!'') (\<lambda>_.
       if CHR 0x00 \<in> set s then Inl InvalidCharacters else Inr ())"

definition room_alias_id_validate :: "bool \<Rightarrow> string \<Rightarrow> id_error + unit" where
  "room_alias_id_validate compat_len s =
     rbind (parse_id compat_len s CHR ''#'') (\<lambda>colon_idx.
       localpart_is_backwards_compatible (drop 1 (take colon_idx s)))"

definition event_id_validate :: "bool \<Rightarrow> string \<Rightarrow> id_error + unit" where
  "event_id_validate compat_len s =
     (if CHR '':'' \<in> set s then validate_delimited_id compat_len s CHR ''$''
      else if s = [] \<or> hd s \<noteq> CHR ''$'' then Inl MissingLeadingSigil
      else Inr ())"

text \<open>
  \<open>key_id::validate\<close> keeps the position of the colon \<open>as u8\<close>; the name validator of the key
  type is its argument.
\<close>

definition key_id_validate :: "(string \<Rightarrow> id_error + unit) \<Rightarrow> string \<Rightarrow> id_error fail + 8 word" where
  "key_id_validate key_name_validate s =
     rbind (ok_or (str_find CHR '':'' s) (Err MissingColon)) (\<lambda>i.
     let colon_idx = (of_nat i :: 8 word)
     in if colon_idx = 0 then Inl (Err MissingColon)
        else rbind (slice_from s (unat colon_idx + 1)) (\<lambda>name.
             rbind (map_err Err (key_name_validate name)) (\<lambda>_.
             Inr colon_idx)))"

definition media_id_byte :: "char \<Rightarrow> bool" where
  "media_id_byte b \<longleftrightarrow> is_ascii_alphanumeric b \<or> b = CHR ''-'' \<or> b = CHR ''_''"

definition mxc_uri_validate :: "string \<Rightarrow> mxc_uri_error fail + 8 word" where
  "mxc_uri_validate s =
     (if take 6 s \<noteq> ''mxc://'' then Inl (Err WrongSchema)
      else let uri = drop 6 s
           in case str_find CHR ''/'' uri of
                None \<Rightarrow> Inl (Err MissingSlash)
              | Some index \<Rightarrow>
                  let server_name = take index uri; media_id = drop (index + 1) uri
                  in if \<not> list_all media_id_byte media_id then Inl (Err MediaIdMalformed)
                     else if \<not> is_ok (server_name_validate server_name)
                     then Inl (Err ServerNameMalformed)
                     else let idx = (of_nat (index + 6) :: 8 word)
                          in if idx = 0 then Inl Panic else Inr idx)"

definition chars_count :: "string \<Rightarrow> nat" where
  "chars_count s = length (filter (\<lambda>b. \<not> (128 \<le> byte b \<and> byte b < 192)) s)"

definition room_version_id_validate :: "string \<Rightarrow> id_error + unit" where
  "room_version_id_validate s =
     (if s = [] then Inl Empty
      else if 32 < chars_count s then Inl MaximumLengthExceeded
      else if \<not> list_all (\<lambda>c. is_ascii_alphanumeric c \<or> c = CHR ''.'' \<or> c = CHR ''-'') s
      then Inl InvalidCharacters
      else Inr ())"

section \<open>Accessors\<close>

text \<open>The accessors unwrap the position of the colon; a missing one is a panic.\<close>

definition colon_idx :: "string \<Rightarrow> 'e fail + nat" where
  "colon_idx s = ok_or (str_find CHR '':'' s) Panic"

definition user_id_localpart :: "string \<Rightarrow> 'e fail + string" where
  "user_id_localpart s =
     rbind (colon_idx s) (\<lambda>i. if i < 1 then Inl Panic else Inr (drop 1 (take i s)))"

definition user_id_server_name_checked :: "string \<Rightarrow> 'e fail + string" where
  "user_id_server_name_checked s = rbind (colon_idx s) (\<lambda>i. Inr (drop (i + 1) s))"

text \<open>The same accessor on identifiers that were validated, where the colon is there.\<close>

definition user_id_server_name :: "string \<Rightarrow> string" where
  "user_id_server_name s =
     (case str_find CHR '':'' s of None \<Rightarrow> [] | Some i \<Rightarrow> drop (i + 1) s)"

definition parse_with_server_name :: "bool \<Rightarrow> string \<Rightarrow> string \<Rightarrow> id_error + string" where
  "parse_with_server_name compat_len id_str server_name =
     (if id_str \<noteq> [] \<and> hd id_str = CHR ''@''
      then rbind (user_id_validate compat_len id_str) (\<lambda>_. Inr id_str)
      else rbind (localpart_is_backwards_compatible id_str) (\<lambda>_.
             Inr (''@'' @ id_str @ '':'' @ server_name)))"

definition user_id_validate_fully_conforming :: "string \<Rightarrow> id_error fail + bool" where
  "user_id_validate_fully_conforming s =
     (if ID_MAX_BYTES < length s then Inl (Err MaximumLengthExceeded)
      else rbind (user_id_localpart s) (\<lambda>l. map_err Err (localpart_is_fully_conforming l)))"

definition user_id_method_validate_strict :: "string \<Rightarrow> id_error fail + unit" where
  "user_id_method_validate_strict s =
     rbind (user_id_validate_fully_conforming s) (\<lambda>is_fully_conforming.
       if is_fully_conforming then Inr () else Inl (Err InvalidCharacters))"

definition user_id_is_historical :: "string \<Rightarrow> bool" where
  "user_id_is_historical s =
     (case user_id_validate_fully_conforming s of Inl _ \<Rightarrow> False | Inr conforming \<Rightarrow> \<not> conforming)"

definition room_id_server_name :: "string \<Rightarrow> string option" where
  "room_id_server_name s =
     Option.bind (str_find CHR '':'' s) (\<lambda>colon.
       let server_name = drop (colon + 1) s
       in if is_ok (server_name_validate server_name) then Some server_name else None)"

definition room_id_strip_sigil :: "string \<Rightarrow> 'e fail + string" where
  "room_id_strip_sigil s =
     (case s of [] \<Rightarrow> Inl Panic | c # cs \<Rightarrow> if c = CHR ''!'' then Inr cs else Inl Panic)"

definition event_id_server_name :: "string \<Rightarrow> string option" where
  "event_id_server_name s = map_option (\<lambda>i. drop (i + 1) s) (str_find CHR '':'' s)"

definition event_id_new_v2_or_v3 :: "bool \<Rightarrow> string \<Rightarrow> id_error + string" where
  "event_id_new_v2_or_v3 compat_len hash =
     rbind (event_id_validate compat_len (CHR ''$'' # hash)) (\<lambda>_. Inr (CHR ''$'' # hash))"

definition server_name_host :: "string \<Rightarrow> string" where
  "server_name_host s =
     (case str_find CHR '']'' s of
        Some end_of_ipv6 \<Rightarrow> take (end_of_ipv6 + 1) s
      | None \<Rightarrow>
          let end_of_host = (case str_find CHR '':'' s of None \<Rightarrow> length s | Some i \<Rightarrow> i)
          in take end_of_host s)"

definition server_name_port :: "string \<Rightarrow> 'e fail + nat option" where
  "server_name_port s =
     (let end_of_host =
            (case str_find CHR '']'' s of
               Some i \<Rightarrow> i + 1
             | None \<Rightarrow> (case str_find CHR '':'' s of Some i \<Rightarrow> i | None \<Rightarrow> length s))
      in if length s = end_of_host then Inr None
         else if length s < end_of_host \<or> s ! end_of_host \<noteq> CHR '':'' then Inl Panic
         else case parse_u16 (drop (end_of_host + 1) s) of
                None \<Rightarrow> Inl Panic
              | Some p \<Rightarrow> Inr (Some p))"

text \<open>
  \<open>KeyId::key_name\<close> takes the part after the first colon and validates it again; a failure there
  is \<open>unreachable!()\<close>.
\<close>

definition key_id_algorithm :: "string \<Rightarrow> 'e fail + string" where
  "key_id_algorithm s = rbind (colon_idx s) (\<lambda>i. Inr (take i s))"

text \<open>\<open>MxcUri::parts\<close> slices the URI at the index the validator returned.\<close>

definition mxc_uri_parts :: "string \<Rightarrow> mxc_uri_error fail + string \<times> string" where
  "mxc_uri_parts s =
     rbind (mxc_uri_validate s) (\<lambda>idx.
       if unat idx < 6 then Inl Panic
       else Inr (drop 6 (take (unat idx) s), drop (unat idx + 1) s))"

section \<open>Address parsers consume address characters only\<close>

definition addr_char :: "char \<Rightarrow> bool" where
  "addr_char c \<longleftrightarrow> is_hex_digit c \<or> c = CHR '':'' \<or> c = CHR ''.''"

definition consumes :: "(string \<Rightarrow> string option) \<Rightarrow> bool" where
  "consumes f \<longleftrightarrow> (\<forall>s r. f s = Some r \<longrightarrow> (\<exists>p. s = p @ r \<and> list_all addr_char p))"

lemma consumesD: "consumes f \<Longrightarrow> f s = Some r \<Longrightarrow> \<exists>p. s = p @ r \<and> list_all addr_char p"
  by (auto simp: consumes_def)

lemma consumes_bind:
  assumes "consumes f" "consumes g"
  shows "consumes (\<lambda>s. Option.bind (f s) g)"
  unfolding consumes_def
proof (intro allI impI)
  fix s r assume "Option.bind (f s) g = Some r"
  then obtain t where t: "f s = Some t" "g t = Some r" by (auto simp: bind_eq_Some_conv)
  from consumesD [OF assms(1) t(1)] consumesD [OF assms(2) t(2)]
  obtain p q where "s = p @ t" "list_all addr_char p" "t = q @ r" "list_all addr_char q" by blast
  then show "\<exists>p. s = p @ r \<and> list_all addr_char p" by (intro exI [of _ "p @ q"]) simp
qed

lemma consumes_read_given_char: "addr_char c \<Longrightarrow> consumes (read_given_char c)"
  by (auto simp: consumes_def read_given_char_def split: list.splits if_splits)

lemma consumes_takeWhile:
  assumes "\<And>s r. f s = Some r \<Longrightarrow> r = dropWhile P s" "\<And>c. P c \<Longrightarrow> addr_char c"
  shows "consumes f"
  unfolding consumes_def
proof (intro allI impI)
  fix s r assume "f s = Some r"
  with assms(1) have "r = dropWhile P s" by blast
  then have "s = takeWhile P s @ r" by simp
  moreover have "list_all addr_char (takeWhile P s)"
    using assms(2) by (auto simp: list_all_iff dest: set_takeWhileD)
  ultimately show "\<exists>p. s = p @ r \<and> list_all addr_char p" by blast
qed

lemma consumes_read_hex_group: "consumes read_hex_group"
  by (rule consumes_takeWhile [where P = is_hex_digit])
    (auto simp: read_hex_group_def addr_char_def Let_def dropWhile_eq_drop split: if_splits)

lemma consumes_read_octet: "consumes read_octet"
  by (rule consumes_takeWhile [where P = is_ascii_digit])
    (auto simp: read_octet_def addr_char_def is_hex_digit_def Let_def dropWhile_eq_drop
      split: if_splits)

lemma consumes_read_separator:
  "consumes f \<Longrightarrow> addr_char c \<Longrightarrow> consumes (read_separator c i f)"
  using consumes_bind [OF consumes_read_given_char, of c f]
  by (cases "0 < i") (auto simp: read_separator_def [abs_def])

lemma addr_char_sep [simp]: "addr_char CHR '':''" "addr_char CHR ''.''"
  by (simp_all add: addr_char_def)

lemma consumes_read_ipv4_addr: "consumes read_ipv4_addr"
  unfolding read_ipv4_addr_def [abs_def]
  by (intro consumes_bind consumes_read_separator consumes_read_octet addr_char_sep)

lemma read_groups_consumes:
  "read_groups n i s = (k, b, r) \<Longrightarrow> \<exists>p. s = p @ r \<and> list_all addr_char p"
proof (induction n i s arbitrary: k b r rule: read_groups.induct)
  case (1 i s)
  then show ?case by simp
next
  case (2 n i s)
  have v4: "consumes (read_separator CHR '':'' i read_ipv4_addr)"
    and hex: "consumes (read_separator CHR '':'' i read_hex_group)"
    by (auto intro: consumes_read_separator consumes_read_ipv4_addr consumes_read_hex_group)
  show ?case
  proof (cases "if 1 \<le> n then read_separator CHR '':'' i read_ipv4_addr s else None")
    case (Some s')
    with 2 consumesD [OF v4] show ?thesis by (auto split: if_splits)
  next
    case v4_none: None
    show ?thesis
    proof (cases "read_separator CHR '':'' i read_hex_group s")
      case None
      with v4_none 2(2) show ?thesis by (auto split: if_splits)
    next
      case (Some t)
      with v4_none 2(2) have "read_groups n (i + 1) t = (k, b, r)" by (auto split: if_splits)
      from 2(1) [OF v4_none Some this] consumesD [OF hex Some]
      obtain p q where "s = p @ t" "list_all addr_char p" "t = q @ r" "list_all addr_char q"
        by blast
      then show ?thesis by (intro exI [of _ "p @ q"]) simp
    qed
  qed
qed

lemma consumes_read_groups: "consumes (\<lambda>s. Some (snd (snd (read_groups n i s))))"
  unfolding consumes_def
proof (intro allI impI)
  fix s r assume "Some (snd (snd (read_groups n i s))) = Some r"
  then show "\<exists>p. s = p @ r \<and> list_all addr_char p"
    by (cases "read_groups n i s") (auto dest: read_groups_consumes)
qed

lemma parse_ipv6_chars:
  assumes "parse_ipv6 s"
  shows "list_all addr_char s"
proof -
  obtain k b r where g: "read_groups 8 0 s = (k, b, r)" by (cases "read_groups 8 0 s")
  from read_groups_consumes [OF this] obtain p where p: "s = p @ r" "list_all addr_char p" by blast
  have "consumes (\<lambda>s. Option.bind (read_given_char CHR '':'' s)
          (\<lambda>s. Option.bind (read_given_char CHR '':'' s)
            (\<lambda>s. Some (snd (snd (read_groups (8 - (k + 1)) 0 s))))))"
    by (intro consumes_bind consumes_read_groups consumes_read_given_char addr_char_sep)
  then have "list_all addr_char r"
    using assms g by (auto simp: parse_ipv6_def read_ipv6_addr_def split: if_splits dest!: consumesD)
  with p show ?thesis by simp
qed

section \<open>The grammar of server names\<close>

definition host_byte :: "char \<Rightarrow> bool" where
  "host_byte b \<longleftrightarrow> is_ascii_alphanumeric b \<or> b = CHR ''-'' \<or> b = CHR ''.''"

definition valid_host :: "string \<Rightarrow> bool" where
  "valid_host h \<longleftrightarrow>
     h \<noteq> [] \<and> list_all host_byte h \<or> (\<exists>a. h = CHR ''['' # a @ '']'' \<and> parse_ipv6 a)"

text \<open>What follows the host: nothing, or a colon and a port.\<close>

definition valid_port_suffix :: "string \<Rightarrow> nat option \<Rightarrow> bool" where
  "valid_port_suffix t p \<longleftrightarrow>
     t = [] \<and> p = None \<or> (\<exists>ds n. t = CHR '':'' # ds \<and> parse_u16 ds = Some n \<and> p = Some n)"

lemma host_byte_not [simp]:
  "\<not> host_byte CHR ''[''" "\<not> host_byte CHR '']''" "\<not> host_byte CHR '':''" "\<not> host_byte CHR ''/''"
  by (simp_all add: host_byte_def is_ascii_alphanumeric_def is_ascii_digit_def is_ascii_lower_def
      is_ascii_upper_def byte_def)

lemma addr_char_not [simp]: "\<not> addr_char CHR '']''" "\<not> addr_char CHR ''/''"
  by (simp_all add: addr_char_def is_hex_digit_def is_ascii_digit_def byte_def)

lemma parse_u16_chars:
  assumes "parse_u16 ds = Some n" "c \<in> set ds"
  shows "is_ascii_digit c \<or> c = CHR ''+''"
  using assms by (cases ds) (auto simp: parse_u16_def Let_def list_all_iff split: if_splits)

lemma parse_u16_bound: "parse_u16 ds = Some n \<Longrightarrow> n \<le> 65535"
  by (auto simp: parse_u16_def Let_def split: if_splits)

lemma port_suffix_chars:
  "valid_port_suffix t p \<Longrightarrow> CHR '']'' \<notin> set t \<and> CHR ''/'' \<notin> set t"
  using parse_u16_chars [of _ _ "CHR '']''"] parse_u16_chars [of _ _ "CHR ''/''"]
  by (auto simp: valid_port_suffix_def is_ascii_digit_def byte_def)

lemma parse_ipv6_no_bracket: "parse_ipv6 a \<Longrightarrow> CHR '']'' \<notin> set a \<and> CHR ''/'' \<notin> set a"
  using parse_ipv6_chars [of a] by (auto simp: list_all_iff)

text \<open>The end of the host as the validator and the accessors compute it.\<close>

definition end_of_host :: "string \<Rightarrow> nat" where
  "end_of_host s =
     (case str_find CHR '']'' s of
        Some i \<Rightarrow> i + 1
      | None \<Rightarrow> (case str_find CHR '':'' s of Some i \<Rightarrow> i | None \<Rightarrow> length s))"

lemma str_find_notin [simp]: "c \<notin> set s \<Longrightarrow> str_find c s = None"
  by (simp add: str_find_None)

lemma end_of_host_eq:
  assumes "valid_host h" "valid_port_suffix t p"
  shows "end_of_host (h @ t) = length h"
proof -
  from assms(1) consider "h \<noteq> []" "list_all host_byte h"
    | a where "h = CHR ''['' # a @ '']''" "parse_ipv6 a"
    by (auto simp: valid_host_def)
  then show ?thesis
  proof cases
    case 1
    then have n: "CHR '']'' \<notin> set h" "CHR '':'' \<notin> set h" by (auto simp: list_all_iff)
    with port_suffix_chars [OF assms(2)] have "str_find CHR '']'' (h @ t) = None" by simp
    with n assms(2) show ?thesis
      by (auto simp: end_of_host_def valid_port_suffix_def str_find_append)
  next
    case 2
    then have "str_find CHR '']'' ((CHR ''['' # a) @ CHR '']'' # t) = Some (length (CHR ''['' # a))"
      by (intro str_find_append) (auto dest: parse_ipv6_no_bracket)
    with 2 show ?thesis by (simp add: end_of_host_def)
  qed
qed

lemma server_name_validate_valid:
  assumes "valid_host h" "valid_port_suffix t p"
  shows "server_name_validate (h @ t) = Inr ()"
proof -
  have rest: "length (h @ t) = length h \<or>
      (h @ t) ! length h = CHR '':'' \<and> parse_u16 (drop (length h + 1) (h @ t)) \<noteq> None"
    using assms(2) by (auto simp: valid_port_suffix_def)
  from assms(1) consider "h \<noteq> []" "list_all host_byte h"
    | a where "h = CHR ''['' # a @ '']''" "parse_ipv6 a"
    by (auto simp: valid_host_def)
  then show ?thesis
  proof cases
    case 1
    then have n: "CHR '']'' \<notin> set h" "CHR '':'' \<notin> set h" "hd h \<noteq> CHR ''[''"
      by (auto simp: list_all_iff neq_Nil_conv)
    then have "(case str_find CHR '':'' (h @ t) of None \<Rightarrow> length (h @ t) | Some i \<Rightarrow> i) = length h"
      using assms(2) by (auto simp: valid_port_suffix_def str_find_append)
    with 1 n rest show ?thesis
      by (auto simp: server_name_validate_def list_ex_iff list_all_iff host_byte_def Let_def)
  next
    case 2
    then have "str_find CHR '']'' ((CHR ''['' # a) @ CHR '']'' # t) = Some (length (CHR ''['' # a))"
      by (intro str_find_append) (auto dest: parse_ipv6_no_bracket)
    with 2 rest show ?thesis
      by (auto simp: server_name_validate_def)
  qed
qed

lemma server_name_validate_decompose:
  assumes "server_name_validate s = Inr ()"
  obtains h t p where "s = h @ t" "valid_host h" "valid_port_suffix t p"
proof -
  have suffix: thesis if "e \<le> length s" "valid_host (take e s)"
      "length s = e \<or> s ! e = CHR '':'' \<and> parse_u16 (drop (e + 1) s) \<noteq> None" for e
  proof -
    have "\<exists>p. valid_port_suffix (drop e s) p"
    proof (cases "length s = e")
      case False
      with that have "drop e s = CHR '':'' # drop (e + 1) s"
        by (metis Cons_nth_drop_Suc Suc_eq_plus1 le_neq_implies_less)
      with that False show ?thesis by (auto simp: valid_port_suffix_def)
    qed (simp add: valid_port_suffix_def)
    with that show ?thesis using \<open>\<And>h t p. \<lbrakk>s = h @ t; valid_host h; valid_port_suffix t p\<rbrakk> \<Longrightarrow> thesis\<close>
      by (metis append_take_drop_id)
  qed
  have ne: "s \<noteq> []" using assms by (auto simp: server_name_validate_def)
  show ?thesis
  proof (cases "hd s = CHR ''[''")
    case True
    with assms ne obtain i where i: "str_find CHR '']'' s = Some i"
      and v6: "parse_ipv6 (drop 1 (take i s))"
      and r: "length s = i + 1 \<or> s ! (i + 1) = CHR '':'' \<and> parse_u16 (drop (i + 1 + 1) s) \<noteq> None"
      by (auto simp: server_name_validate_def result_simps split: option.splits if_splits)
    from i have lt: "i < length s" "s ! i = CHR '']''" by (auto simp: str_find_Some)
    with True ne have "0 < i" by (cases i) (auto simp: hd_conv_nth)
    with True ne have "take i s = CHR ''['' # drop 1 (take i s)"
      by (cases s; cases i) auto
    with lt have "take (i + 1) s = CHR ''['' # drop 1 (take i s) @ '']''"
      by (metis Suc_eq_plus1 append_Cons take_Suc_conv_app_nth)
    with v6 have "valid_host (take (i + 1) s)" by (auto simp: valid_host_def)
    with lt r show ?thesis by (intro suffix [of "i + 1"]) auto
  next
    case False
    define e where "e = (case str_find CHR '':'' s of None \<Rightarrow> length s | Some i \<Rightarrow> i)"
    have "e \<le> length s" by (auto simp: e_def str_find_Some split: option.splits)
    moreover from assms ne False have "e \<noteq> 0" "list_all host_byte (take e s)"
      and "length s = e \<or> s ! e = CHR '':'' \<and> parse_u16 (drop (e + 1) s) \<noteq> None"
      by (auto simp: server_name_validate_def Let_def list_ex_iff list_all_iff host_byte_def
          simp flip: e_def split: if_splits)
    ultimately show ?thesis using ne by (intro suffix [of e]) (auto simp: valid_host_def)
  qed
qed

lemma server_name_validate_iff:
  "server_name_validate s = Inr () \<longleftrightarrow> (\<exists>h t p. s = h @ t \<and> valid_host h \<and> valid_port_suffix t p)"
  by (metis server_name_validate_decompose server_name_validate_valid)

lemma server_name_host_eq: "server_name_host s = take (end_of_host s) s"
  by (simp add: server_name_host_def end_of_host_def split: option.splits)

lemma server_name_port_eq:
  "server_name_port s =
     (if length s = end_of_host s then Inr None
      else if length s < end_of_host s \<or> s ! end_of_host s \<noteq> CHR '':'' then Inl Panic
      else case parse_u16 (drop (end_of_host s + 1) s) of
             None \<Rightarrow> Inl Panic | Some p \<Rightarrow> Inr (Some p))"
  by (simp add: server_name_port_def end_of_host_def Let_def)

lemma server_name_no_slash:
  assumes "server_name_validate s = Inr ()"
  shows "CHR ''/'' \<notin> set s"
proof -
  from assms obtain h t p where s: "s = h @ t" "valid_host h" "valid_port_suffix t p"
    by (rule server_name_validate_decompose)
  have "CHR ''/'' \<notin> set h"
    using s(2) by (auto simp: valid_host_def list_all_iff dest: parse_ipv6_no_bracket)
  with s port_suffix_chars show ?thesis by auto
qed

lemma parse_id_Inr_iff:
  assumes "b \<noteq> CHR '':''"
  shows "parse_id compat_len s b = Inr i \<longleftrightarrow>
    (\<exists>l h. s = b # l @ CHR '':'' # h \<and> i = length l + 1 \<and> CHR '':'' \<notin> set l
       \<and> server_name_validate h = Inr () \<and> (compat_len \<or> length s \<le> ID_MAX_BYTES))"
    (is "?L \<longleftrightarrow> ?R")
proof
  assume ?L
  then have sn: "server_name_validate (drop (i + 1) s) = Inr ()"
    and i: "str_find CHR '':'' s = Some i" and "s \<noteq> []" "hd s = b"
    and len: "compat_len \<or> length s \<le> ID_MAX_BYTES"
    by (auto simp: parse_id_def validate_id_def result_simps split: if_splits)
  then obtain r where s: "s = b # r" by (cases s) auto
  with i assms obtain j where j: "i = Suc j" "str_find CHR '':'' r = Some j"
    by (auto split: if_splits)
  from str_find_split [OF j(2)] have "r = take j r @ CHR '':'' # drop (Suc j) r"
      "CHR '':'' \<notin> set (take j r)" "j < length r"
    using j(2) by (auto simp: str_find_Some)
  with s j sn len show ?R
    by (intro exI [of _ "take j r"] exI [of _ "drop (Suc j) r"]) auto
next
  assume ?R
  then obtain l h where s: "s = b # l @ CHR '':'' # h" and i: "i = length l + 1"
    and l: "CHR '':'' \<notin> set l" and h: "server_name_validate h = Inr ()"
    and len: "compat_len \<or> length s \<le> ID_MAX_BYTES" by blast
  have "str_find CHR '':'' s = Some i" using s i l assms by (simp add: str_find_append)
  with s i h len show ?L
    by (auto simp: parse_id_def validate_id_def)
qed

lemma sigil_not_colon [simp]: "CHR ''@'' \<noteq> CHR '':''" "CHR ''#'' \<noteq> CHR '':''" "CHR ''$'' \<noteq> CHR '':''"
  by simp_all

lemma delimited_accessors:
  assumes "s = b # l @ CHR '':'' # h" "b \<noteq> CHR '':''" "CHR '':'' \<notin> set l"
  shows "str_find CHR '':'' s = Some (length l + 1)" "user_id_localpart s = Inr l"
    "user_id_server_name_checked s = Inr h" "user_id_server_name s = h"
  using assms
  by (simp_all add: str_find_append user_id_localpart_def user_id_server_name_checked_def
      user_id_server_name_def colon_idx_def)

lemma user_id_validate_iff:
  "user_id_validate compat_len s = Inr () \<longleftrightarrow>
     (\<exists>l h. s = CHR ''@'' # l @ CHR '':'' # h \<and> CHR '':'' \<notin> set l \<and> CHR 0x00 \<notin> set l
        \<and> server_name_validate h = Inr () \<and> (compat_len \<or> length s \<le> ID_MAX_BYTES))"
  (is "?L \<longleftrightarrow> ?R")
proof
  assume ?L
  then obtain i where i: "parse_id compat_len s CHR ''@'' = Inr i"
      "CHR 0x00 \<notin> set (drop 1 (take i s))"
    by (auto simp: user_id_validate_def localpart_is_backwards_compatible_def result_simps
        split: if_splits)
  then obtain l h where s: "s = CHR ''@'' # l @ CHR '':'' # h" "i = length l + 1"
      "CHR '':'' \<notin> set l" "server_name_validate h = Inr ()"
      "compat_len \<or> length s \<le> ID_MAX_BYTES"
    by (auto simp: parse_id_Inr_iff)
  with i(2) have "CHR 0x00 \<notin> set l" by simp
  with s show ?R by auto
next
  assume ?R
  then obtain l h where s: "s = CHR ''@'' # l @ CHR '':'' # h" "CHR '':'' \<notin> set l"
      "CHR 0x00 \<notin> set l" "server_name_validate h = Inr ()"
      "compat_len \<or> length s \<le> ID_MAX_BYTES" by blast
  then have "parse_id compat_len s CHR ''@'' = Inr (length l + 1)"
    by (subst parse_id_Inr_iff) auto
  with s show ?L by (simp add: user_id_validate_def localpart_is_backwards_compatible_def)
qed

section \<open>Properties of the identifiers\<close>

text \<open>
  (C40) Server names. A string passes \<open>server_name::validate\<close> exactly when it is a host (a name of
  ASCII letters, digits, dots and dashes, or an IPv6 address in brackets) followed by nothing or
  by a colon and a 16-bit port; on such a string \<open>ServerName::host\<close> returns that host and
  \<open>ServerName::port\<close> that port, and its assertion and its \<open>unwrap\<close> do not panic.
\<close>

theorem server_name_grammar:
  "server_name_validate s = Inr () \<longleftrightarrow>
     (\<exists>h t p. s = h @ t \<and> valid_host h \<and> valid_port_suffix t p
        \<and> server_name_host s = h \<and> server_name_port s = (Inr p :: id_error fail + nat option))"
  (is "?L \<longleftrightarrow> ?R")
proof
  assume ?L
  then obtain h t p where s: "s = h @ t" "valid_host h" "valid_port_suffix t p"
    by (rule server_name_validate_decompose)
  then have e: "end_of_host s = length h" by (simp add: end_of_host_eq)
  with s have "server_name_port s = (Inr p :: id_error fail + nat option)"
    by (auto simp: server_name_port_eq valid_port_suffix_def)
  with s e show ?R by (auto simp: server_name_host_eq)
qed (auto simp: server_name_validate_iff)

text \<open>
  User IDs. A string passes \<open>user_id::validate\<close> exactly when it is an at-sign, a localpart
  without colon and NUL, a colon and a valid server name, at most 255 bytes long unless the
  length check is compiled out; \<open>UserId::localpart\<close> and \<open>UserId::server_name\<close> return these two
  parts, without panicking.
\<close>

theorem user_id_grammar:
  "user_id_validate compat_len s = Inr () \<longleftrightarrow>
     (\<exists>l h. s = CHR ''@'' # l @ CHR '':'' # h \<and> CHR '':'' \<notin> set l \<and> CHR 0x00 \<notin> set l
        \<and> server_name_validate h = Inr () \<and> (compat_len \<or> length s \<le> ID_MAX_BYTES)
        \<and> user_id_localpart s = (Inr l :: id_error fail + string)
        \<and> user_id_server_name_checked s = (Inr h :: id_error fail + string))"
  (is "?L \<longleftrightarrow> ?R")
proof
  assume ?L
  then obtain l h where s: "s = CHR ''@'' # l @ CHR '':'' # h" "CHR '':'' \<notin> set l"
      "CHR 0x00 \<notin> set l" "server_name_validate h = Inr ()"
      "compat_len \<or> length s \<le> ID_MAX_BYTES"
    unfolding user_id_validate_iff by blast
  with delimited_accessors(2,3) [OF s(1) sigil_not_colon(1) s(2)] show ?R by blast
next
  assume ?R
  then show ?L unfolding user_id_validate_iff by blast
qed

text \<open>
  Completing a user ID from a localpart. For a valid server name, whatever
  \<open>UserId::parse_with_server_name\<close> accepts is a valid user ID as long as it fits in 255 bytes
  (or the length check is compiled out); a bare localpart ends up with that localpart and that
  server name.
\<close>

theorem parse_with_server_name_valid:
  assumes "server_name_validate server = Inr ()"
    and "parse_with_server_name compat_len x server = Inr u"
    and "compat_len \<or> length u \<le> ID_MAX_BYTES"
  shows "user_id_validate compat_len u = Inr ()
    \<and> (x \<noteq> [] \<and> hd x = CHR ''@'' \<and> u = x
       \<or> user_id_localpart u = (Inr x :: id_error fail + string)
         \<and> user_id_server_name_checked u = (Inr server :: id_error fail + string))"
proof (cases "x \<noteq> [] \<and> hd x = CHR ''@''")
  case True
  with assms show ?thesis by (auto simp: parse_with_server_name_def result_simps)
next
  case False
  with assms(2) have u: "u = CHR ''@'' # x @ CHR '':'' # server"
    and x: "CHR '':'' \<notin> set x" "CHR 0x00 \<notin> set x"
    by (auto simp: parse_with_server_name_def localpart_is_backwards_compatible_def result_simps
        split: if_splits)
  with assms have "user_id_validate compat_len u = Inr ()"
    by (auto simp: user_id_validate_iff)
  with delimited_accessors [OF u _ x(1)] show ?thesis by auto
qed

theorem parse_with_server_name_valid_witness:
  "user_id_validate False ''@carl:example.org'' = Inr ()
    \<and> (user_id_localpart ''@carl:example.org'' = (Inr ''carl'' :: id_error fail + string))"
  using parse_with_server_name_valid [of "''example.org''" False "''carl''" "''@carl:example.org''"]
  by code_simp

text \<open>
  \<open>parse_with_server_name\<close> builds the ID without the length check of \<open>user_id::validate\<close>:
  with that check compiled in it returns identifiers that the validator rejects.
\<close>

theorem parse_with_server_name_too_long:
  "\<exists>x u. parse_with_server_name False x ''example.org'' = Inr u
     \<and> user_id_validate False u = Inl MaximumLengthExceeded"
  by (intro exI [of _ "replicate 300 CHR ''a''"]
      exI [of _ "CHR ''@'' # replicate 300 CHR ''a'' @ '':example.org''"])
    (simp add: parse_with_server_name_def localpart_is_backwards_compatible_def
      user_id_validate_def parse_id_def validate_id_def ID_MAX_BYTES_def)

text \<open>
  The two strict checks agree: \<open>user_id::validate_strict\<close> accepts a string exactly when
  \<open>user_id::validate\<close> does and the method \<open>UserId::validate_strict\<close> accepts the resulting ID,
  and such an ID is not historical.
\<close>

theorem validate_strict_agrees:
  "user_id_validate_strict compat_len s = Inr () \<longleftrightarrow>
     user_id_validate compat_len s = Inr () \<and> user_id_method_validate_strict s = Inr ()
       \<and> \<not> user_id_is_historical s"
proof -
  have conf: "CHR '':'' \<notin> set l \<and> CHR 0x00 \<notin> set l" if "list_all fully_conforming_byte l" for l
    using that by (auto simp: list_all_iff fully_conforming_byte_def is_ascii_digit_def
        is_ascii_lower_def byte_def)
  have strict: "localpart_is_fully_conforming l = Inr True \<longleftrightarrow> l \<noteq> [] \<and> list_all fully_conforming_byte l"
    for l by (auto simp: localpart_is_fully_conforming_def Let_def)
  show ?thesis
  proof (cases "parse_id compat_len s CHR ''@''")
    case (Inl e)
    then show ?thesis by (simp add: user_id_validate_strict_def user_id_validate_def)
  next
    case (Inr i)
    then obtain l h where s: "s = CHR ''@'' # l @ CHR '':'' # h" "i = length l + 1"
        "CHR '':'' \<notin> set l"
      by (auto simp: parse_id_Inr_iff)
    have l: "drop (Suc 0) (take i s) = l" using s by simp
    have "user_id_localpart s = (Inr l :: id_error fail + string)"
      by (rule delimited_accessors(2) [OF s(1) sigil_not_colon(1) s(3)])
    then show ?thesis
      using conf [of l] strict [of l] s(3)
      by (cases "localpart_is_fully_conforming l")
        (auto simp: user_id_validate_strict_def user_id_validate_def Inr l
          user_id_method_validate_strict_def user_id_validate_fully_conforming_def
          user_id_is_historical_def localpart_is_backwards_compatible_def)
  qed
qed

lemma unat_u8: "unat (of_nat n :: 8 word) = n mod 256"
  by (simp add: unat_of_nat)

lemma mxc_uri_validate_eq:
  assumes "server_name_validate server_name = Inr ()" "list_all media_id_byte media_id"
  shows "mxc_uri_validate (''mxc://'' @ server_name @ ''/'' @ media_id) =
    (let idx = (of_nat (length server_name + 6) :: 8 word) in if idx = 0 then Inl Panic else Inr idx)"
  using assms server_name_no_slash [OF assms(1)]
  by (simp add: mxc_uri_validate_def str_find_append Let_def)

text \<open>
  MXC URIs. For a valid server name and media ID, \<open>MxcUri::parts\<close> of the URI built from them
  returns these two parts exactly when the server name is shorter than 250 bytes: the position
  of the slash is kept in one byte.
\<close>

theorem mxc_uri_parts_roundtrip:
  assumes "server_name_validate server_name = Inr ()" "list_all media_id_byte media_id"
  shows "mxc_uri_parts (''mxc://'' @ server_name @ ''/'' @ media_id) = Inr (server_name, media_id)
    \<longleftrightarrow> length server_name < 250"
proof -
  let ?s = "''mxc://'' @ server_name @ ''/'' @ media_id"
  let ?i = "(length server_name + 6) mod 256"
  have parts: "mxc_uri_parts ?s =
      (if ?i < 6 then Inl Panic else Inr (drop 6 (take ?i ?s), drop (?i + 1) ?s))"
    unfolding mxc_uri_parts_def mxc_uri_validate_eq [OF assms] Let_def
    by (cases "?i = 0") (simp_all add: unat_u8 del: of_nat_add flip: unat_eq_zero)
  show ?thesis
  proof (cases "length server_name < 250")
    case True
    then have "?i = length server_name + 6" by simp
    moreover have "drop 6 (take (n + 6) ?s) = take n (server_name @ ''/'' @ media_id)"
        "drop (n + 6 + 1) ?s = drop (n + 1) (server_name @ ''/'' @ media_id)" for n
      by (simp_all add: eval_nat_numeral)
    ultimately show ?thesis unfolding parts using True by simp
  next
    case False
    have "length (drop 6 (take ?i ?s)) < 250"
      using mod_less_divisor [of 256 "length server_name + 6"] by (simp del: mod_less_divisor)
    with False have "drop 6 (take ?i ?s) \<noteq> server_name" by metis
    with False show ?thesis unfolding parts by simp
  qed
qed

theorem mxc_uri_parts_roundtrip_witness:
  "mxc_uri_parts ''mxc://example.org/abc'' = Inr (''example.org'', ''abc'')"
  using mxc_uri_parts_roundtrip [of "''example.org''" "''abc''"] by code_simp

text \<open>
  A URI whose server name has 250 bytes makes \<open>mxc_uri::validate\<close> panic: the index of the
  slash is 256, which is zero \<open>as u8\<close>, and the \<open>NonZeroU8\<close> is unwrapped.
\<close>

theorem mxc_uri_validate_panics:
  assumes "server_name_validate server_name = Inr ()" "list_all media_id_byte media_id"
    and "length server_name = 250"
  shows "mxc_uri_validate (''mxc://'' @ server_name @ ''/'' @ media_id) = Inl Panic"
  unfolding mxc_uri_validate_eq [OF assms(1,2)] using assms(3) by simp

theorem mxc_uri_validate_panics_witness:
  "mxc_uri_validate (''mxc://'' @ replicate 250 CHR ''a'' @ ''/'' @ ''abc'') = Inl Panic"
proof (rule mxc_uri_validate_panics)
  show "server_name_validate (replicate 250 CHR ''a'') = Inr ()"
    by (simp add: server_name_validate_def list_ex_iff is_ascii_alphanumeric_def is_ascii_lower_def
        byte_def)
  show "list_all media_id_byte ''abc''" by code_simp
qed simp

text \<open>
  A key ID whose colon is at a position divisible by 256 is rejected as having no colon,
  whatever its name: \<open>key_id::validate\<close> keeps the position in one byte.
\<close>

theorem key_id_colon_truncated:
  assumes "CHR '':'' \<notin> set algorithm" "256 dvd length algorithm"
  shows "key_id_validate K (algorithm @ '':'' @ key_name) = Inl (Err MissingColon)"
proof -
  have "(of_nat (length algorithm) :: 8 word) = 0"
    using assms(2) by (simp add: word_of_nat_eq_0_iff)
  with assms(1) show ?thesis by (simp add: key_id_validate_def str_find_append)
qed

theorem key_id_colon_truncated_witness:
  "key_id_validate (\<lambda>_. Inr ()) (replicate 256 CHR ''a'' @ '':'' @ ''DEV1'') = Inl (Err MissingColon)"
  by (rule key_id_colon_truncated) simp_all

text \<open>
  \<open>EventId::new_v2_or_v3\<close> accepts every reference hash without a colon: neither its length
  nor a NUL byte in it is checked.
\<close>

theorem event_id_new_v2_or_v3_accepts:
  assumes "CHR '':'' \<notin> set h"
  shows "event_id_new_v2_or_v3 compat_len h = Inr (CHR ''$'' # h)"
  using assms by (simp add: event_id_new_v2_or_v3_def event_id_validate_def)

theorem event_id_new_v2_or_v3_accepts_witness:
  "event_id_new_v2_or_v3 False (CHR 0x00 # replicate 300 CHR ''a'')
    = Inr (CHR ''$'' # CHR 0x00 # replicate 300 CHR ''a'')"
  by (rule event_id_new_v2_or_v3_accepts) simp

end
