(* ===== verification/Room_Version_Rules.thy ===== *)
theory Room_Version_Rules
  imports Identifiers
begin

text \<open>
  Room versions: the identifiers of \<open>common-types/src/identifiers/room_version_id.rs\<close> and the rules
  of \<open>common-types/src/room_version_rules.rs\<close>, one record per struct and one constant per room
  version, built from its predecessor by the same struct update as in the source. The version
  behind the feature \<open>unstable-msc2870\<close>, off by default, is left out.
\<close>

section \<open>The structs\<close>

datatype room_version_disposition = Stable | Unstable

datatype event_id_format_version = EventIdFormat_V1 | EventIdFormat_V2 | EventIdFormat_V3

datatype room_id_format_version = RoomIdFormat_V1 | RoomIdFormat_V2

datatype events_reference_format_version = EventsReferenceFormat_V1 | EventsReferenceFormat_V2

record state_resolution_v2_rules =
  begin_iterative_auth_checks_with_empty_state_map :: bool
  consider_conflicted_state_subgraph :: bool

datatype state_resolution_version =
  StateResolution_V1 | StateResolution_V2 state_resolution_v2_rules

record authorization_rules =
  special_case_room_redaction :: bool
  special_case_room_aliases :: bool
  strict_canonical_json :: bool
  limit_notifications_power_levels :: bool
  knocking :: bool
  restricted_join_rule :: bool
  knock_restricted_join_rule :: bool
  integer_power_levels :: bool
  use_room_create_sender :: bool
  explicitly_privilege_room_creators :: bool
  additional_room_creators :: bool
  room_create_event_id_as_room_id :: bool

record redaction_rules =
  keep_room_aliases_aliases :: bool
  keep_room_join_rules_allow :: bool
  keep_room_member_join_authorised_via_users_server :: bool
  keep_origin_membership_prev_state :: bool
  keep_room_create_content :: bool
  keep_room_redaction_redacts :: bool
  keep_room_power_levels_invite :: bool
  keep_room_member_third_party_invite_signed :: bool
  content_field_redacts :: bool

record signatures_rules =
  check_event_id_server :: bool
  check_join_authorised_via_users_server :: bool

record event_format_rules =
  require_event_id :: bool
  require_room_create_room_id :: bool
  allow_room_create_in_auth_events :: bool

record room_version_rules =
  disposition :: room_version_disposition
  event_id_format :: event_id_format_version
  room_id_format :: room_id_format_version
  events_reference_format :: events_reference_format_version
  state_res :: state_resolution_version
  enforce_key_validity :: bool
  authorization :: authorization_rules
  redaction :: redaction_rules
  signatures_of :: signatures_rules
  event_format :: event_format_rules

record room_power_levels_rules =
  privileged_creators :: "string list option"

section \<open>The constants\<close>

definition StateResolutionV2Rules_V2_0 :: state_resolution_v2_rules where
  "StateResolutionV2Rules_V2_0 =
     \<lparr>begin_iterative_auth_checks_with_empty_state_map = False,
       consider_conflicted_state_subgraph = False\<rparr>"

definition StateResolutionV2Rules_V2_1 :: state_resolution_v2_rules where
  "StateResolutionV2Rules_V2_1 = StateResolutionV2Rules_V2_0
     \<lparr>begin_iterative_auth_checks_with_empty_state_map := True,
       consider_conflicted_state_subgraph := True\<rparr>"

definition v2_rules :: "state_resolution_version \<Rightarrow> state_resolution_v2_rules option" where
  "v2_rules v = (case v of StateResolution_V1 \<Rightarrow> None | StateResolution_V2 r \<Rightarrow> Some r)"

definition AuthorizationRules_V1 :: authorization_rules where
  "AuthorizationRules_V1 =
     \<lparr>special_case_room_redaction = True,
       special_case_room_aliases = True,
       strict_canonical_json = False,
       limit_notifications_power_levels = False,
       knocking = False,
       restricted_join_rule = False,
       knock_restricted_join_rule = False,
       integer_power_levels = False,
       use_room_create_sender = False,
       explicitly_privilege_room_creators = False,
       additional_room_creators = False,
       room_create_event_id_as_room_id = False\<rparr>"

definition AuthorizationRules_V3 :: authorization_rules where
  "AuthorizationRules_V3 = AuthorizationRules_V1
     \<lparr>special_case_room_redaction := False\<rparr>"

definition AuthorizationRules_V6 :: authorization_rules where
  "AuthorizationRules_V6 = AuthorizationRules_V3
     \<lparr>special_case_room_aliases := False,
       strict_canonical_json := True,
       limit_notifications_power_levels := True\<rparr>"

definition AuthorizationRules_V7 :: authorization_rules where
  "AuthorizationRules_V7 = AuthorizationRules_V6
     \<lparr>knocking := True\<rparr>"

definition AuthorizationRules_V8 :: authorization_rules where
  "AuthorizationRules_V8 = AuthorizationRules_V7
     \<lparr>restricted_join_rule := True\<rparr>"

definition AuthorizationRules_V10 :: authorization_rules where
  "AuthorizationRules_V10 = AuthorizationRules_V8
     \<lparr>knock_restricted_join_rule := True,
       integer_power_levels := True\<rparr>"

definition AuthorizationRules_V11 :: authorization_rules where
  "AuthorizationRules_V11 = AuthorizationRules_V10
     \<lparr>use_room_create_sender := True\<rparr>"

definition AuthorizationRules_V12 :: authorization_rules where
  "AuthorizationRules_V12 = AuthorizationRules_V11
     \<lparr>explicitly_privilege_room_creators := True,
       additional_room_creators := True,
       room_create_event_id_as_room_id := True\<rparr>"

definition RedactionRules_V1 :: redaction_rules where
  "RedactionRules_V1 =
     \<lparr>keep_room_aliases_aliases = True,
       keep_room_join_rules_allow = False,
       keep_room_member_join_authorised_via_users_server = False,
       keep_origin_membership_prev_state = True,
       keep_room_create_content = False,
       keep_room_redaction_redacts = False,
       keep_room_power_levels_invite = False,
       keep_room_member_third_party_invite_signed = False,
       content_field_redacts = False\<rparr>"

definition RedactionRules_V6 :: redaction_rules where
  "RedactionRules_V6 = RedactionRules_V1
     \<lparr>keep_room_aliases_aliases := False\<rparr>"

definition RedactionRules_V8 :: redaction_rules where
  "RedactionRules_V8 = RedactionRules_V6
     \<lparr>keep_room_join_rules_allow := True\<rparr>"

definition RedactionRules_V9 :: redaction_rules where
  "RedactionRules_V9 = RedactionRules_V8
     \<lparr>keep_room_member_join_authorised_via_users_server := True\<rparr>"

definition RedactionRules_V11 :: redaction_rules where
  "RedactionRules_V11 = RedactionRules_V9
     \<lparr>keep_origin_membership_prev_state := False,
       keep_room_create_content := True,
       keep_room_redaction_redacts := True,
       keep_room_power_levels_invite := True,
       keep_room_member_third_party_invite_signed := True,
       content_field_redacts := True\<rparr>"

definition SignaturesRules_V1 :: signatures_rules where
  "SignaturesRules_V1 =
     \<lparr>check_event_id_server = True,
       check_join_authorised_via_users_server = False\<rparr>"

definition SignaturesRules_V3 :: signatures_rules where
  "SignaturesRules_V3 = SignaturesRules_V1
     \<lparr>check_event_id_server := False\<rparr>"

definition SignaturesRules_V8 :: signatures_rules where
  "SignaturesRules_V8 = SignaturesRules_V3
     \<lparr>check_join_authorised_via_users_server := True\<rparr>"

definition EventFormatRules_V1 :: event_format_rules where
  "EventFormatRules_V1 =
     \<lparr>require_event_id = True,
       require_room_create_room_id = True,
       allow_room_create_in_auth_events = True\<rparr>"

definition EventFormatRules_V3 :: event_format_rules where
  "EventFormatRules_V3 = EventFormatRules_V1
     \<lparr>require_event_id := False\<rparr>"

definition EventFormatRules_V12 :: event_format_rules where
  "EventFormatRules_V12 = EventFormatRules_V3
     \<lparr>require_room_create_room_id := False,
       allow_room_create_in_auth_events := False\<rparr>"

definition RoomVersionRules_V1 :: room_version_rules where
  "RoomVersionRules_V1 =
     \<lparr>disposition = Stable,
       event_id_format = EventIdFormat_V1,
       room_id_format = RoomIdFormat_V1,
       events_reference_format = EventsReferenceFormat_V1,
       state_res = StateResolution_V1,
       enforce_key_validity = False,
       authorization = AuthorizationRules_V1,
       redaction = RedactionRules_V1,
       signatures_of = SignaturesRules_V1,
       event_format = EventFormatRules_V1\<rparr>"

definition RoomVersionRules_V2 :: room_version_rules where
  "RoomVersionRules_V2 = RoomVersionRules_V1
     \<lparr>state_res := StateResolution_V2 StateResolutionV2Rules_V2_0\<rparr>"

definition RoomVersionRules_V3 :: room_version_rules where
  "RoomVersionRules_V3 = RoomVersionRules_V2
     \<lparr>event_id_format := EventIdFormat_V2,
       events_reference_format := EventsReferenceFormat_V2,
       authorization := AuthorizationRules_V3,
       signatures_of := SignaturesRules_V3,
       event_format := EventFormatRules_V3\<rparr>"

definition RoomVersionRules_V4 :: room_version_rules where
  "RoomVersionRules_V4 = RoomVersionRules_V3
     \<lparr>event_id_format := EventIdFormat_V3\<rparr>"

definition RoomVersionRules_V5 :: room_version_rules where
  "RoomVersionRules_V5 = RoomVersionRules_V4
     \<lparr>enforce_key_validity := True\<rparr>"

definition RoomVersionRules_V6 :: room_version_rules where
  "RoomVersionRules_V6 = RoomVersionRules_V5
     \<lparr>authorization := AuthorizationRules_V6,
       redaction := RedactionRules_V6\<rparr>"

definition RoomVersionRules_V7 :: room_version_rules where
  "RoomVersionRules_V7 = RoomVersionRules_V6
     \<lparr>authorization := AuthorizationRules_V7\<rparr>"

definition RoomVersionRules_V8 :: room_version_rules where
  "RoomVersionRules_V8 = RoomVersionRules_V7
     \<lparr>authorization := AuthorizationRules_V8,
       redaction := RedactionRules_V8,
       signatures_of := SignaturesRules_V8\<rparr>"

definition RoomVersionRules_V9 :: room_version_rules where
  "RoomVersionRules_V9 = RoomVersionRules_V8
     \<lparr>redaction := RedactionRules_V9\<rparr>"

definition RoomVersionRules_V10 :: room_version_rules where
  "RoomVersionRules_V10 = RoomVersionRules_V9
     \<lparr>authorization := AuthorizationRules_V10\<rparr>"

definition RoomVersionRules_V11 :: room_version_rules where
  "RoomVersionRules_V11 = RoomVersionRules_V10
     \<lparr>authorization := AuthorizationRules_V11,
       redaction := RedactionRules_V11\<rparr>"

definition RoomVersionRules_V12 :: room_version_rules where
  "RoomVersionRules_V12 = RoomVersionRules_V11
     \<lparr>room_id_format := RoomIdFormat_V2,
       authorization := AuthorizationRules_V12,
       event_format := EventFormatRules_V12,
       state_res := StateResolution_V2 StateResolutionV2Rules_V2_1\<rparr>"

lemmas rules_defs =
  StateResolutionV2Rules_V2_0_def StateResolutionV2Rules_V2_1_def
  AuthorizationRules_V1_def AuthorizationRules_V3_def AuthorizationRules_V6_def
  AuthorizationRules_V7_def AuthorizationRules_V8_def AuthorizationRules_V10_def
  AuthorizationRules_V11_def AuthorizationRules_V12_def
  EventFormatRules_V1_def EventFormatRules_V3_def EventFormatRules_V12_def
  RoomVersionRules_V1_def RoomVersionRules_V2_def RoomVersionRules_V3_def RoomVersionRules_V4_def
  RoomVersionRules_V5_def RoomVersionRules_V6_def RoomVersionRules_V7_def RoomVersionRules_V8_def
  RoomVersionRules_V9_def RoomVersionRules_V10_def RoomVersionRules_V11_def
  RoomVersionRules_V12_def

definition RoomPowerLevelsRules_new :: "authorization_rules \<Rightarrow> string list \<Rightarrow> room_power_levels_rules" where
  "RoomPowerLevelsRules_new rules creators =
     \<lparr>privileged_creators =
        (if explicitly_privilege_room_creators rules then Some (collect_set creators) else None)\<rparr>"

section \<open>Room version identifiers\<close>

datatype room_version_id =
  V1 | V2 | V3 | V4 | V5 | V6 | V7 | V8 | V9 | V10 | V11 | V12 | CustomRoomVersion string

definition room_version_as_str :: "room_version_id \<Rightarrow> string" where
  "room_version_as_str v =
     (case v of
        V1 \<Rightarrow> ''1'' | V2 \<Rightarrow> ''2'' | V3 \<Rightarrow> ''3'' | V4 \<Rightarrow> ''4'' | V5 \<Rightarrow> ''5'' | V6 \<Rightarrow> ''6''
      | V7 \<Rightarrow> ''7'' | V8 \<Rightarrow> ''8'' | V9 \<Rightarrow> ''9'' | V10 \<Rightarrow> ''10'' | V11 \<Rightarrow> ''11'' | V12 \<Rightarrow> ''12''
      | CustomRoomVersion version \<Rightarrow> version)"

definition room_version_id_rules :: "room_version_id \<Rightarrow> room_version_rules option" where
  "room_version_id_rules v =
     (case v of
        V1 \<Rightarrow> Some RoomVersionRules_V1
      | V2 \<Rightarrow> Some RoomVersionRules_V2
      | V3 \<Rightarrow> Some RoomVersionRules_V3
      | V4 \<Rightarrow> Some RoomVersionRules_V4
      | V5 \<Rightarrow> Some RoomVersionRules_V5
      | V6 \<Rightarrow> Some RoomVersionRules_V6
      | V7 \<Rightarrow> Some RoomVersionRules_V7
      | V8 \<Rightarrow> Some RoomVersionRules_V8
      | V9 \<Rightarrow> Some RoomVersionRules_V9
      | V10 \<Rightarrow> Some RoomVersionRules_V10
      | V11 \<Rightarrow> Some RoomVersionRules_V11
      | V12 \<Rightarrow> Some RoomVersionRules_V12
      | CustomRoomVersion _ \<Rightarrow> None)"

definition room_version_try_from :: "string \<Rightarrow> id_error + room_version_id" where
  "room_version_try_from s =
     (if s = ''1'' then Inr V1
      else if s = ''2'' then Inr V2
      else if s = ''3'' then Inr V3
      else if s = ''4'' then Inr V4
      else if s = ''5'' then Inr V5
      else if s = ''6'' then Inr V6
      else if s = ''7'' then Inr V7
      else if s = ''8'' then Inr V8
      else if s = ''9'' then Inr V9
      else if s = ''10'' then Inr V10
      else if s = ''11'' then Inr V11
      else if s = ''12'' then Inr V12
      else rbind (room_version_id_validate s) (\<lambda>_. Inr (CustomRoomVersion s)))"

definition known_room_versions :: "room_version_id list" where
  "known_room_versions = [V1, V2, V3, V4, V5, V6, V7, V8, V9, V10, V11, V12]"

section \<open>Properties\<close>

text \<open>
  Parsing and printing room versions are inverse: \<open>try_from\<close> returns a version exactly on the
  string \<open>as_str\<close> prints for it, the custom versions being the valid identifiers that print no
  known version.
\<close>

theorem room_version_roundtrip:
  "room_version_try_from s = Inr v \<longleftrightarrow>
     room_version_as_str v = s
     \<and> (v \<in> set known_room_versions
        \<or> room_version_id_validate s = Inr () \<and> s \<notin> room_version_as_str ` set known_room_versions)"
  by (cases v)
    (auto simp: room_version_try_from_def room_version_as_str_def known_room_versions_def
      result_simps split: if_splits)



end
