(* ===== verification/Room_Power_Levels.thy ===== *)
theory Room_Power_Levels
  imports Room_Version_Rules
begin

text \<open>
  Power levels as the clients use them: \<open>common-events/src/room/power_levels.rs\<close> and
  \<open>common-types/src/power_levels.rs\<close>. An \<open>Int\<close> is an \<^typ>\<open>int\<close>; a \<open>BTreeMap\<close> is an association
  list with distinct keys; event types are the strings they print as.
\<close>

section \<open>The power level of a user\<close>

datatype user_power_level = Infinite | PowerLevelInt int

fun user_power_level_cmp :: "user_power_level \<Rightarrow> user_power_level \<Rightarrow> ordering" where
  "user_power_level_cmp Infinite Infinite = Equal"
| "user_power_level_cmp Infinite (PowerLevelInt _) = Greater"
| "user_power_level_cmp (PowerLevelInt _) Infinite = Less"
| "user_power_level_cmp (PowerLevelInt self_int) (PowerLevelInt other_int) = cmp_of self_int other_int"

text \<open>\<open>PartialEq<Int>\<close> and \<open>PartialOrd<Int>\<close>: the comparison of a user's level with a required level.\<close>

fun user_power_level_eq_int :: "user_power_level \<Rightarrow> int \<Rightarrow> bool" where
  "user_power_level_eq_int Infinite i = False"
| "user_power_level_eq_int (PowerLevelInt n) i = (n = i)"

fun user_power_level_cmp_int :: "user_power_level \<Rightarrow> int \<Rightarrow> ordering" where
  "user_power_level_cmp_int Infinite i = Greater"
| "user_power_level_cmp_int (PowerLevelInt n) i = cmp_of n i"

fun int_cmp_user_power_level :: "int \<Rightarrow> user_power_level \<Rightarrow> ordering" where
  "int_cmp_user_power_level i Infinite = Less"
| "int_cmp_user_power_level i (PowerLevelInt n) = cmp_of i n"

definition upl_ge :: "user_power_level \<Rightarrow> int \<Rightarrow> bool" where
  "upl_ge u i \<longleftrightarrow> user_power_level_cmp_int u i \<noteq> Less"

definition upl_gt :: "user_power_level \<Rightarrow> int \<Rightarrow> bool" where
  "upl_gt u i \<longleftrightarrow> user_power_level_cmp_int u i = Greater"

lemma upl_simps [simp]:
  "upl_ge Infinite i" "upl_ge (PowerLevelInt n) i \<longleftrightarrow> i \<le> n"
  "upl_gt Infinite i" "upl_gt (PowerLevelInt n) i \<longleftrightarrow> i < n"
  by (auto simp: upl_ge_def upl_gt_def)

interpretation upl: rust_ord user_power_level_cmp
proof
  fix x y z
  show "user_power_level_cmp x y = Equal \<longleftrightarrow> x = y" by (cases x; cases y) auto
  show "user_power_level_cmp x y = Less \<longleftrightarrow> user_power_level_cmp y x = Greater"
    by (cases x; cases y) auto
  show "user_power_level_cmp x y = Less \<Longrightarrow> user_power_level_cmp y z = Less \<Longrightarrow>
      user_power_level_cmp x z = Less"
    by (cases x; cases y; cases z) auto
qed

instantiation user_power_level :: linorder
begin

definition less_eq_user_power_level :: "user_power_level \<Rightarrow> user_power_level \<Rightarrow> bool" where
  "less_eq_user_power_level a b \<longleftrightarrow> user_power_level_cmp a b \<noteq> Greater"

definition less_user_power_level :: "user_power_level \<Rightarrow> user_power_level \<Rightarrow> bool" where
  "less_user_power_level a b \<longleftrightarrow> user_power_level_cmp a b = Less"

instance
proof
  fix a b c :: user_power_level
  show "a < b \<longleftrightarrow> a \<le> b \<and> \<not> b \<le> a"
    using upl.cmp_flip [of a b] by (auto simp: less_eq_user_power_level_def less_user_power_level_def)
  show "a \<le> a" by (simp add: less_eq_user_power_level_def upl.cmp_refl)
  show "a \<le> b \<Longrightarrow> b \<le> c \<Longrightarrow> a \<le> c"
    unfolding less_eq_user_power_level_def by (rule upl.cmp_le_trans)
  show "a \<le> b \<Longrightarrow> b \<le> a \<Longrightarrow> a = b"
    unfolding less_eq_user_power_level_def by (rule upl.cmp_antisym)
  show "a \<le> b \<or> b \<le> a"
    unfolding less_eq_user_power_level_def using upl.cmp_flip [of b a] by auto
qed

end

lemma upl_order_simps [simp]:
  "PowerLevelInt m < PowerLevelInt n \<longleftrightarrow> m < n" "PowerLevelInt m \<le> PowerLevelInt n \<longleftrightarrow> m \<le> n"
  "PowerLevelInt m < Infinite" "PowerLevelInt m \<le> Infinite" "\<not> Infinite < u" "u \<le> Infinite"
  "\<not> Infinite \<le> PowerLevelInt m"
  by (cases u; auto simp: less_user_power_level_def less_eq_user_power_level_def)+

lemma upl_ge_conv: "upl_ge u i \<longleftrightarrow> PowerLevelInt i \<le> u" and upl_gt_conv: "upl_gt u i \<longleftrightarrow> PowerLevelInt i < u"
  by (cases u; simp)+

lemma upl_ge_max: "upl_ge u (max i j) \<longleftrightarrow> upl_ge u i \<and> upl_ge u j"
  by (cases u) auto

lemma user_power_level_cmp_conv [simp]:
  "user_power_level_cmp a b = Less \<longleftrightarrow> a < b" "user_power_level_cmp a b = Equal \<longleftrightarrow> a = b"
  "user_power_level_cmp a b = Greater \<longleftrightarrow> b < a"
  using upl.cmp_flip [of b a] by (auto simp: less_user_power_level_def upl.cmp_eq)

section \<open>The content of the event\<close>

type_synonym int_map = "(string \<times> int) list"

record notification_power_levels =
  npl_room :: int

definition default_power_level :: int where
  "default_power_level = 50"

definition NotificationPowerLevels_new :: notification_power_levels where
  "NotificationPowerLevels_new = \<lparr>npl_room = default_power_level\<rparr>"

record room_power_levels_event_content =
  plc_ban :: int
  plc_events :: int_map
  plc_events_default :: int
  plc_invite :: int
  plc_kick :: int
  plc_redact :: int
  plc_state_default :: int
  plc_users :: int_map
  plc_users_default :: int
  plc_notifications :: notification_power_levels

record redacted_room_power_levels_event_content =
  rplc_ban :: int
  rplc_events :: int_map
  rplc_events_default :: int
  rplc_invite :: int
  rplc_kick :: int
  rplc_redact :: int
  rplc_state_default :: int
  rplc_users :: int_map
  rplc_users_default :: int

definition RoomPowerLevelsEventContent_new :: "authorization_rules \<Rightarrow> room_power_levels_event_content" where
  "RoomPowerLevelsEventContent_new rules =
     (let pl = \<lparr>plc_ban = default_power_level, plc_events = [], plc_events_default = 0,
                plc_invite = 0, plc_kick = default_power_level, plc_redact = default_power_level,
                plc_state_default = default_power_level, plc_users = [], plc_users_default = 0,
                plc_notifications = NotificationPowerLevels_new\<rparr>
      in if explicitly_privilege_room_creators rules
         then pl\<lparr>plc_events := hm_insert ''m.room.tombstone'' 150 (plc_events pl)\<rparr>
         else pl)"

definition redact_power_levels ::
  "room_power_levels_event_content \<Rightarrow> redaction_rules \<Rightarrow> redacted_room_power_levels_event_content" where
  "redact_power_levels c rules =
     (let invite = (if keep_room_power_levels_invite rules then plc_invite c else 0)
      in \<lparr>rplc_ban = plc_ban c, rplc_events = plc_events c,
          rplc_events_default = plc_events_default c, rplc_invite = invite,
          rplc_kick = plc_kick c, rplc_redact = plc_redact c,
          rplc_state_default = plc_state_default c, rplc_users = plc_users c,
          rplc_users_default = plc_users_default c\<rparr>)"

text \<open>The possibly redacted content has the fields of the original one.\<close>

definition possibly_redacted_from ::
  "redacted_room_power_levels_event_content \<Rightarrow> room_power_levels_event_content" where
  "possibly_redacted_from c =
     \<lparr>plc_ban = rplc_ban c, plc_events = rplc_events c,
      plc_events_default = rplc_events_default c, plc_invite = rplc_invite c,
      plc_kick = rplc_kick c, plc_redact = rplc_redact c,
      plc_state_default = rplc_state_default c, plc_users = rplc_users c,
      plc_users_default = rplc_users_default c,
      plc_notifications = NotificationPowerLevels_new\<rparr>"

section \<open>The effective power levels\<close>

record room_power_levels =
  rpl_ban :: int
  rpl_events :: int_map
  rpl_events_default :: int
  rpl_invite :: int
  rpl_kick :: int
  rpl_redact :: int
  rpl_state_default :: int
  rpl_users :: int_map
  rpl_users_default :: int
  rpl_notifications :: notification_power_levels
  rpl_rules :: room_power_levels_rules

datatype room_power_levels_source =
  Original room_power_levels_event_content
  | Redacted redacted_room_power_levels_event_content
  | NoSource

definition RoomPowerLevels_new ::
  "room_power_levels_source \<Rightarrow> authorization_rules \<Rightarrow> string list \<Rightarrow> room_power_levels" where
  "RoomPowerLevels_new power_levels rules creators =
     (case power_levels of
        Original c \<Rightarrow>
          \<lparr>rpl_ban = plc_ban c, rpl_events = plc_events c,
           rpl_events_default = plc_events_default c, rpl_invite = plc_invite c,
           rpl_kick = plc_kick c, rpl_redact = plc_redact c,
           rpl_state_default = plc_state_default c, rpl_users = plc_users c,
           rpl_users_default = plc_users_default c, rpl_notifications = plc_notifications c,
           rpl_rules = RoomPowerLevelsRules_new rules creators\<rparr>
      | Redacted c \<Rightarrow>
          \<lparr>rpl_ban = rplc_ban c, rpl_events = rplc_events c,
           rpl_events_default = rplc_events_default c, rpl_invite = rplc_invite c,
           rpl_kick = rplc_kick c, rpl_redact = rplc_redact c,
           rpl_state_default = rplc_state_default c, rpl_users = rplc_users c,
           rpl_users_default = rplc_users_default c,
           rpl_notifications = NotificationPowerLevels_new,
           rpl_rules = RoomPowerLevelsRules_new rules creators\<rparr>
      | NoSource \<Rightarrow>
          \<lparr>rpl_ban = default_power_level, rpl_events = [], rpl_events_default = 0,
           rpl_invite = 0, rpl_kick = default_power_level, rpl_redact = default_power_level,
           rpl_state_default = default_power_level,
           rpl_users =
             (if explicitly_privilege_room_creators rules then []
              else hm_extend [] (map (\<lambda>user. (user, 100)) creators)),
           rpl_users_default = 0, rpl_notifications = NotificationPowerLevels_new,
           rpl_rules = RoomPowerLevelsRules_new rules creators\<rparr>)"

definition is_privileged_creator :: "room_power_levels \<Rightarrow> string \<Rightarrow> bool" where
  "is_privileged_creator p user_id =
     (case privileged_creators (rpl_rules p) of
        None \<Rightarrow> False | Some creators \<Rightarrow> user_id \<in> set creators)"

definition for_user :: "room_power_levels \<Rightarrow> string \<Rightarrow> user_power_level" where
  "for_user p user_id =
     (if is_privileged_creator p user_id then Infinite
      else PowerLevelInt (case map_of (rpl_users p) user_id of
                            None \<Rightarrow> rpl_users_default p | Some pl \<Rightarrow> pl))"

definition for_message :: "room_power_levels \<Rightarrow> string \<Rightarrow> int" where
  "for_message p msg_type =
     (case map_of (rpl_events p) msg_type of None \<Rightarrow> rpl_events_default p | Some pl \<Rightarrow> pl)"

definition for_state :: "room_power_levels \<Rightarrow> string \<Rightarrow> int" where
  "for_state p state_type =
     (case map_of (rpl_events p) state_type of None \<Rightarrow> rpl_state_default p | Some pl \<Rightarrow> pl)"

datatype notification_power_level_type = NotifyRoom

datatype power_level_action =
  ActBan | ActUnban | ActInvite | ActKick | ActRedactOwn | ActRedactOther
  | ActSendMessage string | ActSendState string
  | ActTriggerNotification notification_power_level_type

datatype power_level_user_action =
  ToBan | ToUnban | ToInvite | ToKick | ToChangePowerLevel

fun for_action :: "room_power_levels \<Rightarrow> power_level_action \<Rightarrow> int" where
  "for_action p ActBan = rpl_ban p"
| "for_action p ActUnban = max (rpl_ban p) (rpl_kick p)"
| "for_action p ActInvite = rpl_invite p"
| "for_action p ActKick = rpl_kick p"
| "for_action p ActRedactOwn = for_message p ''m.room.redaction''"
| "for_action p ActRedactOther = max (rpl_redact p) (for_message p ''m.room.redaction'')"
| "for_action p (ActSendMessage msg_type) = for_message p msg_type"
| "for_action p (ActSendState state_type) = for_state p state_type"
| "for_action p (ActTriggerNotification NotifyRoom) = npl_room (rpl_notifications p)"

definition user_can_ban :: "room_power_levels \<Rightarrow> string \<Rightarrow> bool" where
  "user_can_ban p user_id \<longleftrightarrow> upl_ge (for_user p user_id) (rpl_ban p)"

definition user_can_ban_user :: "room_power_levels \<Rightarrow> string \<Rightarrow> string \<Rightarrow> bool" where
  "user_can_ban_user p acting_user_id target_user_id =
     (let acting_pl = for_user p acting_user_id; target_pl = for_user p target_user_id
      in upl_ge acting_pl (rpl_ban p) \<and> target_pl < acting_pl)"

definition user_can_unban :: "room_power_levels \<Rightarrow> string \<Rightarrow> bool" where
  "user_can_unban p user_id =
     (let pl = for_user p user_id in upl_ge pl (rpl_ban p) \<and> upl_ge pl (rpl_kick p))"

definition user_can_unban_user :: "room_power_levels \<Rightarrow> string \<Rightarrow> string \<Rightarrow> bool" where
  "user_can_unban_user p acting_user_id target_user_id =
     (let acting_pl = for_user p acting_user_id; target_pl = for_user p target_user_id
      in upl_ge acting_pl (rpl_ban p) \<and> upl_ge acting_pl (rpl_kick p) \<and> target_pl < acting_pl)"

definition user_can_invite :: "room_power_levels \<Rightarrow> string \<Rightarrow> bool" where
  "user_can_invite p user_id \<longleftrightarrow> upl_ge (for_user p user_id) (rpl_invite p)"

definition user_can_kick :: "room_power_levels \<Rightarrow> string \<Rightarrow> bool" where
  "user_can_kick p user_id \<longleftrightarrow> upl_ge (for_user p user_id) (rpl_kick p)"

definition user_can_kick_user :: "room_power_levels \<Rightarrow> string \<Rightarrow> string \<Rightarrow> bool" where
  "user_can_kick_user p acting_user_id target_user_id =
     (let acting_pl = for_user p acting_user_id; target_pl = for_user p target_user_id
      in upl_ge acting_pl (rpl_kick p) \<and> target_pl < acting_pl)"

definition user_can_send_message :: "room_power_levels \<Rightarrow> string \<Rightarrow> string \<Rightarrow> bool" where
  "user_can_send_message p user_id msg_type \<longleftrightarrow> upl_ge (for_user p user_id) (for_message p msg_type)"

definition user_can_send_state :: "room_power_levels \<Rightarrow> string \<Rightarrow> string \<Rightarrow> bool" where
  "user_can_send_state p user_id state_type \<longleftrightarrow> upl_ge (for_user p user_id) (for_state p state_type)"

definition user_can_redact_own_event :: "room_power_levels \<Rightarrow> string \<Rightarrow> bool" where
  "user_can_redact_own_event p user_id = user_can_send_message p user_id ''m.room.redaction''"

definition user_can_redact_event_of_other :: "room_power_levels \<Rightarrow> string \<Rightarrow> bool" where
  "user_can_redact_event_of_other p user_id \<longleftrightarrow>
     user_can_redact_own_event p user_id \<and> upl_ge (for_user p user_id) (rpl_redact p)"

definition user_can_trigger_room_notification :: "room_power_levels \<Rightarrow> string \<Rightarrow> bool" where
  "user_can_trigger_room_notification p user_id \<longleftrightarrow>
     upl_ge (for_user p user_id) (npl_room (rpl_notifications p))"

definition user_can_change_user_power_level :: "room_power_levels \<Rightarrow> string \<Rightarrow> string \<Rightarrow> bool" where
  "user_can_change_user_power_level p acting_user_id target_user_id =
     (if \<not> user_can_send_state p acting_user_id ''m.room.power_levels'' then False
      else if is_privileged_creator p target_user_id then False
      else if acting_user_id = target_user_id then True
      else case map_of (rpl_users p) target_user_id of
             Some target_pl \<Rightarrow> upl_gt (for_user p acting_user_id) target_pl
           | None \<Rightarrow> True)"

fun user_can_do :: "room_power_levels \<Rightarrow> string \<Rightarrow> power_level_action \<Rightarrow> bool" where
  "user_can_do p user_id ActBan = user_can_ban p user_id"
| "user_can_do p user_id ActUnban = user_can_unban p user_id"
| "user_can_do p user_id ActInvite = user_can_invite p user_id"
| "user_can_do p user_id ActKick = user_can_kick p user_id"
| "user_can_do p user_id ActRedactOwn = user_can_redact_own_event p user_id"
| "user_can_do p user_id ActRedactOther = user_can_redact_event_of_other p user_id"
| "user_can_do p user_id (ActSendMessage message_type) = user_can_send_message p user_id message_type"
| "user_can_do p user_id (ActSendState state_type) = user_can_send_state p user_id state_type"
| "user_can_do p user_id (ActTriggerNotification NotifyRoom) = user_can_trigger_room_notification p user_id"

fun user_can_do_to_user :: "room_power_levels \<Rightarrow> string \<Rightarrow> string \<Rightarrow> power_level_user_action \<Rightarrow> bool" where
  "user_can_do_to_user p acting_user_id target_user_id ToBan = user_can_ban_user p acting_user_id target_user_id"
| "user_can_do_to_user p acting_user_id target_user_id ToUnban = user_can_unban_user p acting_user_id target_user_id"
| "user_can_do_to_user p acting_user_id target_user_id ToInvite = user_can_invite p acting_user_id"
| "user_can_do_to_user p acting_user_id target_user_id ToKick = user_can_kick_user p acting_user_id target_user_id"
| "user_can_do_to_user p acting_user_id target_user_id ToChangePowerLevel =
     user_can_change_user_power_level p acting_user_id target_user_id"

definition power_levels_max :: "room_power_levels \<Rightarrow> int" where
  "power_levels_max p = foldl (\<lambda>max_pl user_pl. max max_pl user_pl) (rpl_users_default p) (map snd (rpl_users p))"

datatype power_levels_error = CreatorInUsersMap

definition content_try_from :: "room_power_levels \<Rightarrow> power_levels_error + room_power_levels_event_content" where
  "content_try_from c =
     (if (case privileged_creators (rpl_rules c) of
            None \<Rightarrow> False
          | Some creators \<Rightarrow>
              rpl_users c \<noteq> [] \<and> list_ex (\<lambda>user_id. hm_contains (rpl_users c) user_id) creators)
      then Inl CreatorInUsersMap
      else Inr \<lparr>plc_ban = rpl_ban c, plc_events = rpl_events c,
                plc_events_default = rpl_events_default c, plc_invite = rpl_invite c,
                plc_kick = rpl_kick c, plc_redact = rpl_redact c,
                plc_state_default = rpl_state_default c, plc_users = rpl_users c,
                plc_users_default = rpl_users_default c,
                plc_notifications = rpl_notifications c\<rparr>)"

section \<open>Properties\<close>

text \<open>
  A user may do an action exactly when their power level reaches the level \<open>for_action\<close>
  reports for it: the nine \<open>user_can_*\<close> checks behind \<open>user_can_do\<close> and the table of required
  levels agree, also where a check needs two levels (unban, redacting others).
\<close>

theorem user_can_do_iff:
  "user_can_do p user_id action \<longleftrightarrow> upl_ge (for_user p user_id) (for_action p action)"
proof (cases action)
  case (ActTriggerNotification t)
  then show ?thesis by (cases t) (simp add: user_can_trigger_room_notification_def)
qed (auto simp: user_can_ban_def user_can_unban_def user_can_invite_def user_can_kick_def
    user_can_redact_own_event_def user_can_redact_event_of_other_def user_can_send_message_def
    user_can_send_state_def upl_ge_max Let_def)

lemma user_action_outranks:
  "action \<in> {ToBan, ToUnban, ToKick} \<Longrightarrow> user_can_do_to_user p acting target action \<Longrightarrow>
   for_user p target < for_user p acting"
  by (cases action)
    (simp_all add: user_can_ban_user_def user_can_unban_user_def user_can_kick_user_def Let_def)

text \<open>
  Nobody outranks a privileged creator, and nobody outranks themselves: banning, unbanning and
  kicking require the general permission and a target strictly below the acting user, so these
  actions are never allowed on a privileged creator or on oneself, and two users cannot do
  them to each other.
\<close>

theorem user_can_do_to_user_hierarchy:
  assumes "action \<in> {ToBan, ToUnban, ToKick}"
    and "user_can_do_to_user p acting target action"
  shows "\<not> is_privileged_creator p target \<and> acting \<noteq> target
    \<and> for_user p target < for_user p acting
    \<and> (\<forall>action'\<in>{ToBan, ToUnban, ToKick}. \<not> user_can_do_to_user p target acting action')"
proof -
  have lt: "for_user p target < for_user p acting" using assms by (rule user_action_outranks)
  then have "acting \<noteq> target" "\<not> is_privileged_creator p target"
    by (auto simp: for_user_def [of p target])
  with lt show ?thesis
    using user_action_outranks [of _ p target acting] by (meson less_asym)
qed

definition example_power_levels :: room_power_levels where
  "example_power_levels =
     RoomPowerLevels_new
       (Original ((RoomPowerLevelsEventContent_new AuthorizationRules_V12)
          \<lparr>plc_users := [(''@mod:a.org'', 50), (''@user:a.org'', 0)]\<rparr>))
       AuthorizationRules_V12 [''@creator:a.org'']"

theorem user_can_do_to_user_hierarchy_witness:
  "\<not> user_can_do_to_user example_power_levels ''@user:a.org'' ''@mod:a.org'' ToKick
   \<and> user_can_do_to_user example_power_levels ''@mod:a.org'' ''@user:a.org'' ToBan"
proof -
  have ban: "user_can_do_to_user example_power_levels ''@mod:a.org'' ''@user:a.org'' ToBan"
    by code_simp
  have "ToBan \<in> {ToBan, ToUnban, ToKick}" "ToKick \<in> {ToBan, ToUnban, ToKick}" by simp_all
  with ban user_can_do_to_user_hierarchy [OF _ ban] show ?thesis by blast
qed

text \<open>
  Content round trip: the power levels built from an original event convert back to the same
  content exactly when no privileged creator is listed among the users; otherwise the
  conversion fails with \<open>CreatorInUsersMap\<close>.
\<close>

theorem content_roundtrip:
  "content_try_from (RoomPowerLevels_new (Original c) rules creators) =
     (if explicitly_privilege_room_creators rules
         \<and> (\<exists>u\<in>set creators. u \<in> fst ` set (plc_users c))
      then Inl CreatorInUsersMap else Inr c)"
  by (cases c)
    (auto simp: content_try_from_def RoomPowerLevels_new_def RoomPowerLevelsRules_new_def list_ex_iff)

text \<open>
  Redaction keeps every power level but the required level for notifications, and the one for
  invites where the room version drops it: the levels effective after redaction equal those
  before with these two reset.
\<close>

theorem redact_power_levels_effect:
  "RoomPowerLevels_new (Redacted (redact_power_levels c rrules)) rules creators =
     (RoomPowerLevels_new (Original c) rules creators)
       \<lparr>rpl_notifications := NotificationPowerLevels_new,
        rpl_invite := (if keep_room_power_levels_invite rrules then plc_invite c else 0)\<rparr>
   \<and> RoomPowerLevels_new (Redacted (redact_power_levels c rrules)) rules creators =
       RoomPowerLevels_new (Original (possibly_redacted_from (redact_power_levels c rrules))) rules creators"
  by (simp add: RoomPowerLevels_new_def redact_power_levels_def possibly_redacted_from_def Let_def)

lemma foldl_max_ge: "(a :: 'a::linorder) \<le> foldl max a xs"
  by (induction xs arbitrary: a) (auto intro: order_trans [OF max.cobounded1])

lemma foldl_max_elem: "(x :: 'a::linorder) \<in> set xs \<Longrightarrow> x \<le> foldl max a xs"
  by (induction xs arbitrary: a) (auto intro: order_trans [OF max.cobounded2 foldl_max_ge])

lemma foldl_max_in: "foldl max (a :: 'a::linorder) xs \<in> insert a (set xs)"
  by (induction xs arbitrary: a) (auto simp: max_def split: if_splits)

text \<open>
  The level \<open>max\<close> returns bounds the level of every user who is not a privileged creator, and
  it is the default level or the level of a listed user.
\<close>

theorem power_levels_max_bound:
  "(is_privileged_creator p u \<or> for_user p u \<le> PowerLevelInt (power_levels_max p))
   \<and> power_levels_max p \<in> insert (rpl_users_default p) (snd ` set (rpl_users p))"
proof -
  have "n \<le> power_levels_max p" if "map_of (rpl_users p) u = Some n" for n
    using map_of_SomeD [OF that] foldl_max_elem [of n "map snd (rpl_users p)" "rpl_users_default p"]
    by (force simp: power_levels_max_def)
  with foldl_max_ge [of "rpl_users_default p" "map snd (rpl_users p)"]
    foldl_max_in [of "rpl_users_default p" "map snd (rpl_users p)"]
  show ?thesis
    by (auto simp: for_user_def power_levels_max_def split: option.splits)
qed

end
