(* ===== verification/Canonical_Json.thy ===== *)
theory Canonical_Json
  imports Room_Version_Rules
begin

text \<open>
  JSON values: \<open>serde_json::Value\<close>, the canonical values of \<open>common-types/src/canonical_json\<close>, the
  conversions between the two, the access to the fields of an object, and the record of the
  third-party functions that read and write JSON, base64 and signatures.

  \<open>serde_json::Map\<close> and \<open>BTreeMap\<close> are lists of entries in iteration order, that is by increasing
  key; \<^term>\<open>bt_insert\<close> of the prelude is \<open>BTreeMap::insert\<close>.
\<close>

section \<open>Values\<close>

datatype json =
  JsonNull | JsonBool bool | JsonPosInt nat | JsonNegInt int | JsonFloat string
  | JsonString string | JsonArray "json list" | JsonObject "(string \<times> json) list"

datatype canonical_json =
  CNull | CBool bool | CInteger int | CString string
  | CArray "canonical_json list" | CObject "(string \<times> canonical_json) list"

type_synonym json_object = "(string \<times> json) list"

type_synonym canonical_json_object = "(string \<times> canonical_json) list"

datatype serde_error = InvalidType | SerdeCustom string

text \<open>
  The third-party code that handles JSON, base64 and signatures. \<open>x_int_try_from\<close> is the conversion to
  \<open>js_int::Int\<close>, \<open>x_base64_standard\<close> and \<open>x_base64_url_safe\<close> decode, the two functions named \<open>encode\<close>
  encode without padding, \<open>x_from_str\<close> parses and \<open>x_serialize\<close> prints JSON,
  \<open>x_serde_error\<close> is the message of an error of \<open>serde_json\<close>, \<open>x_sha256\<close> is the digest,
  \<open>x_ed25519_key\<close> tells which bytes are a public key and \<open>x_ed25519_verify\<close> verifies a signature of 64
  bytes; \<open>x_compat_len\<close> is the compile-time feature that lifts the length limit of identifiers.
\<close>

record codec =
  x_int_try_from :: "int \<Rightarrow> string + int"
  x_base64_standard :: "string \<Rightarrow> unit + string"
  x_base64_url_safe :: "string \<Rightarrow> unit + string"
  x_base64_encode :: "string \<Rightarrow> string"
  x_base64_encode_url_safe :: "string \<Rightarrow> string"
  x_from_str :: "string \<Rightarrow> serde_error + json"
  x_serde_error :: "serde_error \<Rightarrow> string"
  x_serialize :: "canonical_json_object \<Rightarrow> serde_error + string"
  x_sha256 :: "string \<Rightarrow> string"
  x_ed25519_key :: "string \<Rightarrow> bool"
  x_ed25519_verify :: "string \<Rightarrow> string \<Rightarrow> string \<Rightarrow> bool"
  x_compat_len :: bool

datatype canonical_json_type = TObject | TString | TInteger | TArray | TBoolean | TNull

fun json_type :: "canonical_json \<Rightarrow> canonical_json_type" where
  "json_type CNull = TNull"
| "json_type (CBool _) = TBoolean"
| "json_type (CInteger _) = TInteger"
| "json_type (CString _) = TString"
| "json_type (CArray _) = TArray"
| "json_type (CObject _) = TObject"

section \<open>Fields of an object\<close>

datatype canonical_json_field_error =
  FieldInvalidType string canonical_json_type canonical_json_type | FieldMissing string

fun json_type_debug :: "canonical_json_type \<Rightarrow> string" where
  "json_type_debug TObject = ''Object''"
| "json_type_debug TString = ''String''"
| "json_type_debug TInteger = ''Integer''"
| "json_type_debug TArray = ''Array''"
| "json_type_debug TBoolean = ''Boolean''"
| "json_type_debug TNull = ''Null''"

fun field_error_to_string :: "canonical_json_field_error \<Rightarrow> string" where
  "field_error_to_string (FieldInvalidType path expected found) =
     ''invalid type at `'' @ path @ ''`: expected '' @ json_type_debug expected
       @ '', found '' @ json_type_debug found"
| "field_error_to_string (FieldMissing path) = ''missing field: `'' @ path @ ''`''"

definition get_as_object ::
  "canonical_json_object \<Rightarrow> string \<Rightarrow> string \<Rightarrow> canonical_json_field_error + canonical_json_object option" where
  "get_as_object self field path =
     (case map_of self field of
        None \<Rightarrow> Inr None
      | Some (CObject object) \<Rightarrow> Inr (Some object)
      | Some v \<Rightarrow> Inl (FieldInvalidType path TObject (json_type v)))"

definition get_as_required_object ::
  "canonical_json_object \<Rightarrow> string \<Rightarrow> string \<Rightarrow> canonical_json_field_error + canonical_json_object" where
  "get_as_required_object self field path =
     rbind (get_as_object self field path) (\<lambda>v. ok_or v (FieldMissing path))"

text \<open>
  The method returns a reference into the map; the model returns the object it refers to and the map
  after the insertion of the default. A caller that changes the object writes it back under the
  same key. The insertion stays when the method fails.
\<close>

definition get_as_object_or_insert_default ::
  "canonical_json_object \<Rightarrow> string \<Rightarrow> string
    \<Rightarrow> (canonical_json_field_error + canonical_json_object) \<times> canonical_json_object" where
  "get_as_object_or_insert_default self field path =
     (case map_of self field of
        None \<Rightarrow> (Inr [], bt_insert field (CObject []) self)
      | Some (CObject object) \<Rightarrow> (Inr object, self)
      | Some v \<Rightarrow> (Inl (FieldInvalidType path TString (json_type v)), self))"

definition get_as_string ::
  "canonical_json_object \<Rightarrow> string \<Rightarrow> string \<Rightarrow> canonical_json_field_error + string option" where
  "get_as_string self field path =
     (case map_of self field of
        None \<Rightarrow> Inr None
      | Some (CString string) \<Rightarrow> Inr (Some string)
      | Some v \<Rightarrow> Inl (FieldInvalidType path TString (json_type v)))"

definition get_as_required_string ::
  "canonical_json_object \<Rightarrow> string \<Rightarrow> string \<Rightarrow> canonical_json_field_error + string" where
  "get_as_required_string self field path =
     rbind (get_as_string self field path) (\<lambda>s. ok_or s (FieldMissing path))"

section \<open>Conversions\<close>

datatype canonical_json_error =
  IntegerOutOfRange | CInvalidType string | InvalidObjectKeyType string | DuplicateObjectKey string
  | InvalidRawValue serde_error | COther string

text \<open>\<open>is_i64\<close> and \<open>is_u64\<close> of \<open>serde_json::Number\<close>, whose integers are \<open>u64\<close> or negative \<open>i64\<close>.\<close>

definition number_is_i64 :: "json \<Rightarrow> bool" where
  "number_is_i64 num = (case num of JsonPosInt n \<Rightarrow> n < 2 ^ 63 | JsonNegInt _ \<Rightarrow> True | _ \<Rightarrow> False)"

definition number_as_i64 :: "json \<Rightarrow> int option" where
  "number_as_i64 num =
     (case num of JsonPosInt n \<Rightarrow> if n < 2 ^ 63 then Some (int n) else None
      | JsonNegInt i \<Rightarrow> Some i | _ \<Rightarrow> None)"

definition number_try_from :: "'a codec_scheme \<Rightarrow> json \<Rightarrow> canonical_json_error + canonical_json" where
  "number_try_from X num =
     (if \<not> number_is_i64 num \<and> \<not> (case num of JsonPosInt _ \<Rightarrow> True | _ \<Rightarrow> False)
         \<and> (case num of JsonFloat _ \<Rightarrow> True | _ \<Rightarrow> False)
      then Inl (CInvalidType ''float'')
      else
        (case number_as_i64 num of
           None \<Rightarrow> Inl IntegerOutOfRange
         | Some i \<Rightarrow>
             (case x_int_try_from X i of
                Inl _ \<Rightarrow> Inl IntegerOutOfRange | Inr i \<Rightarrow> Inr (CInteger i))))"

fun canonical_try_from :: "'a codec_scheme \<Rightarrow> json \<Rightarrow> canonical_json_error + canonical_json"
  and canonical_try_from_list :: "'a codec_scheme \<Rightarrow> json list \<Rightarrow> canonical_json_error + canonical_json list"
  and try_from_json_map :: "'a codec_scheme \<Rightarrow> json_object \<Rightarrow> canonical_json_object
    \<Rightarrow> canonical_json_error + canonical_json_object" where
  "canonical_try_from X (JsonBool b) = Inr (CBool b)"
| "canonical_try_from X (JsonArray vec) = map_ok CArray (canonical_try_from_list X vec)"
| "canonical_try_from X (JsonString string) = Inr (CString string)"
| "canonical_try_from X (JsonObject obj) = map_ok CObject (try_from_json_map X obj [])"
| "canonical_try_from X JsonNull = Inr CNull"
| "canonical_try_from X num = number_try_from X num"
| "canonical_try_from_list X [] = Inr []"
| "canonical_try_from_list X (v # vec) =
     rbind (canonical_try_from X v) (\<lambda>v. map_ok ((#) v) (canonical_try_from_list X vec))"
| "try_from_json_map X [] res = Inr res"
| "try_from_json_map X ((k, v) # json) res =
     rbind (canonical_try_from X v) (\<lambda>v. try_from_json_map X json (bt_insert k v res))"

fun json_from :: "canonical_json \<Rightarrow> json" where
  "json_from (CBool b) = JsonBool b"
| "json_from (CInteger i) = (if 0 \<le> i then JsonPosInt (nat i) else JsonNegInt i)"
| "json_from (CString string) = JsonString string"
| "json_from (CArray vec) = JsonArray (map json_from vec)"
| "json_from (CObject obj) = JsonObject (fold (\<lambda>(k, v). bt_insert k v) (map (\<lambda>(k, v). (k, json_from v)) obj) [])"
| "json_from CNull = JsonNull"

section \<open>Canonical values\<close>

text \<open>
  What the type of canonical JSON promises: integers in the range of \<open>js_int::Int\<close> and objects with
  their keys in order, each once, at every depth.
\<close>

definition int_in_range :: "int \<Rightarrow> bool" where
  "int_in_range i \<longleftrightarrow> \<bar>i\<bar> \<le> 2 ^ 53 - 1"

fun canonical :: "canonical_json \<Rightarrow> bool" where
  "canonical (CInteger i) \<longleftrightarrow> int_in_range i"
| "canonical (CArray vs) \<longleftrightarrow> (\<forall>v\<in>set vs. canonical v)"
| "canonical (CObject m) \<longleftrightarrow> bt_wf m \<and> (\<forall>kv\<in>set m. canonical (snd kv))"
| "canonical _ \<longleftrightarrow> True"

abbreviation canonical_object :: "canonical_json_object \<Rightarrow> bool" where
  "canonical_object m \<equiv> canonical (CObject m)"

text \<open>The documented range of \<open>js_int::Int\<close>.\<close>

definition js_int :: "'a codec_scheme \<Rightarrow> bool" where
  "js_int X \<longleftrightarrow> (\<forall>i. if int_in_range i then x_int_try_from X i = Inr i else \<not> is_ok (x_int_try_from X i))"

lemma js_int_Inr: "js_int X \<Longrightarrow> x_int_try_from X i = Inr j \<longleftrightarrow> int_in_range i \<and> j = i"
  by (auto simp: js_int_def is_ok_def split: if_splits) (metis sum.case(2))

lemma js_int_in_range [simp]: "js_int X \<Longrightarrow> int_in_range i \<Longrightarrow> x_int_try_from X i = Inr i"
  by (simp add: js_int_Inr)

declare map_ok_Inr_iff [simp]

lemma set_bt_insert_subset: "set (bt_insert k v m) \<subseteq> insert (k, v) (set m)"
  by (induction k v m rule: bt_insert.induct) auto

lemma canonical_object_insert [simp]:
  "canonical_object m \<Longrightarrow> canonical v \<Longrightarrow> canonical_object (bt_insert k v m)"
  using set_bt_insert_subset [of k v m] by auto

lemma canonical_object_filter: "canonical_object m \<Longrightarrow> canonical_object (filter P m)"
  by (simp add: bt_wf_filter)

lemma canonical_object_lookup: "canonical_object m \<Longrightarrow> map_of m k = Some v \<Longrightarrow> canonical v"
  by (force dest: map_of_SomeD)

lemma number_try_from_canonical:
  "js_int X \<Longrightarrow> number_try_from X num = Inr v \<Longrightarrow> canonical v"
  by (auto simp: number_try_from_def js_int_Inr split: if_splits option.splits sum.splits)

lemma canonical_object_Nil [simp]: "canonical_object []"
  by simp

lemma canonical_object_single [simp]: "canonical_object [(k, v)] \<longleftrightarrow> canonical v"
  by simp

lemma canonical_try_from_canonical:
  shows "canonical_try_from X j = Inr v \<Longrightarrow> js_int X \<Longrightarrow> canonical v"
    and "canonical_try_from_list X js = Inr vs \<Longrightarrow> js_int X \<Longrightarrow> \<forall>v\<in>set vs. canonical v"
    and "try_from_json_map X m res = Inr obj \<Longrightarrow> js_int X \<Longrightarrow> canonical_object res \<Longrightarrow> canonical_object obj"
proof (induction X j and X js and X m res arbitrary: v and vs and obj
    rule: canonical_try_from_canonical_try_from_list_try_from_json_map.induct)
qed (use number_try_from_canonical in \<open>auto simp: rbind_Inr_iff simp del: canonical.simps(3)\<close>)

lemma try_from_json_map_sorted:
  assumes "\<forall>kv\<in>set m. canonical_try_from X (json_from (snd kv)) = Inr (snd kv)" "bt_wf (acc @ m)"
  shows "try_from_json_map X (map (\<lambda>(k, v). (k, json_from v)) m) acc = Inr (acc @ m)"
  using assms
proof (induction m arbitrary: acc)
  case (Cons kv m)
  obtain k v where kv: "kv = (k, v)" by (cases kv)
  from Cons.prems kv have "bt_insert k v acc = acc @ [(k, v)]"
    by (intro bt_insert_last) (auto simp: bt_wf_append)
  with Cons kv show ?case by simp
qed simp

lemma canonical_try_from_list_map:
  "\<forall>v\<in>set vs. canonical_try_from X (json_from v) = Inr v \<Longrightarrow>
     canonical_try_from_list X (map json_from vs) = Inr vs"
  by (induction vs) (auto simp: map_ok_def)

lemma canonical_roundtrip: "js_int X \<Longrightarrow> canonical v \<Longrightarrow> canonical_try_from X (json_from v) = Inr v"
proof (induction v)
  case (CInteger i)
  then have "i < 2 ^ 63" by (simp add: int_in_range_def)
  with CInteger show ?case
    by (auto simp: number_try_from_def number_as_i64_def number_is_i64_def nat_less_iff)
next
  case (CArray vs)
  then show ?case by (auto simp: canonical_try_from_list_map map_ok_def)
next
  case (CObject m)
  let ?j = "map (\<lambda>(k, v). (k, json_from v)) m"
  from CObject have all: "\<forall>kv\<in>set m. canonical_try_from X (json_from (snd kv)) = Inr (snd kv)"
    by (auto simp: snds.simps)
  from CObject.prems have wf: "bt_wf m" by simp
  then have "bt_wf ?j" by (simp add: bt_wf_def o_def case_prod_beta)
  then have "json_from (CObject m) = JsonObject ?j" by (simp add: fold_bt_insert_sorted [of "[]", simplified])
  with try_from_json_map_sorted [OF all, of "[]"] wf show ?case by (simp add: map_ok_def)
qed auto

section \<open>An example codec\<close>

text \<open>A printer without escapes, a signature that is the start of the message, and hashes that are it.\<close>

fun print_json :: "canonical_json \<Rightarrow> string" where
  "print_json CNull = ''null''"
| "print_json (CBool b) = (if b then ''true'' else ''false'')"
| "print_json (CInteger i) = replicate (nat \<bar>i\<bar>) CHR ''1''"
| "print_json (CString s) = CHR ''\"'' # s @ [CHR ''\"'']"
| "print_json (CArray vs) = CHR ''['' # concat (map (\<lambda>v. print_json v @ '','') vs) @ '']''"
| "print_json (CObject m) = CHR ''{'' # concat (map (\<lambda>(k, v). k @ '':'' @ print_json v @ '','') m) @ ''}''"

definition example_codec :: codec where
  "example_codec =
     \<lparr>x_int_try_from = (\<lambda>i. if int_in_range i then Inr i else Inl ''out of range''),
      x_base64_standard = Inr, x_base64_url_safe = Inr, x_base64_encode = id,
      x_base64_encode_url_safe = id, x_from_str = (\<lambda>_. Inr JsonNull),
      x_serde_error = (\<lambda>_. []),
      x_serialize = (\<lambda>m. Inr (print_json (CObject m))), x_sha256 = id, x_ed25519_key = (\<lambda>k. k = ''key''),
      x_ed25519_verify = (\<lambda>k sig m. sig = take 64 (m @ replicate 64 CHR ''x'')), x_compat_len = False\<rparr>"

lemma example_codec_js_int: "js_int example_codec"
  by (simp add: js_int_def example_codec_def is_ok_def)

end
