(* ===== verification/Redaction.thy ===== *)
theory Redaction
  imports Canonical_Json
begin

text \<open>
  The redaction of events, \<open>common-types/src/canonical_json/redaction.rs\<close>, and the serializer that
  redacts on the fly, \<open>redaction/serializer.rs\<close>. The keys to retain are data with closures in it, as
  in the source, where \<open>RetainedKeys\<close> and \<open>RetainKey\<close> refer to each other through a function. Here
  \<open>retain_key\<close> takes the type of the child rules as a parameter and \<open>retained_keys\<close> nests itself in it,
  so \<open>retained_keys retain_key\<close> is the \<open>RetainKey\<close> of the source.

  The serializer hands its entries to \<open>serde_json\<close>; \<^term>\<open>x_serialize X\<close> prints the object that
  has these entries in this order.
\<close>

section \<open>Retained keys\<close>

datatype 'keys retain_key = RetainYes "'keys option" | RetainNo

datatype retained_keys =
  RetainAll | RetainSome "redaction_rules \<Rightarrow> string \<Rightarrow> retained_keys retain_key" | RetainNone

definition retain_key_from :: "bool \<Rightarrow> retained_keys retain_key" where
  "retain_key_from value = (if value then RetainYes None else RetainNo)"

fun should_retain_key :: "retained_keys \<Rightarrow> redaction_rules \<Rightarrow> string \<Rightarrow> retained_keys retain_key" where
  "should_retain_key RetainAll rules key = retain_key_from True"
| "should_retain_key (RetainSome retain_key_fn) rules key = retain_key_fn rules key"
| "should_retain_key RetainNone rules key = retain_key_from False"

text \<open>\<open>RetainedKeys::apply\<close>; the loop moves the entries of the old object to the new one.\<close>

function (sequential) retained_apply :: "redaction_rules \<Rightarrow> retained_keys \<Rightarrow> canonical_json_object \<Rightarrow> canonical_json_object"
  and retained_loop :: "redaction_rules \<Rightarrow> (redaction_rules \<Rightarrow> string \<Rightarrow> retained_keys retain_key) \<Rightarrow> canonical_json_object
    \<Rightarrow> canonical_json_object \<Rightarrow> canonical_json_object" where
  "retained_apply rules RetainAll object = object"
| "retained_apply rules (RetainSome retain_key_fn) old_object = retained_loop rules retain_key_fn old_object []"
| "retained_apply rules RetainNone object = []"
| "retained_loop rules retain_key_fn [] object = object"
| "retained_loop rules retain_key_fn ((key, value) # old_object) object =
     (case retain_key_fn rules key of
        RetainNo \<Rightarrow> retained_loop rules retain_key_fn old_object object
      | RetainYes child \<Rightarrow>
          retained_loop rules retain_key_fn old_object
            (bt_insert key
              (case child of
                 None \<Rightarrow> value
               | Some child_retained_keys \<Rightarrow>
                   (case value of
                      CObject child_object \<Rightarrow> CObject (retained_apply rules child_retained_keys child_object)
                    | _ \<Rightarrow> value))
              object))"
  by pat_completeness auto
termination
  by (relation "measure (\<lambda>p. case p of Inl (_, _, object) \<Rightarrow> 2 * size_list (size_prod (\<lambda>_. 0) size) object + 1
                               | Inr (_, _, old, _) \<Rightarrow> 2 * size_list (size_prod (\<lambda>_. 0) size) old)") auto

section \<open>Which keys are retained\<close>

definition is_room_member_content_key_retained :: "redaction_rules \<Rightarrow> string \<Rightarrow> retained_keys retain_key" where
  "is_room_member_content_key_retained rules key =
     (if key = ''membership'' then retain_key_from True
      else if key = ''join_authorised_via_users_server''
      then retain_key_from (keep_room_member_join_authorised_via_users_server rules)
      else if key = ''third_party_invite'' \<and> keep_room_member_third_party_invite_signed rules
      then RetainYes (Some (RetainSome (\<lambda>_ key. retain_key_from (key = ''signed''))))
      else retain_key_from False)"

definition room_create_content_retained_keys :: "redaction_rules \<Rightarrow> retained_keys" where
  "room_create_content_retained_keys rules =
     (if keep_room_create_content rules then RetainAll
      else RetainSome (\<lambda>_ field. retain_key_from (field = ''creator'')))"

definition is_room_join_rules_content_key_retained :: "redaction_rules \<Rightarrow> string \<Rightarrow> retained_keys retain_key" where
  "is_room_join_rules_content_key_retained rules key =
     retain_key_from
       (if key = ''join_rule'' then True
        else if key = ''allow'' then keep_room_join_rules_allow rules else False)"

definition is_room_power_levels_content_key_retained :: "redaction_rules \<Rightarrow> string \<Rightarrow> retained_keys retain_key" where
  "is_room_power_levels_content_key_retained rules key =
     retain_key_from
       (if key \<in> {''ban'', ''events'', ''events_default'', ''kick'', ''redact'', ''state_default'', ''users'',
                  ''users_default''} then True
        else if key = ''invite'' then keep_room_power_levels_invite rules else False)"

definition is_room_history_visibility_content_key_retained :: "string \<Rightarrow> retained_keys retain_key" where
  "is_room_history_visibility_content_key_retained key = retain_key_from (key = ''history_visibility'')"

definition room_redaction_content_retained_keys :: "redaction_rules \<Rightarrow> retained_keys" where
  "room_redaction_content_retained_keys rules =
     (if keep_room_redaction_redacts rules
      then RetainSome (\<lambda>_ field. retain_key_from (field = ''redacts'')) else RetainNone)"

definition room_aliases_content_retained_keys :: "redaction_rules \<Rightarrow> retained_keys" where
  "room_aliases_content_retained_keys rules =
     (if keep_room_aliases_aliases rules
      then RetainSome (\<lambda>_ field. retain_key_from (field = ''aliases'')) else RetainNone)"

definition retained_event_content_keys :: "string \<Rightarrow> redaction_rules \<Rightarrow> retained_keys" where
  "retained_event_content_keys event_type rules =
     (if event_type = ''m.room.member'' then RetainSome is_room_member_content_key_retained
      else if event_type = ''m.room.create'' then room_create_content_retained_keys rules
      else if event_type = ''m.room.join_rules'' then RetainSome is_room_join_rules_content_key_retained
      else if event_type = ''m.room.power_levels'' then RetainSome is_room_power_levels_content_key_retained
      else if event_type = ''m.room.history_visibility''
      then RetainSome (\<lambda>_ key. is_room_history_visibility_content_key_retained key)
      else if event_type = ''m.room.redaction'' then room_redaction_content_retained_keys rules
      else if event_type = ''m.room.aliases'' then room_aliases_content_retained_keys rules
      else RetainNone)"

definition retained_event_fields :: "string set" where
  "retained_event_fields =
     {''event_id'', ''type'', ''room_id'', ''sender'', ''state_key'', ''hashes'', ''signatures'',
      ''depth'', ''prev_events'', ''auth_events'', ''origin_server_ts''}"

definition legacy_event_fields :: "string set" where
  "legacy_event_fields = {''origin'', ''membership'', ''prev_state''}"

definition event_key_retained :: "string \<Rightarrow> redaction_rules \<Rightarrow> string \<Rightarrow> retained_keys retain_key" where
  "event_key_retained event_type rules key =
     (if key = ''content'' then RetainYes (Some (retained_event_content_keys event_type rules))
      else if key \<in> retained_event_fields then retain_key_from True
      else if key \<in> legacy_event_fields
      then retain_key_from (keep_origin_membership_prev_state rules)
      else retain_key_from False)"

definition retained_event_keys :: "canonical_json_object \<Rightarrow> canonical_json_field_error + retained_keys" where
  "retained_event_keys event =
     map_ok (\<lambda>event_type. RetainSome (event_key_retained event_type))
       (get_as_required_string event ''type'' ''type'')"

section \<open>Redaction\<close>

definition redact :: "canonical_json_object \<Rightarrow> redaction_rules \<Rightarrow> canonical_json_object option
    \<Rightarrow> canonical_json_field_error + canonical_json_object" where
  "redact event rules redacted_because =
     rbind (retained_event_keys event) (\<lambda>keys.
       let event = retained_apply rules keys event
       in Inr (case redacted_because of
                 None \<Rightarrow> event
               | Some because \<Rightarrow>
                   bt_insert ''unsigned'' (CObject (bt_insert ''redacted_because'' (CObject because) [])) event))"

definition redact_content_in_place ::
  "canonical_json_object \<Rightarrow> redaction_rules \<Rightarrow> string \<Rightarrow> canonical_json_object" where
  "redact_content_in_place content rules event_type =
     retained_apply rules (retained_event_content_keys event_type rules) content"

section \<open>The redacting serializer\<close>

record redacting_serializer =
  rs_rules :: "redaction_rules option"
  custom_redacted_root_fields :: "string list"

fun redacting_entries :: "(retained_keys \<times> redaction_rules) option \<Rightarrow> string list \<Rightarrow> canonical_json_object
    \<Rightarrow> canonical_json_object" where
  "redacting_entries retained custom_redacted_fields [] = []"
| "redacting_entries retained custom_redacted_fields ((key, value) # object) =
     (if key \<in> set custom_redacted_fields then redacting_entries retained custom_redacted_fields object
      else
        (case retained of
           None \<Rightarrow> (key, value) # redacting_entries retained custom_redacted_fields object
         | Some (retained_keys, rules) \<Rightarrow>
             (case should_retain_key retained_keys rules key of
                RetainNo \<Rightarrow> redacting_entries retained custom_redacted_fields object
              | RetainYes child \<Rightarrow>
                  (key,
                   (case child of
                      None \<Rightarrow> value
                    | Some retained_keys \<Rightarrow>
                        (case value of
                           CObject child_object \<Rightarrow>
                             CObject (redacting_entries (Some (retained_keys, rules)) [] child_object)
                         | _ \<Rightarrow> value)))
                  # redacting_entries retained custom_redacted_fields object)))"

definition redacting_serialize ::
  "'a codec_scheme \<Rightarrow> redacting_serializer \<Rightarrow> canonical_json_object \<Rightarrow> serde_error + string" where
  "redacting_serialize X self object =
     (case rs_rules self of
        None \<Rightarrow> x_serialize X (redacting_entries None (custom_redacted_root_fields self) object)
      | Some rules \<Rightarrow>
          (case retained_event_keys object of
             Inl error \<Rightarrow> Inl (SerdeCustom (field_error_to_string error))
           | Inr retained_keys \<Rightarrow>
               x_serialize X
                 (redacting_entries (Some (retained_keys, rules)) (custom_redacted_root_fields self) object)))"

section \<open>The serializer agrees with redaction\<close>

abbreviation retained_entries :: "redaction_rules \<Rightarrow> retained_keys \<Rightarrow> canonical_json_object \<Rightarrow> canonical_json_object" where
  "retained_entries rules keys object \<equiv> redacting_entries (Some (keys, rules)) [] object"

definition without_fields :: "string list \<Rightarrow> canonical_json_object \<Rightarrow> canonical_json_object" where
  "without_fields names object = filter (\<lambda>(k, v). k \<notin> set names) object"

lemma retain_key_from_simps [simp]:
  "retain_key_from True = RetainYes None" "retain_key_from False = RetainNo"
  by (simp_all add: retain_key_from_def)

definition retained_value :: "redaction_rules \<Rightarrow> retained_keys option \<Rightarrow> canonical_json \<Rightarrow> canonical_json" where
  "retained_value rules child v =
     (case (child, v) of
        (Some keys, CObject m) \<Rightarrow> CObject (retained_entries rules keys m) | _ \<Rightarrow> v)"

lemma retained_value_simps [simp]:
  "retained_value rules None v = v"
  "retained_value rules (Some keys) (CObject m) = CObject (retained_entries rules keys m)"
  "json_type v \<noteq> TObject \<Longrightarrow> retained_value rules child v = v"
  by (auto simp: retained_value_def split: option.splits canonical_json.splits)

lemma redacting_entries_Cons [simp]:
  "redacting_entries (Some (keys, rules)) names ((k, v) # m) =
     (if k \<in> set names then redacting_entries (Some (keys, rules)) names m
      else case should_retain_key keys rules k of
             RetainNo \<Rightarrow> redacting_entries (Some (keys, rules)) names m
           | RetainYes child \<Rightarrow>
               (k, retained_value rules child v) # redacting_entries (Some (keys, rules)) names m)"
  by (auto simp: retained_value_def split: option.splits retain_key.splits canonical_json.splits)

lemma redacting_entries_without_rules: "redacting_entries None names m = without_fields names m"
  by (induction m) (auto simp: without_fields_def)

declare redacting_entries.simps(2) [simp del]

lemma retained_entries_mem:
  "(k, v) \<in> set (redacting_entries (Some (keys, rules)) names m) \<Longrightarrow>
     \<exists>child w. (k, w) \<in> set m \<and> v = retained_value rules child w"
  by (induction m) (fastforce split: if_splits retain_key.splits)+

lemma bt_wf_retained_entries: "bt_wf m \<Longrightarrow> bt_wf (retained_entries rules keys m)"
  by (induction m) (fastforce split: retain_key.splits dest: retained_entries_mem)+

lemma canonical_retained_value: "canonical v \<Longrightarrow> canonical (retained_value rules child v)"
proof (induction v arbitrary: child)
  case (CObject m)
  show ?case
  proof (cases child)
    case (Some keys)
    have "canonical w" if "(k, w) \<in> set (retained_entries rules keys m)" for k w
      using retained_entries_mem [OF that] CObject by (force simp: snds.simps)
    with CObject.prems Some show ?thesis by (auto simp: bt_wf_retained_entries)
  qed (use CObject in simp)
qed auto

lemma canonical_retained_entries:
  "canonical_object m \<Longrightarrow> canonical_object (retained_entries rules keys m)"
  using canonical_retained_value [of "CObject m" rules "Some keys"] by simp

lemma retained_entries_All [simp]: "retained_entries rules RetainAll m = m"
  by (induction m) auto

lemma retained_entries_None [simp]: "retained_entries rules RetainNone m = []"
  by (induction m) auto

lemma redacting_entries_fields:
  "redacting_entries (Some (keys, rules)) names m = without_fields names (retained_entries rules keys m)"
  by (induction m) (auto simp: without_fields_def split: retain_key.splits)

lemma retained_apply_entries:
  shows "canonical_object m \<Longrightarrow> retained_apply rules keys m = retained_entries rules keys m"
    and "canonical_object old \<Longrightarrow> \<forall>k\<in>fst ` set acc. \<forall>k'\<in>fst ` set old. k < k' \<Longrightarrow>
      retained_loop rules f old acc = acc @ retained_entries rules (RetainSome f) old"
proof (induction rules keys m and rules f old acc rule: retained_apply_retained_loop.induct)
  case (5 rules f key v old acc)
  from "5.prems" have old: "canonical_object old" and v: "canonical v" by auto
  from "5.prems"(2) have last: "bt_insert key w acc = acc @ [(key, w)]" for w
    by (intro bt_insert_last) auto
  have after: "\<forall>k\<in>fst ` set (acc @ [(key, w)]). \<forall>k'\<in>fst ` set old. k < k'" for w
    using "5.prems" by auto
  show ?case
  proof (cases "f rules key")
    case (RetainYes child)
    have "(case child of None \<Rightarrow> v
             | Some keys \<Rightarrow> (case v of CObject m \<Rightarrow> CObject (retained_apply rules keys m) | _ \<Rightarrow> v))
          = retained_value rules child v"
      using "5.IH" RetainYes v
      by (auto simp: retained_value_def split: option.splits canonical_json.splits)
    with "5.IH" old last after RetainYes show ?thesis by simp
  next
    case RetainNo
    with "5.IH" "5.prems" old show ?thesis by auto
  qed
qed auto

lemma retained_value_idem:
  "retained_value rules child (retained_value rules child v) = retained_value rules child v"
proof (induction v arbitrary: child)
  case (CObject m)
  have "retained_entries rules keys (retained_entries rules keys m) = retained_entries rules keys m" for keys
    using CObject
  proof (induction m)
    case (Cons kv m)
    obtain k v where kv: "kv = (k, v)" by (cases kv)
    have "retained_value rules child (retained_value rules child v) = retained_value rules child v" for child
      by (rule Cons.prems [of "(k, v)" v]) (auto simp: kv snds.simps)
    with Cons kv show ?case by (auto simp: snds.simps split: retain_key.splits)
  qed simp
  then show ?case by (cases child) auto
qed auto

lemma retained_entries_idem:
  "retained_entries rules keys (retained_entries rules keys m) = retained_entries rules keys m"
  using retained_value_idem [of rules "Some keys" "CObject m"] by simp

lemma map_of_retained_entries:
  "bt_wf m \<Longrightarrow> map_of (retained_entries rules keys m) k =
     (case map_of m k of
        None \<Rightarrow> None
      | Some v \<Rightarrow>
          (case should_retain_key keys rules k of
             RetainNo \<Rightarrow> None | RetainYes child \<Rightarrow> Some (retained_value rules child v)))"
proof (induction m)
  case (Cons kv m)
  obtain k' v where kv: "kv = (k', v)" by (cases kv)
  have "k' = k \<Longrightarrow> map_of (retained_entries rules keys m) k = None"
    using Cons.prems kv by (fastforce simp: map_of_eq_None_iff dest: retained_entries_mem)
  with Cons kv show ?case
    by (auto split: retain_key.splits option.splits)
qed simp

lemma redact_entries:
  "canonical_object event \<Longrightarrow> redact event rules None =
     map_ok (\<lambda>event_type. retained_entries rules (RetainSome (event_key_retained event_type)) event)
       (get_as_required_string event ''type'' ''type'')"
  by (cases "get_as_required_string event ''type'' ''type''")
    (simp_all add: redact_def retained_event_keys_def map_ok_def retained_apply_entries Let_def
      del: canonical.simps(3) retained_apply.simps)

lemma redact_InrE:
  assumes "redact event rules None = Inr redacted" "canonical_object event"
  obtains event_type where "map_of event ''type'' = Some (CString event_type)"
    and "redacted = retained_entries rules (RetainSome (event_key_retained event_type)) event"
  using assms
  by (auto simp: redact_entries get_as_required_string_def get_as_string_def ok_or_def rbind_Inr_iff
      simp del: canonical.simps(3) split: option.splits canonical_json.splits)

lemma redact_canonical:
  "redact event rules None = Inr redacted \<Longrightarrow> canonical_object event \<Longrightarrow> canonical_object redacted"
  by (metis redact_InrE canonical_retained_entries)

lemma event_key_retained_kept:
  "k \<in> retained_event_fields \<Longrightarrow> event_key_retained t rules k = RetainYes None"
  by (auto simp: event_key_retained_def retained_event_fields_def)

text \<open>Redaction leaves the fields that name, place and authenticate an event as they are.\<close>

lemma redact_keeps:
  assumes "redact event rules None = Inr redacted" "canonical_object event"
    and "k \<in> retained_event_fields"
  shows "map_of redacted k = map_of event k"
proof -
  obtain t where "redacted = retained_entries rules (RetainSome (event_key_retained t)) event"
    using redact_InrE [OF assms(1,2)] by blast
  with assms(2) event_key_retained_kept [OF assms(3), of t rules] show ?thesis
    by (simp add: map_of_retained_entries split: option.splits)
qed

lemma redact_redact:
  assumes "redact event rules None = Inr redacted" "canonical_object event"
  shows "redact redacted rules None = Inr redacted"
proof -
  obtain t where t: "map_of event ''type'' = Some (CString t)"
    "redacted = retained_entries rules (RetainSome (event_key_retained t)) event"
    using redact_InrE [OF assms] .
  have "map_of redacted ''type'' = Some (CString t)" using redact_keeps [OF assms] t(1) by (simp add: retained_event_fields_def)
  with redact_canonical [OF assms] t(2) show ?thesis
    by (simp add: redact_entries get_as_required_string_def get_as_string_def ok_or_def map_ok_def
        retained_entries_idem del: canonical.simps(3))
qed

lemma redacting_serialize_redact:
  assumes "canonical_object object"
  shows "redacting_serialize X \<lparr>rs_rules = Some rules, custom_redacted_root_fields = names\<rparr> object =
     (case redact object rules None of
        Inl e \<Rightarrow> Inl (SerdeCustom (field_error_to_string e))
      | Inr redacted \<Rightarrow> x_serialize X (without_fields names redacted))"
  using assms
  by (cases "get_as_required_string object ''type'' ''type''")
    (simp_all add: redacting_serialize_def redact_entries retained_event_keys_def map_ok_def
      redacting_entries_fields [of _ _ names] del: canonical.simps(3))

section \<open>Properties\<close>

text \<open>
  (C23) The serializer that redacts on the fly, with which events are hashed and signed, prints what
  redacting the event, removing the extra fields and printing the result would give, and fails
  where redaction fails.
\<close>

theorem redacting_serializer_agrees:
  assumes "canonical_object object"
  shows "redacting_serialize X \<lparr>rs_rules = Some rules, custom_redacted_root_fields = names\<rparr> object =
     (case redact object rules None of
        Inl e \<Rightarrow> Inl (SerdeCustom (field_error_to_string e))
      | Inr redacted \<Rightarrow> x_serialize X (without_fields names redacted))"
  by (rule redacting_serialize_redact [OF assms])

text \<open>An event with fields of each kind.\<close>

definition example_member_event :: canonical_json_object where
  "example_member_event =
     [(''content'', CObject [(''displayname'', CString ''A''), (''membership'', CString ''join'')]),
      (''origin'', CString ''d''), (''sender'', CString ''@a:d''), (''type'', CString ''m.room.member''),
      (''unsigned'', CObject [])]"

lemma example_member_event_canonical: "canonical_object example_member_event"
  by code_simp

theorem redacting_serializer_agrees_witness:
  "redacting_serialize example_codec \<lparr>rs_rules = Some RedactionRules_V11, custom_redacted_root_fields = [''sender'']\<rparr>
     example_member_event
   = Inr (print_json (CObject [(''content'', CObject [(''membership'', CString ''join'')]),
       (''type'', CString ''m.room.member'')]))"
proof -
  have "redact example_member_event RedactionRules_V11 None =
      Inr [(''content'', CObject [(''membership'', CString ''join'')]), (''sender'', CString ''@a:d''),
        (''type'', CString ''m.room.member'')]"
    by code_simp
  with redacting_serializer_agrees [OF example_member_event_canonical, of example_codec RedactionRules_V11 "[''sender'']"]
  show ?thesis by (simp add: example_codec_def without_fields_def)
qed



end
