(* ===== verification/Signatures.thy ===== *)
theory Signatures
  imports Redaction
begin

text \<open>
  Hashes and signatures of events, \<open>common-signatures/src\<close>. SHA-256, base64 and Ed25519 are functions
  of the record \<^typ>\<open>codec\<close>. A key pair is its \<open>sign\<close> method. A method that takes
  \<open>&mut CanonicalJsonObject\<close> returns its result together with the object it leaves behind.
\<close>

section \<open>Errors\<close>

datatype json_error = PduTooLarge | JsonField canonical_json_field_error | JsonSerde serde_error

datatype ed25519_verification_error =
  InvalidPublicKey | InvalidSignatureLength nat nat | SignatureVerification

datatype verification_error =
  VJson json_error | InvalidBase64Signature string | ParseIdentifier string id_error
  | UnsupportedAlgorithm | NoSignaturesForEntity string | NoPublicKeysForEntity string
  | NoSupportedSignatureForEntity string | VEd25519 ed25519_verification_error

section \<open>Hashes\<close>

definition MAX_PDU_BYTES_hash :: nat where
  "MAX_PDU_BYTES_hash = 65535"

definition CONTENT_HASH_FIELDS_TO_REMOVE :: "string list" where
  "CONTENT_HASH_FIELDS_TO_REMOVE = [''hashes'', ''signatures'', ''unsigned'']"

definition REFERENCE_HASH_FIELDS_TO_REMOVE :: "string list" where
  "REFERENCE_HASH_FIELDS_TO_REMOVE = [''signatures'', ''unsigned'']"

definition FIELDS_TO_REMOVE_FOR_SIGNING :: "string list" where
  "FIELDS_TO_REMOVE_FOR_SIGNING = [''signatures'', ''unsigned'']"

definition content_hash :: "'a codec_scheme \<Rightarrow> canonical_json_object \<Rightarrow> json_error + string" where
  "content_hash X object =
     rbind (map_err JsonSerde
       (redacting_serialize X
         \<lparr>rs_rules = None, custom_redacted_root_fields = CONTENT_HASH_FIELDS_TO_REMOVE\<rparr> object)) (\<lambda>json.
     if length json > MAX_PDU_BYTES_hash then Inl PduTooLarge else Inr (x_sha256 X json))"

definition add_content_hash_to_event ::
  "'a codec_scheme \<Rightarrow> canonical_json_object \<Rightarrow> (json_error + unit) \<times> canonical_json_object" where
  "add_content_hash_to_event X object =
     (case content_hash X object of
        Inl e \<Rightarrow> (Inl e, object)
      | Inr hash \<Rightarrow>
          (case get_as_object_or_insert_default object ''hashes'' ''hashes'' of
             (Inl e, object) \<Rightarrow> (Inl (JsonField e), object)
           | (Inr hashes, object) \<Rightarrow>
               (Inr (), bt_insert ''hashes'' (CObject (bt_insert ''sha256'' (CString (x_base64_encode X hash)) hashes))
                          object)))"

definition reference_hash ::
  "'a codec_scheme \<Rightarrow> canonical_json_object \<Rightarrow> room_version_rules \<Rightarrow> json_error + string" where
  "reference_hash X object rules =
     rbind (map_err JsonSerde
       (redacting_serialize X
         \<lparr>rs_rules = Some (redaction rules),
          custom_redacted_root_fields = REFERENCE_HASH_FIELDS_TO_REMOVE\<rparr> object)) (\<lambda>json.
     if length json > MAX_PDU_BYTES_hash then Inl PduTooLarge
     else
       let hash = x_sha256 X json
       in Inr (if event_id_format rules \<in> {EventIdFormat_V1, EventIdFormat_V2}
               then x_base64_encode X hash else x_base64_encode_url_safe X hash))"

text \<open>The size limit is evaluated on integers.\<close>

lemma MAX_PDU_BYTES_code [code_unfold]: "n > MAX_PDU_BYTES_hash \<longleftrightarrow> int n > 65535"
  by (auto simp: MAX_PDU_BYTES_hash_def)

section \<open>Signing\<close>

record signature =
  sig_key_id :: string
  sig_bytes :: string

type_synonym key_pair = "string \<Rightarrow> signature"

text \<open>An Ed25519 key pair: the signing function of its secret key, and the version.\<close>

definition ed25519_sign :: "(string \<Rightarrow> string) \<Rightarrow> string \<Rightarrow> key_pair" where
  "ed25519_sign signing_key version message =
     \<lparr>sig_key_id = ''ed25519:'' @ version, sig_bytes = signing_key message\<rparr>"

definition insert_signature :: "'a codec_scheme \<Rightarrow> canonical_json_object \<Rightarrow> string \<Rightarrow> signature
    \<Rightarrow> (canonical_json_field_error + unit) \<times> canonical_json_object" where
  "insert_signature X object entity_id signature =
     (case get_as_object_or_insert_default object ''signatures'' ''signatures'' of
        (Inl e, object) \<Rightarrow> (Inl e, object)
      | (Inr signatures, object) \<Rightarrow>
          (case get_as_object_or_insert_default signatures entity_id (''signatures.'' @ entity_id) of
             (Inl e, signatures) \<Rightarrow> (Inl e, bt_insert ''signatures'' (CObject signatures) object)
           | (Inr entity_signatures_set, signatures) \<Rightarrow>
               (Inr (),
                bt_insert ''signatures''
                  (CObject (bt_insert entity_id
                    (CObject (bt_insert (sig_key_id signature)
                      (CString (x_base64_encode X (sig_bytes signature))) entity_signatures_set))
                    signatures))
                  object)))"

definition to_canonical_json_string_for_signing ::
  "'a codec_scheme \<Rightarrow> canonical_json_object \<Rightarrow> json_error + string" where
  "to_canonical_json_string_for_signing X object =
     map_err JsonSerde (redacting_serialize X
       \<lparr>rs_rules = None, custom_redacted_root_fields = FIELDS_TO_REMOVE_FOR_SIGNING\<rparr> object)"

definition sign_event :: "'a codec_scheme \<Rightarrow> string \<Rightarrow> key_pair \<Rightarrow> canonical_json_object \<Rightarrow> redaction_rules
    \<Rightarrow> (json_error + unit) \<times> canonical_json_object" where
  "sign_event X entity_id key_pair object redaction_rules =
     (case redacting_serialize X
         \<lparr>rs_rules = Some redaction_rules,
          custom_redacted_root_fields = FIELDS_TO_REMOVE_FOR_SIGNING\<rparr> object of
        Inl e \<Rightarrow> (Inl (JsonSerde e), object)
      | Inr json \<Rightarrow> apfst (map_err JsonField) (insert_signature X object entity_id (key_pair json)))"

definition hash_and_sign_event :: "'a codec_scheme \<Rightarrow> string \<Rightarrow> key_pair \<Rightarrow> canonical_json_object
    \<Rightarrow> redaction_rules \<Rightarrow> (json_error + unit) \<times> canonical_json_object" where
  "hash_and_sign_event X entity_id key_pair object redaction_rules =
     (case add_content_hash_to_event X object of
        (Inl e, object) \<Rightarrow> (Inl e, object)
      | (Inr _, object) \<Rightarrow> sign_event X entity_id key_pair object redaction_rules)"

definition sign_json :: "'a codec_scheme \<Rightarrow> string \<Rightarrow> key_pair \<Rightarrow> canonical_json_object
    \<Rightarrow> (json_error + unit) \<times> canonical_json_object" where
  "sign_json X entity_id key_pair object =
     (case to_canonical_json_string_for_signing X object of
        Inl e \<Rightarrow> (Inl e, object)
      | Inr json \<Rightarrow> apfst (map_err JsonField) (insert_signature X object entity_id (key_pair json)))"

section \<open>Verification\<close>

definition ed25519_verify_json ::
  "'a codec_scheme \<Rightarrow> string \<Rightarrow> string \<Rightarrow> string \<Rightarrow> ed25519_verification_error + unit" where
  "ed25519_verify_json X public_key signature message =
     (if \<not> x_ed25519_key X public_key then Inl InvalidPublicKey
      else if length signature \<noteq> 64 then Inl (InvalidSignatureLength 64 (length signature))
      else if x_ed25519_verify X public_key signature message then Inr ()
      else Inl SignatureVerification)"

text \<open>\<open>verifier_from_algorithm\<close> with the call of the verifier it returns.\<close>

definition verifier_from_algorithm ::
  "'a codec_scheme \<Rightarrow> string \<Rightarrow> (string \<Rightarrow> string \<Rightarrow> string \<Rightarrow> verification_error + unit) option" where
  "verifier_from_algorithm X algorithm =
     (if algorithm = ''ed25519''
      then Some (\<lambda>public_key signature message.
             map_err VEd25519 (ed25519_verify_json X public_key signature message))
      else None)"

definition verify_canonical_json_bytes ::
  "'a codec_scheme \<Rightarrow> string \<Rightarrow> string \<Rightarrow> string \<Rightarrow> string \<Rightarrow> verification_error + unit" where
  "verify_canonical_json_bytes X algorithm public_key signature canonical_json =
     rbind (ok_or (verifier_from_algorithm X algorithm) UnsupportedAlgorithm) (\<lambda>verifier.
     verifier public_key signature canonical_json)"

text \<open>The trait \<open>FetchEntityPublicSigningKey\<close> and its two implementations.\<close>

type_synonym fetch_public_keys = "string \<Rightarrow> string \<Rightarrow> verification_error + string option"

type_synonym public_key_map = "(string \<times> (string \<times> string) list) list"

definition public_key_map_signing_key :: "public_key_map \<Rightarrow> fetch_public_keys" where
  "public_key_map_signing_key self entity key_id =
     rbind (ok_or (map_of self entity) (NoPublicKeysForEntity entity)) (\<lambda>keys. Inr (map_of keys key_id))"

record room_policy =
  rp_via :: string
  rp_public_keys :: "(string \<times> string) list"

definition room_policy_signing_key :: "room_policy \<Rightarrow> fetch_public_keys" where
  "room_policy_signing_key self entity key_id =
     (if entity \<noteq> rp_via self then Inl (NoPublicKeysForEntity entity)
      else if key_id \<noteq> ''ed25519:policy_server'' then Inr None
      else Inr (map_of (rp_public_keys self) ''ed25519''))"

text \<open>The loop over the signatures of an entity; \<open>checked\<close> is its flag.\<close>

fun verify_signature_set :: "'a codec_scheme \<Rightarrow> string \<Rightarrow> fetch_public_keys \<Rightarrow> string
    \<Rightarrow> canonical_json_object \<Rightarrow> bool \<Rightarrow> verification_error fail + bool" where
  "verify_signature_set X entity_id fetch canonical_json [] checked = Inr checked"
| "verify_signature_set X entity_id fetch canonical_json ((key_id, signature) # signature_set) checked =
     rbind (map_err Err (fetch entity_id key_id)) (\<lambda>public_key.
     case public_key of
       None \<Rightarrow> verify_signature_set X entity_id fetch canonical_json signature_set checked
     | Some public_key \<Rightarrow>
         (case key_id_validate (\<lambda>_. Inr ()) key_id of
            Inl Panic \<Rightarrow> Inl Panic
          | Inl (Err _) \<Rightarrow> verify_signature_set X entity_id fetch canonical_json signature_set checked
          | Inr _ \<Rightarrow>
              rbind (key_id_algorithm key_id) (\<lambda>algorithm.
              case verifier_from_algorithm X algorithm of
                None \<Rightarrow> verify_signature_set X entity_id fetch canonical_json signature_set checked
              | Some verifier \<Rightarrow>
                  (case signature of
                     CString signature \<Rightarrow>
                       (case x_base64_standard X signature of
                          Inl _ \<Rightarrow> Inl (Err (InvalidBase64Signature
                                     (''signatures.'' @ entity_id @ ''.'' @ key_id)))
                        | Inr signature \<Rightarrow>
                            rbind (map_err Err (verifier public_key signature canonical_json)) (\<lambda>_.
                            verify_signature_set X entity_id fetch canonical_json signature_set True))
                   | _ \<Rightarrow> Inl (Err (VJson (JsonField (FieldInvalidType
                              (''signatures.'' @ entity_id @ ''.'' @ key_id) TString (json_type signature)))))))))"

definition verify_canonical_json_for_entity :: "'a codec_scheme \<Rightarrow> string \<Rightarrow> fetch_public_keys
    \<Rightarrow> canonical_json_object \<Rightarrow> string \<Rightarrow> verification_error fail + unit" where
  "verify_canonical_json_for_entity X entity_id fetch_public_keys signature_map canonical_json =
     rbind (map_err (Err \<circ> VJson \<circ> JsonField)
       (get_as_object signature_map entity_id (''signatures.'' @ entity_id))) (\<lambda>v.
     rbind (ok_or v (Err (NoSignaturesForEntity entity_id))) (\<lambda>signature_set.
     rbind (verify_signature_set X entity_id fetch_public_keys canonical_json signature_set False) (\<lambda>checked.
     if checked then Inr () else Inl (Err (NoSupportedSignatureForEntity entity_id)))))"

fun verify_entities :: "'a codec_scheme \<Rightarrow> fetch_public_keys \<Rightarrow> canonical_json_object \<Rightarrow> string
    \<Rightarrow> string list \<Rightarrow> verification_error fail + unit" where
  "verify_entities X fetch signature_map canonical_json [] = Inr ()"
| "verify_entities X fetch signature_map canonical_json (entity_id # entities) =
     rbind (verify_canonical_json_for_entity X entity_id fetch signature_map canonical_json) (\<lambda>_.
     verify_entities X fetch signature_map canonical_json entities)"

definition verify_json ::
  "'a codec_scheme \<Rightarrow> public_key_map \<Rightarrow> canonical_json_object \<Rightarrow> verification_error fail + unit" where
  "verify_json X public_key_map object =
     rbind (map_err (Err \<circ> VJson \<circ> JsonField) (get_as_required_object object ''signatures'' ''signatures''))
       (\<lambda>signature_map.
     rbind (map_err (Err \<circ> VJson) (to_canonical_json_string_for_signing X object)) (\<lambda>canonical_json.
     verify_entities X (public_key_map_signing_key public_key_map) signature_map canonical_json
       (map fst signature_map)))"

definition is_invite_via_third_party_id :: "canonical_json_object \<Rightarrow> canonical_json_field_error + bool" where
  "is_invite_via_third_party_id object =
     rbind (get_as_required_string object ''type'' ''type'') (\<lambda>event_type.
     if event_type \<noteq> ''m.room.member'' then Inr False
     else
       rbind (get_as_required_object object ''content'' ''content'') (\<lambda>content.
       rbind (get_as_required_string content ''membership'' ''content.membership'') (\<lambda>membership.
       if membership \<noteq> ''invite'' then Inr False
       else map_ok (\<lambda>v. v \<noteq> None)
              (get_as_object content ''third_party_invite'' ''content.third_party_invite''))))"

definition user_id_server :: "bool \<Rightarrow> string \<Rightarrow> verification_error fail + string" where
  "user_id_server compat_len s =
     rbind (map_err (Err \<circ> ParseIdentifier ''user ID'') (user_id_validate compat_len s)) (\<lambda>_.
     user_id_server_name_checked s)"

definition authorised_via_users_server :: "canonical_json_object \<Rightarrow> canonical_json_field_error + string option" where
  "authorised_via_users_server object =
     (case map_of object ''content'' of
        Some (CObject c) \<Rightarrow>
          get_as_string c ''join_authorised_via_users_server'' ''content.join_authorised_via_users_server''
      | _ \<Rightarrow> Inr None)"

definition required_server_signatures_to_verify_event ::
  "'a codec_scheme \<Rightarrow> canonical_json_object \<Rightarrow> signatures_rules \<Rightarrow> verification_error fail + string list" where
  "required_server_signatures_to_verify_event X object rules =
     rbind (map_err (Err \<circ> VJson \<circ> JsonField) (is_invite_via_third_party_id object)) (\<lambda>via_third_party.
     rbind (if via_third_party then Inr []
            else
              rbind (map_err (Err \<circ> VJson \<circ> JsonField) (get_as_required_string object ''sender'' ''sender''))
                (\<lambda>sender. map_ok (\<lambda>server. insort_insert server []) (user_id_server (x_compat_len X) sender)))
       (\<lambda>servers_to_check.
     rbind (if \<not> check_event_id_server rules then Inr servers_to_check
            else
              rbind (map_err (Err \<circ> VJson \<circ> JsonField) (get_as_required_string object ''event_id'' ''event_id''))
                (\<lambda>event_id.
              rbind (map_err (Err \<circ> ParseIdentifier ''event ID'') (event_id_validate (x_compat_len X) event_id))
                (\<lambda>_.
              rbind (ok_or (event_id_server_name event_id) (Err (ParseIdentifier ''event ID'' InvalidServerName)))
                (\<lambda>server_name. Inr (insort_insert server_name servers_to_check)))))
       (\<lambda>servers_to_check.
     if \<not> check_join_authorised_via_users_server rules then Inr servers_to_check
     else
       rbind (map_err (Err \<circ> VJson \<circ> JsonField) (authorised_via_users_server object)) (\<lambda>authorized_user.
       case authorized_user of
         None \<Rightarrow> Inr servers_to_check
       | Some authorized_user \<Rightarrow>
           map_ok (\<lambda>server. insort_insert server servers_to_check)
             (user_id_server (x_compat_len X) authorized_user)))))"

datatype verified = VerifiedAll | VerifiedSignatures

definition verify_event :: "'a codec_scheme \<Rightarrow> public_key_map \<Rightarrow> canonical_json_object \<Rightarrow> room_version_rules
    \<Rightarrow> verification_error fail + verified" where
  "verify_event X public_key_map object rules =
     rbind (map_err (Err \<circ> VJson \<circ> JsonField) (get_as_required_object object ''hashes'' ''hashes'')) (\<lambda>hashes.
     rbind (map_err (Err \<circ> VJson \<circ> JsonField) (get_as_required_string hashes ''sha256'' ''hashes.sha256'')) (\<lambda>hash.
     rbind (map_err (Err \<circ> VJson \<circ> JsonField) (get_as_required_object object ''signatures'' ''signatures''))
       (\<lambda>signature_map.
     rbind (required_server_signatures_to_verify_event X object (signatures_of rules)) (\<lambda>servers_to_check.
     rbind (map_err (Err \<circ> VJson \<circ> JsonSerde) (redacting_serialize X
         \<lparr>rs_rules = Some (redaction rules),
          custom_redacted_root_fields = FIELDS_TO_REMOVE_FOR_SIGNING\<rparr> object)) (\<lambda>canonical_json.
     rbind (verify_entities X (public_key_map_signing_key public_key_map) signature_map canonical_json
         servers_to_check) (\<lambda>_.
     rbind (map_err (Err \<circ> VJson) (content_hash X object)) (\<lambda>calculated_hash.
     Inr (if x_base64_standard X hash = Inr calculated_hash then VerifiedAll else VerifiedSignatures))))))))"

definition verify_policy_server_signature :: "'a codec_scheme \<Rightarrow> room_policy \<Rightarrow> canonical_json_object
    \<Rightarrow> room_version_rules \<Rightarrow> verification_error fail + unit" where
  "verify_policy_server_signature X room_policy object rules =
     rbind (map_err (Err \<circ> VJson \<circ> JsonField) (get_as_required_string object ''type'' ''type'')) (\<lambda>event_type.
     if event_type = ''m.room.policy'' \<and> get_as_required_string object ''state_key'' ''state_key'' = Inr []
     then Inr ()
     else
       rbind (map_err (Err \<circ> VJson \<circ> JsonField) (get_as_required_object object ''signatures'' ''signatures''))
         (\<lambda>signature_map.
       rbind (map_err (Err \<circ> VJson \<circ> JsonSerde) (redacting_serialize X
           \<lparr>rs_rules = Some (redaction rules),
            custom_redacted_root_fields = FIELDS_TO_REMOVE_FOR_SIGNING\<rparr> object)) (\<lambda>canonical_json.
       verify_canonical_json_for_entity X (rp_via room_policy) (room_policy_signing_key room_policy)
         signature_map canonical_json)))"

end
