(* ===== verification/State_Events.thy ===== *)
theory State_Events
  imports Room_Power_Levels Signatures
begin

text \<open>
  The events of \<open>common-state-res/src/events\<close>: the trait \<open>Event\<close> as a record, and the typed views on
  the content of the event types that matter for authorization. The content is raw JSON text;
  parsing it is the work of \<open>serde_json\<close>, so that each struct an accessor deserializes is a
  function of the record \<open>ext\<close>, together with the other third-party code the accessors call:
  \<open>js_int\<close>, \<open>base64\<close> and \<open>ed25519_dalek\<close>.
\<close>

section \<open>Data\<close>

datatype membership_state =
  MBan | MInvite | MJoin | MKnock | MLeave | MCustom string

datatype join_rule_kind =
  JInvite | JKnock | JPrivate | JRestricted | JKnockRestricted | JPublic | JCustom string

record event =
  ev_event_id :: string
  ev_room_id :: "string option"
  ev_sender :: string
  ev_origin_server_ts :: nat
  ev_event_type :: string
  ev_content :: string
  ev_state_key :: "string option"
  ev_prev_events :: "string list"
  ev_auth_events :: "string list"
  ev_redacts :: "string option"
  ev_rejected :: bool

record third_party_invite =
  tpi_signed :: canonical_json_object

datatype int_map_key = EventTypeKey | StringKey | UserIdKey

text \<open>
  The third-party code. The first ten functions deserialize the raw content into the struct the
  accessor of that name declares; \<open>x_int_from_value\<close> and \<open>x_int_map_from_value\<close> are \<open>from_value\<close> at
  the types \<open>Int\<close> and \<open>BTreeMap<_, Int>\<close>; \<open>x_parse_int\<close> and \<open>x_parse_uint\<close> are the parsers of
  \<open>js_int\<close>. The record extends the one for JSON and signatures.
\<close>

record ext = codec +
  x_room_version :: "string \<Rightarrow> serde_error + room_version_id option"
  x_federate :: "string \<Rightarrow> serde_error + bool option"
  x_creator :: "string \<Rightarrow> serde_error + string"
  x_additional_creators :: "string \<Rightarrow> serde_error + string list"
  x_creator_field :: "string \<Rightarrow> serde_error + unit option"
  x_membership :: "string \<Rightarrow> serde_error + membership_state"
  x_join_authorised_via_users_server :: "string \<Rightarrow> serde_error + string option"
  x_third_party_invite :: "string \<Rightarrow> serde_error + third_party_invite option"
  x_join_rule :: "string \<Rightarrow> serde_error + join_rule_kind"
  x_public_keys :: "string \<Rightarrow> serde_error + (string option \<times> string list)"
  x_json_object :: "string \<Rightarrow> serde_error + json_object"
  x_int_from_value :: "json \<Rightarrow> serde_error + int"
  x_int_map_from_value :: "int_map_key \<Rightarrow> json \<Rightarrow> serde_error + int_map"
  x_parse_int :: "string \<Rightarrow> string + int"
  x_parse_uint :: "string \<Rightarrow> string + int"

section \<open>Integers in power levels\<close>

text \<open>\<open>str::trim\<close>: the UTF-8 encodings of the code points with the property \<open>White_Space\<close>.\<close>

definition white_space :: "string list" where
  "white_space =
     map (\<lambda>b. [char_of (b :: nat)]) [9, 10, 11, 12, 13, 32]
     @ map (\<lambda>b. [char_of (0xC2 :: nat), char_of (b :: nat)]) [0x85, 0xA0]
     @ [map char_of [0xE1, 0x9A, 0x80 :: nat], map char_of [0xE3, 0x80, 0x80 :: nat],
        map char_of [0xE2, 0x81, 0x9F :: nat]]
     @ map (\<lambda>b. map char_of [0xE2, 0x80, b :: nat])
         ([0x80, 0x81, 0x82, 0x83, 0x84, 0x85, 0x86, 0x87, 0x88, 0x89, 0x8A] @ [0xA8, 0xA9, 0xAF])"

definition strip_one :: "string list \<Rightarrow> string \<Rightarrow> string option" where
  "strip_one ws s =
     (case find (\<lambda>w. w \<noteq> [] \<and> take (length w) s = w) ws of
        None \<Rightarrow> None | Some w \<Rightarrow> Some (drop (length w) s))"

lemma strip_one_length: "strip_one ws s = Some t \<Longrightarrow> length t < length s"
  by (auto simp: strip_one_def find_Some_iff split: option.splits)
    (metis append_Nil2 diff_less length_greater_0_conv take_Nil)

function trim_start :: "string list \<Rightarrow> string \<Rightarrow> string" where
  "trim_start ws s = (case strip_one ws s of None \<Rightarrow> s | Some t \<Rightarrow> trim_start ws t)"
  by pat_completeness auto
termination
  by (relation "measure (\<lambda>(ws, s). length s)") (auto dest: strip_one_length)

declare trim_start.simps [simp del]

definition trim :: "string \<Rightarrow> string" where
  "trim s = rev (trim_start (map rev white_space) (rev (trim_start white_space s)))"

definition deserialize_v1_powerlevel :: "ext \<Rightarrow> json \<Rightarrow> serde_error + int" where
  "deserialize_v1_powerlevel X v =
     (case v of
        JsonPosInt n \<Rightarrow> map_err SerdeCustom (x_int_try_from X (int n))
      | JsonNegInt i \<Rightarrow> map_err SerdeCustom (x_int_try_from X i)
      | JsonString s \<Rightarrow>
          (let trimmed = trim s
           in case trimmed of
                [] \<Rightarrow> map_err SerdeCustom (x_parse_int X trimmed)
              | c # without \<Rightarrow>
                  if c = CHR ''+'' then map_err SerdeCustom (x_parse_uint X without)
                  else map_err SerdeCustom (x_parse_int X trimmed))
      | _ \<Rightarrow> Inl InvalidType)"

text \<open>The keys of the map are deserialized too: event types and strings always succeed.\<close>

definition deserialize_key :: "ext \<Rightarrow> int_map_key \<Rightarrow> string \<Rightarrow> serde_error + string" where
  "deserialize_key X t k =
     (case t of
        UserIdKey \<Rightarrow> if is_ok (user_id_validate (x_compat_len X) k) then Inr k
                     else Inl (SerdeCustom ''invalid user ID'')
      | _ \<Rightarrow> Inr k)"

fun deserialize_v1_entries :: "ext \<Rightarrow> int_map_key \<Rightarrow> json_object \<Rightarrow> int_map \<Rightarrow> serde_error + int_map" where
  "deserialize_v1_entries X t [] res = Inr res"
| "deserialize_v1_entries X t ((k, v) # entries) res =
     rbind (deserialize_key X t k) (\<lambda>k.
     rbind (deserialize_v1_powerlevel X v) (\<lambda>v.
     deserialize_v1_entries X t entries (hm_insert k v res)))"

definition btreemap_deserialize_v1_powerlevel_values ::
  "ext \<Rightarrow> int_map_key \<Rightarrow> json \<Rightarrow> serde_error + int_map" where
  "btreemap_deserialize_v1_powerlevel_values X t v =
     (case v of JsonObject entries \<Rightarrow> deserialize_v1_entries X t entries [] | _ \<Rightarrow> Inl InvalidType)"

section \<open>Errors of the authorization checks\<close>

datatype room_power_levels_int_field =
  UsersDefault | EventsDefault | StateDefault | FieldBan | FieldRedact | FieldKick | FieldInvite

text \<open>
  The errors are the messages the source formats: the constant part, and the identifier or the
  error it is completed with.
\<close>

datatype auth_error =
  Message string | MessageAbout string string | MessageSerde string serde_error | MessageJson string json_error
  | MessageId string id_error

section \<open>Views on the content\<close>

subsection \<open>\<open>m.room.create\<close>\<close>

definition create_room_version :: "ext \<Rightarrow> event \<Rightarrow> auth_error + room_version_id" where
  "create_room_version X e =
     map_ok (\<lambda>v. case v of None \<Rightarrow> V1 | Some v \<Rightarrow> v)
       (map_err (MessageSerde ''invalid `room_version` field in `m.room.create` event: '') (x_room_version X (ev_content e)))"

definition federate :: "ext \<Rightarrow> event \<Rightarrow> auth_error + bool" where
  "federate X e =
     map_ok (\<lambda>f. case f of None \<Rightarrow> True | Some b \<Rightarrow> b)
       (map_err (MessageSerde ''invalid `m.federate` field in `m.room.create` event: '') (x_federate X (ev_content e)))"

definition creator :: "ext \<Rightarrow> authorization_rules \<Rightarrow> event \<Rightarrow> auth_error + string" where
  "creator X rules e =
     (if use_room_create_sender rules then Inr (ev_sender e)
      else map_err (MessageSerde ''missing or invalid `creator` field in `m.room.create` event: '') (x_creator X (ev_content e)))"

definition additional_creators :: "ext \<Rightarrow> authorization_rules \<Rightarrow> event \<Rightarrow> auth_error + string list" where
  "additional_creators X rules e =
     (if additional_room_creators rules
      then map_ok collect_set (map_err (MessageSerde ''invalid `additional_creators` field in `m.room.create` event: '') (x_additional_creators X (ev_content e)))
      else Inr [])"

definition creators :: "ext \<Rightarrow> authorization_rules \<Rightarrow> event \<Rightarrow> auth_error + string list" where
  "creators X rules e =
     rbind (additional_creators X rules e) (\<lambda>cs.
     rbind (creator X rules e) (\<lambda>c. Inr (set_insert c cs)))"

definition has_creator :: "ext \<Rightarrow> event \<Rightarrow> auth_error + bool" where
  "has_creator X e =
     map_ok (\<lambda>c. c \<noteq> None) (map_err (MessageSerde ''invalid `creator` field in `m.room.create` event: '') (x_creator_field X (ev_content e)))"

subsection \<open>\<open>m.room.member\<close>\<close>

definition content_membership :: "ext \<Rightarrow> string \<Rightarrow> auth_error + membership_state" where
  "content_membership X content = map_err (MessageSerde ''missing or invalid `membership` field in `m.room.member` event: '') (x_membership X content)"

definition content_join_authorised_via_users_server :: "ext \<Rightarrow> string \<Rightarrow> auth_error + string option" where
  "content_join_authorised_via_users_server X content =
     map_err (MessageSerde ''invalid `join_authorised_via_users_server` field in `m.room.member` event: '') (x_join_authorised_via_users_server X content)"

definition content_third_party_invite :: "ext \<Rightarrow> string \<Rightarrow> auth_error + third_party_invite option" where
  "content_third_party_invite X content =
     map_err (MessageSerde ''invalid `third_party_invite` field in `m.room.member` event: '') (x_third_party_invite X content)"

definition membership :: "ext \<Rightarrow> event \<Rightarrow> auth_error + membership_state" where
  "membership X e = content_membership X (ev_content e)"

definition option_membership :: "ext \<Rightarrow> event option \<Rightarrow> auth_error + membership_state" where
  "option_membership X eo = (case eo of Some e \<Rightarrow> membership X e | None \<Rightarrow> Inr MLeave)"

definition tpi_token :: "third_party_invite \<Rightarrow> auth_error + string" where
  "tpi_token t =
     (case map_of (tpi_signed t) ''token'' of
        None \<Rightarrow> Inl (Message ''missing `token` field in `third_party_invite.signed` of `m.room.member` event'')
      | Some (CString s) \<Rightarrow> Inr s
      | Some _ \<Rightarrow> Inl (Message ''unexpected format of `token` field in `third_party_invite.signed`''))"

definition tpi_mxid :: "third_party_invite \<Rightarrow> auth_error + string" where
  "tpi_mxid t =
     (case map_of (tpi_signed t) ''mxid'' of
        None \<Rightarrow> Inl (Message ''missing `mxid` field in `third_party_invite.signed` of `m.room.member` event'')
      | Some (CString s) \<Rightarrow> Inr s
      | Some _ \<Rightarrow> Inl (Message ''unexpected format of `mxid` field in `third_party_invite.signed`''))"

definition tpi_signatures :: "third_party_invite \<Rightarrow> auth_error + canonical_json_object" where
  "tpi_signatures t =
     (case map_of (tpi_signed t) ''signatures'' of
        None \<Rightarrow> Inl (Message ''missing `signatures` field in `third_party_invite.signed` of `m.room.member` event'')
      | Some (CObject m) \<Rightarrow> Inr m
      | Some _ \<Rightarrow> Inl (Message ''unexpected format of `signatures` field in `third_party_invite.signed`''))"

definition tpi_signed_canonical_json :: "ext \<Rightarrow> third_party_invite \<Rightarrow> auth_error + string" where
  "tpi_signed_canonical_json X t =
     map_err (MessageJson ''invalid `third_party_invite.signed` field in `m.room.member` event: '') (to_canonical_json_string_for_signing X (tpi_signed t))"

subsection \<open>\<open>m.room.join_rules\<close> and \<open>m.room.third_party_invite\<close>\<close>

definition join_rule :: "ext \<Rightarrow> event \<Rightarrow> auth_error + join_rule_kind" where
  "join_rule X e = map_err (MessageSerde ''missing or invalid `join_rule` field in `m.room.join_rules` event: '') (x_join_rule X (ev_content e))"

definition public_keys :: "ext \<Rightarrow> event \<Rightarrow> auth_error + string list" where
  "public_keys X e =
     map_ok (\<lambda>(key, keys). sort (remdups ((case key of None \<Rightarrow> [] | Some k \<Rightarrow> [k]) @ keys)))
       (map_err (MessageSerde ''invalid `public_key` or `public_keys` field in `m.room.third_party_invite` event: '') (x_public_keys X (ev_content e)))"

definition decode_public_key :: "ext \<Rightarrow> string \<Rightarrow> unit + string" where
  "decode_public_key X k =
     (if CHR ''-'' \<in> set k \<or> CHR ''_'' \<in> set k then x_base64_url_safe X k else x_base64_standard X k)"

subsection \<open>\<open>m.room.power_levels\<close>\<close>

fun int_field_as_str :: "room_power_levels_int_field \<Rightarrow> string" where
  "int_field_as_str UsersDefault = ''users_default''"
| "int_field_as_str EventsDefault = ''events_default''"
| "int_field_as_str StateDefault = ''state_default''"
| "int_field_as_str FieldBan = ''ban''"
| "int_field_as_str FieldRedact = ''redact''"
| "int_field_as_str FieldKick = ''kick''"
| "int_field_as_str FieldInvite = ''invite''"

fun int_field_default_value :: "room_power_levels_int_field \<Rightarrow> int" where
  "int_field_default_value UsersDefault = 0"
| "int_field_default_value EventsDefault = 0"
| "int_field_default_value FieldInvite = 0"
| "int_field_default_value StateDefault = 50"
| "int_field_default_value FieldKick = 50"
| "int_field_default_value FieldBan = 50"
| "int_field_default_value FieldRedact = 50"

definition ALL_int_fields :: "room_power_levels_int_field list" where
  "ALL_int_fields =
     [UsersDefault, EventsDefault, StateDefault, FieldBan, FieldRedact, FieldKick, FieldInvite]"

definition DEFAULT_CREATOR_POWER_LEVEL :: int where
  "DEFAULT_CREATOR_POWER_LEVEL = 100"

definition deserialized_content :: "ext \<Rightarrow> event \<Rightarrow> auth_error + json_object" where
  "deserialized_content X e = map_err (MessageSerde ''malformed `m.room.power_levels` content: '') (x_json_object X (ev_content e))"

definition get_as_int ::
  "ext \<Rightarrow> authorization_rules \<Rightarrow> event \<Rightarrow> room_power_levels_int_field \<Rightarrow> auth_error + int option" where
  "get_as_int X rules e field =
     rbind (deserialized_content X e) (\<lambda>content.
       case map_of content (int_field_as_str field) of
         None \<Rightarrow> Inr None
       | Some v \<Rightarrow>
           map_ok Some (map_err (MessageSerde (''unexpected format of field '' @ int_field_as_str field))
             (if integer_power_levels rules then x_int_from_value X v
              else deserialize_v1_powerlevel X v)))"

definition get_as_int_or_default ::
  "ext \<Rightarrow> authorization_rules \<Rightarrow> event \<Rightarrow> room_power_levels_int_field \<Rightarrow> auth_error + int" where
  "get_as_int_or_default X rules e field =
     rbind (get_as_int X rules e field) (\<lambda>v.
       Inr (case v of None \<Rightarrow> int_field_default_value field | Some i \<Rightarrow> i))"

definition get_as_int_map ::
  "ext \<Rightarrow> authorization_rules \<Rightarrow> event \<Rightarrow> int_map_key \<Rightarrow> string \<Rightarrow> auth_error + int_map option" where
  "get_as_int_map X rules e t field =
     rbind (deserialized_content X e) (\<lambda>content.
       case map_of content field of
         None \<Rightarrow> Inr None
       | Some v \<Rightarrow>
           map_ok Some (map_err (MessageSerde (''unexpected format of field '' @ field))
             (if integer_power_levels rules then x_int_map_from_value X t v
              else btreemap_deserialize_v1_powerlevel_values X t v)))"

definition pl_events :: "ext \<Rightarrow> authorization_rules \<Rightarrow> event \<Rightarrow> auth_error + int_map option" where
  "pl_events X rules e = get_as_int_map X rules e EventTypeKey ''events''"

definition pl_notifications :: "ext \<Rightarrow> authorization_rules \<Rightarrow> event \<Rightarrow> auth_error + int_map option" where
  "pl_notifications X rules e = get_as_int_map X rules e StringKey ''notifications''"

definition pl_users :: "ext \<Rightarrow> authorization_rules \<Rightarrow> event \<Rightarrow> auth_error + int_map option" where
  "pl_users X rules e = get_as_int_map X rules e UserIdKey ''users''"

definition opt_get :: "int_map option \<Rightarrow> string \<Rightarrow> int option" where
  "opt_get m k = (case m of None \<Rightarrow> None | Some m \<Rightarrow> map_of m k)"

definition event_user_power_level :: "ext \<Rightarrow> authorization_rules \<Rightarrow> event \<Rightarrow> string \<Rightarrow> auth_error + int" where
  "event_user_power_level X rules e user_id =
     rbind (pl_users X rules e) (\<lambda>users.
       case opt_get users user_id of
         Some power_level \<Rightarrow> Inr power_level
       | None \<Rightarrow> get_as_int_or_default X rules e UsersDefault)"

definition default_event_field :: "string option \<Rightarrow> room_power_levels_int_field" where
  "default_event_field state_key = (if state_key \<noteq> None then StateDefault else EventsDefault)"

definition event_event_power_level ::
  "ext \<Rightarrow> authorization_rules \<Rightarrow> event \<Rightarrow> string \<Rightarrow> string option \<Rightarrow> auth_error + int" where
  "event_event_power_level X rules e event_type state_key =
     rbind (pl_events X rules e) (\<lambda>events.
       case opt_get events event_type of
         Some power_level \<Rightarrow> Inr power_level
       | None \<Rightarrow> get_as_int_or_default X rules e (default_event_field state_key))"

fun collect_int_fields :: "ext \<Rightarrow> authorization_rules \<Rightarrow> event \<Rightarrow> room_power_levels_int_field list
    \<Rightarrow> auth_error + (room_power_levels_int_field \<times> int) list" where
  "collect_int_fields X rules e [] = Inr []"
| "collect_int_fields X rules e (field # rest_fields) =
     rbind (get_as_int X rules e field) (\<lambda>v.
     rbind (collect_int_fields X rules e rest_fields) (\<lambda>rest.
       Inr (case v of None \<Rightarrow> rest | Some i \<Rightarrow> (field, i) # rest)))"

definition int_fields_map ::
  "ext \<Rightarrow> authorization_rules \<Rightarrow> event \<Rightarrow> auth_error + (room_power_levels_int_field \<times> int) list" where
  "int_fields_map X rules e = collect_int_fields X rules e ALL_int_fields"

text \<open>The extension trait for \<open>Option<RoomPowerLevelsEvent>\<close>.\<close>

definition user_power_level ::
  "ext \<Rightarrow> authorization_rules \<Rightarrow> event option \<Rightarrow> string \<Rightarrow> string list \<Rightarrow> auth_error + user_power_level" where
  "user_power_level X rules eo user_id room_creators =
     (if explicitly_privilege_room_creators rules \<and> user_id \<in> set room_creators then Inr Infinite
      else case eo of
             Some e \<Rightarrow> map_ok PowerLevelInt (event_user_power_level X rules e user_id)
           | None \<Rightarrow>
               Inr (PowerLevelInt
                 (if user_id \<in> set room_creators then DEFAULT_CREATOR_POWER_LEVEL
                  else int_field_default_value UsersDefault)))"

definition option_get_as_int_or_default ::
  "ext \<Rightarrow> authorization_rules \<Rightarrow> event option \<Rightarrow> room_power_levels_int_field \<Rightarrow> auth_error + int" where
  "option_get_as_int_or_default X rules eo field =
     (case eo of
        Some e \<Rightarrow> get_as_int_or_default X rules e field
      | None \<Rightarrow> Inr (int_field_default_value field))"

definition event_power_level ::
  "ext \<Rightarrow> authorization_rules \<Rightarrow> event option \<Rightarrow> string \<Rightarrow> string option \<Rightarrow> auth_error + int" where
  "event_power_level X rules eo event_type state_key =
     (case eo of
        Some e \<Rightarrow> event_event_power_level X rules e event_type state_key
      | None \<Rightarrow> Inr (int_field_default_value (default_event_field state_key)))"

section \<open>The caches of \<open>RoomPowerLevelsEvent\<close>\<close>

text \<open>
  The struct keeps what it deserialized: the content and the users in a \<open>OnceLock\<close>, the integer
  fields in a map behind a mutex. The cached operations below are the code; the ones above are
  what they compute. The caches are not keyed by the rules.
\<close>

record power_levels_cache =
  pc_deserialized_content :: "json_object option"
  pc_int_fields :: "(room_power_levels_int_field \<times> int option) list"
  pc_users :: "int_map option option"

definition empty_cache :: power_levels_cache where
  "empty_cache = \<lparr>pc_deserialized_content = None, pc_int_fields = [], pc_users = None\<rparr>"

definition cached_deserialized_content ::
  "ext \<Rightarrow> event \<Rightarrow> power_levels_cache \<Rightarrow> (auth_error + json_object) \<times> power_levels_cache" where
  "cached_deserialized_content X e c =
     (case pc_deserialized_content c of
        Some content \<Rightarrow> (Inr content, c)
      | None \<Rightarrow>
          (case deserialized_content X e of
             Inl err \<Rightarrow> (Inl err, c)
           | Inr content \<Rightarrow> (Inr content, c\<lparr>pc_deserialized_content := Some content\<rparr>)))"

definition cached_get_as_int ::
  "ext \<Rightarrow> authorization_rules \<Rightarrow> event \<Rightarrow> room_power_levels_int_field \<Rightarrow> power_levels_cache
    \<Rightarrow> (auth_error + int option) \<times> power_levels_cache" where
  "cached_get_as_int X rules e field c =
     (case map_of (pc_int_fields c) field of
        Some power_level \<Rightarrow> (Inr power_level, c)
      | None \<Rightarrow>
          (case cached_deserialized_content X e c of
             (Inl err, c) \<Rightarrow> (Inl err, c)
           | (Inr content, c) \<Rightarrow>
               (case map_of content (int_field_as_str field) of
                  None \<Rightarrow> (Inr None, c\<lparr>pc_int_fields := hm_insert field None (pc_int_fields c)\<rparr>)
                | Some v \<Rightarrow>
                    (case map_err (MessageSerde (''unexpected format of field '' @ int_field_as_str field))
                            (if integer_power_levels rules then x_int_from_value X v
                             else deserialize_v1_powerlevel X v) of
                       Inl err \<Rightarrow> (Inl err, c)
                     | Inr i \<Rightarrow>
                         (Inr (Some i), c\<lparr>pc_int_fields := hm_insert field (Some i) (pc_int_fields c)\<rparr>)))))"

definition cached_users ::
  "ext \<Rightarrow> authorization_rules \<Rightarrow> event \<Rightarrow> power_levels_cache
    \<Rightarrow> (auth_error + int_map option) \<times> power_levels_cache" where
  "cached_users X rules e c =
     (case pc_users c of
        Some users \<Rightarrow> (Inr users, c)
      | None \<Rightarrow>
          (case cached_deserialized_content X e c of
             (Inl err, c) \<Rightarrow> (Inl err, c)
           | (Inr content, c) \<Rightarrow>
               (case map_of content ''users'' of
                  None \<Rightarrow> (Inr None, c\<lparr>pc_users := Some None\<rparr>)
                | Some v \<Rightarrow>
                    (case map_err (MessageSerde (''unexpected format of field '' @ ''users''))
                            (if integer_power_levels rules then x_int_map_from_value X UserIdKey v
                             else btreemap_deserialize_v1_powerlevel_values X UserIdKey v) of
                       Inl err \<Rightarrow> (Inl err, c)
                     | Inr users \<Rightarrow> (Inr (Some users), c\<lparr>pc_users := Some (Some users)\<rparr>)))))"

text \<open>A cache is sound when everything in it is what the uncached operation returns.\<close>

definition cache_ok :: "ext \<Rightarrow> authorization_rules \<Rightarrow> event \<Rightarrow> power_levels_cache \<Rightarrow> bool" where
  "cache_ok X rules e c \<longleftrightarrow>
     (\<forall>content. pc_deserialized_content c = Some content \<longrightarrow> deserialized_content X e = Inr content)
     \<and> (\<forall>field v. map_of (pc_int_fields c) field = Some v \<longrightarrow> get_as_int X rules e field = Inr v)
     \<and> (\<forall>u. pc_users c = Some u \<longrightarrow> pl_users X rules e = Inr u)"

lemma cache_ok_empty: "cache_ok X rules e empty_cache"
  by (simp add: cache_ok_def empty_cache_def)

lemma cached_deserialized_content_ok:
  assumes "cache_ok X rules e c" "cached_deserialized_content X e c = (r, c')"
  shows "r = deserialized_content X e" "cache_ok X rules e c'"
  using assms
  by (auto simp: cached_deserialized_content_def cache_ok_def split: option.splits sum.splits)

lemma cache_ok_insert_int:
  "cache_ok X rules e c \<Longrightarrow> get_as_int X rules e field = Inr v \<Longrightarrow>
   cache_ok X rules e (c\<lparr>pc_int_fields := hm_insert field v (pc_int_fields c)\<rparr>)"
  by (auto simp: cache_ok_def)

lemma cache_ok_set_users:
  "cache_ok X rules e c \<Longrightarrow> pl_users X rules e = Inr u \<Longrightarrow> cache_ok X rules e (c\<lparr>pc_users := Some u\<rparr>)"
  by (auto simp: cache_ok_def)

lemma cached_get_as_int_ok:
  assumes "cache_ok X rules e c" "cached_get_as_int X rules e field c = (r, c')"
  shows "r = get_as_int X rules e field \<and> cache_ok X rules e c'"
proof (cases "map_of (pc_int_fields c) field")
  case (Some v)
  with assms show ?thesis by (auto simp: cached_get_as_int_def cache_ok_def)
next
  case None
  obtain r1 c1 where d: "cached_deserialized_content X e c = (r1, c1)"
    by (cases "cached_deserialized_content X e c")
  note ok = cached_deserialized_content_ok [OF assms(1) d]
  show ?thesis
  proof (cases r1)
    case (Inl err)
    then have "deserialized_content X e = Inl err" using ok(1) by simp
    with Inl None d ok(2) assms(2) show ?thesis by (auto simp: cached_get_as_int_def get_as_int_def)
  next
    case (Inr content)
    then have "deserialized_content X e = Inr content" using ok(1) by simp
    with Inr None d ok(2) assms(2) show ?thesis
      by (auto simp: cached_get_as_int_def get_as_int_def split: option.splits sum.splits
          intro!: cache_ok_insert_int)
  qed
qed

lemma cached_users_ok:
  assumes "cache_ok X rules e c" "cached_users X rules e c = (r, c')"
  shows "r = pl_users X rules e \<and> cache_ok X rules e c'"
proof (cases "pc_users c")
  case (Some u)
  with assms show ?thesis by (auto simp: cached_users_def cache_ok_def)
next
  case None
  obtain r1 c1 where d: "cached_deserialized_content X e c = (r1, c1)"
    by (cases "cached_deserialized_content X e c")
  note ok = cached_deserialized_content_ok [OF assms(1) d]
  show ?thesis
  proof (cases r1)
    case (Inl err)
    then have "deserialized_content X e = Inl err" using ok(1) by simp
    with Inl None d ok(2) assms(2) show ?thesis
      by (auto simp: cached_users_def pl_users_def get_as_int_map_def)
  next
    case (Inr content)
    then have "deserialized_content X e = Inr content" using ok(1) by simp
    with Inr None d ok(2) assms(2) show ?thesis
      by (auto simp: cached_users_def pl_users_def get_as_int_map_def
          split: option.splits sum.splits intro!: cache_ok_set_users)
  qed
qed

datatype cache_op = ReadInt room_power_levels_int_field | ReadUsers

datatype cache_result = GotInt "auth_error + int option" | GotUsers "auth_error + int_map option"

fun run_cached :: "ext \<Rightarrow> authorization_rules \<Rightarrow> event \<Rightarrow> power_levels_cache \<Rightarrow> cache_op list \<Rightarrow> cache_result list" where
  "run_cached X rules e c [] = []"
| "run_cached X rules e c (ReadInt field # ops) =
     (case cached_get_as_int X rules e field c of (r, c') \<Rightarrow> GotInt r # run_cached X rules e c' ops)"
| "run_cached X rules e c (ReadUsers # ops) =
     (case cached_users X rules e c of (r, c') \<Rightarrow> GotUsers r # run_cached X rules e c' ops)"

fun read_uncached :: "ext \<Rightarrow> authorization_rules \<Rightarrow> event \<Rightarrow> cache_op \<Rightarrow> cache_result" where
  "read_uncached X rules e (ReadInt field) = GotInt (get_as_int X rules e field)"
| "read_uncached X rules e ReadUsers = GotUsers (pl_users X rules e)"

lemma run_cached_eq: "cache_ok X rules e c \<Longrightarrow> run_cached X rules e c ops = map (read_uncached X rules e) ops"
proof (induction X rules e c ops rule: run_cached.induct)
  case (2 X rules e c field ops)
  obtain r c' where "cached_get_as_int X rules e field c = (r, c')"
    by (cases "cached_get_as_int X rules e field c")
  with 2 cached_get_as_int_ok [OF 2(2) this] show ?case by simp
next
  case (3 X rules e c ops)
  obtain r c' where "cached_users X rules e c = (r, c')" by (cases "cached_users X rules e c")
  with 3 cached_users_ok [OF 3(2) this] show ?case by simp
qed simp

section \<open>Properties\<close>

text \<open>
  (C38) The caches of a power levels event are transparent: under fixed rules, any sequence of reads of
  integer fields and of the users, errors included, returns what deserializing the content
  afresh for each read returns.
\<close>

theorem power_levels_cache_transparent:
  "run_cached X rules e empty_cache ops = map (read_uncached X rules e) ops"
  by (rule run_cached_eq [OF cache_ok_empty])

end
