(* ===== verification/Event_Auth.thy ===== *)
theory Event_Auth
  imports State_Events
begin

text \<open>
  The authorization rules: \<open>common-state-res/src/event_auth.rs\<close> and \<open>event_auth/room_member.rs\<close>. A
  check returns \<^term>\<open>Inr ()\<close> when the event is allowed; \<^const>\<open>Err\<close> is a rejection and \<^const>\<open>Panic\<close>
  a panic of the code. The room state is a function from event type and state key to events.
\<close>

type_synonym fetch_state = "string \<Rightarrow> string \<Rightarrow> event option"

type_synonym fetch_event = "string \<Rightarrow> event option"

type_synonym 'a auth_result = "auth_error fail + 'a"

definition lift :: "auth_error + 'a \<Rightarrow> 'a auth_result" where
  "lift m = map_err Err m"

definition reject :: "auth_error \<Rightarrow> 'a auth_result" where
  "reject e = Inl (Err e)"

section \<open>Reading the room state\<close>

definition fetch_room_create_event :: "fetch_state \<Rightarrow> auth_error + event" where
  "fetch_room_create_event fetch_state = ok_or (fetch_state ''m.room.create'' []) (Message ''no `m.room.create` event in current state'')"

definition fetch_user_membership :: "ext \<Rightarrow> fetch_state \<Rightarrow> string \<Rightarrow> auth_error + membership_state" where
  "fetch_user_membership X fetch_state user_id = option_membership X (fetch_state ''m.room.member'' user_id)"

definition fetch_room_power_levels_event :: "fetch_state \<Rightarrow> event option" where
  "fetch_room_power_levels_event fetch_state = fetch_state ''m.room.power_levels'' []"

definition fetch_join_rule :: "ext \<Rightarrow> fetch_state \<Rightarrow> auth_error + join_rule_kind" where
  "fetch_join_rule X fetch_state =
     rbind (ok_or (fetch_state ''m.room.join_rules'' []) (Message ''no `m.room.join_rules` event in current state'')) (join_rule X)"

definition fetch_room_third_party_invite_event :: "fetch_state \<Rightarrow> string \<Rightarrow> event option" where
  "fetch_room_third_party_invite_event fetch_state token = fetch_state ''m.room.third_party_invite'' token"

section \<open>Auth events selection\<close>

definition auth_types_for_event ::
  "ext \<Rightarrow> authorization_rules \<Rightarrow> string \<Rightarrow> string \<Rightarrow> string option \<Rightarrow> string
    \<Rightarrow> auth_error + (string \<times> string) list" where
  "auth_types_for_event X rules event_type sender state_key content =
     (if event_type = ''m.room.create'' then Inr []
      else
        let auth_types = [(''m.room.power_levels'', []), (''m.room.member'', sender)];
            auth_types = (if \<not> room_create_event_id_as_room_id rules
                          then auth_types @ [(''m.room.create'', [])] else auth_types)
        in if event_type = ''m.room.member'' then
             (case state_key of
                None \<Rightarrow> Inl (Message ''missing `state_key` field for `m.room.member` event'')
              | Some state_key \<Rightarrow>
                  let auth_types = set_insert (''m.room.member'', state_key) auth_types
                  in rbind (content_membership X content) (\<lambda>membership.
                     let auth_types = (if membership \<in> {MJoin, MInvite, MKnock}
                                       then set_insert (''m.room.join_rules'', []) auth_types
                                       else auth_types)
                     in rbind
                          (if membership = MInvite then
                             rbind (content_third_party_invite X content) (\<lambda>tpi.
                               case tpi of
                                 None \<Rightarrow> Inr auth_types
                               | Some tpi \<Rightarrow>
                                   rbind (tpi_token tpi) (\<lambda>token.
                                     Inr (set_insert (''m.room.third_party_invite'', token) auth_types)))
                           else Inr auth_types)
                          (\<lambda>auth_types.
                             if membership = MJoin \<and> restricted_join_rule rules then
                               rbind (content_join_authorised_via_users_server X content) (\<lambda>user_id.
                                 case user_id of
                                   None \<Rightarrow> Inr auth_types
                                 | Some user_id \<Rightarrow>
                                     Inr (set_insert (''m.room.member'', user_id) auth_types))
                             else Inr auth_types)))
           else Inr auth_types)"

section \<open>State-independent rules\<close>

definition check_room_create :: "ext \<Rightarrow> authorization_rules \<Rightarrow> event \<Rightarrow> auth_error + unit" where
  "check_room_create X rules e =
     (if ev_prev_events e \<noteq> [] then Inl (Message ''`m.room.create` event cannot have previous events'')
      else rbind
        (if room_create_event_id_as_room_id rules then
           ensure (ev_room_id e = None) (Message ''`m.room.create` event cannot have a `room_id` field'')
         else
           rbind (ok_or (ev_room_id e) (Message ''missing `room_id` field in `m.room.create` event'')) (\<lambda>room_id.
           rbind (ok_or (room_id_server_name room_id) (Message ''invalid `room_id` field in `m.room.create` event: could not parse server name'')) (\<lambda>room_id_server_name.
           ensure (room_id_server_name = user_id_server_name (ev_sender e)) (Message ''invalid `room_id` field in `m.room.create` event: server name does not match''))))
        (\<lambda>_. rbind
           (if \<not> use_room_create_sender rules
            then rbind (has_creator X e) (\<lambda>b. ensure b (Message ''missing `creator` field in `m.room.create` event'')) else Inr ())
           (\<lambda>_. rbind (additional_creators X rules e) (\<lambda>_. Inr ()))))"

text \<open>\<open>RoomIdExt::room_create_event_id\<close>: the sigil is replaced; the room ID was validated.\<close>

definition room_create_event_id :: "ext \<Rightarrow> string \<Rightarrow> id_error + string" where
  "room_create_event_id X room_id =
     (let id = CHR ''$'' # tl room_id
      in rbind (event_id_validate (x_compat_len X) id) (\<lambda>_. Inr id))"

fun check_auth_events :: "fetch_event \<Rightarrow> (string \<times> string) list \<Rightarrow> string \<Rightarrow> string list
    \<Rightarrow> (string \<times> string) list \<Rightarrow> auth_error + (string \<times> string) list" where
  "check_auth_events fetch_event expected room_id [] seen = Inr seen"
| "check_auth_events fetch_event expected room_id (event_id # auth_events) seen =
     (case fetch_event event_id of
        None \<Rightarrow> Inl (MessageAbout ''failed to find auth event '' event_id)
      | Some auth_event \<Rightarrow>
          if ev_room_id auth_event \<noteq> Some room_id then Inl (MessageAbout ''auth event not in the same room: '' event_id)
          else case ev_state_key auth_event of
                 None \<Rightarrow> Inl (MessageAbout ''auth event has no `state_key`: '' event_id)
               | Some state_key \<Rightarrow>
                   let key = (ev_event_type auth_event, state_key)
                   in if key \<in> set seen then Inl (MessageAbout ''duplicate auth event '' event_id)
                      else if key \<notin> set expected then Inl (MessageAbout ''unexpected auth event '' event_id)
                      else if ev_rejected auth_event then Inl (MessageAbout ''rejected auth event '' event_id)
                      else check_auth_events fetch_event expected room_id auth_events
                             (set_insert key seen))"

definition check_state_independent_auth_rules ::
  "ext \<Rightarrow> authorization_rules \<Rightarrow> event \<Rightarrow> fetch_event \<Rightarrow> auth_error + unit" where
  "check_state_independent_auth_rules X rules incoming fetch_event =
     (if ev_event_type incoming = ''m.room.create'' then check_room_create X rules incoming
      else
        rbind (auth_types_for_event X rules (ev_event_type incoming) (ev_sender incoming)
                 (ev_state_key incoming) (ev_content incoming)) (\<lambda>expected_auth_types.
        rbind (ok_or (ev_room_id incoming) (Message ''missing `room_id` field for event'')) (\<lambda>room_id.
        rbind (check_auth_events fetch_event expected_auth_types room_id (ev_auth_events incoming) [])
          (\<lambda>seen_auth_types.
        rbind (ensure (room_create_event_id_as_room_id rules
                       \<or> list_ex (\<lambda>(event_type, _). event_type = ''m.room.create'') seen_auth_types)
                 (Message ''no `m.room.create` event in auth events'')) (\<lambda>_.
        if room_create_event_id_as_room_id rules then
          rbind (map_err (MessageId ''could not construct `m.room.create` event ID from room ID: '') (room_create_event_id X room_id)) (\<lambda>create_id.
          rbind (ok_or (fetch_event create_id) (MessageAbout ''failed to find `m.room.create` event '' create_id)) (\<lambda>create_event.
          ensure (\<not> ev_rejected create_event) (MessageAbout ''rejected `m.room.create` event '' create_id)))
        else Inr ())))))"

section \<open>Power levels\<close>

fun check_power_level_keys :: "int_map option \<Rightarrow> int_map option \<Rightarrow> user_power_level \<Rightarrow> (string \<Rightarrow> int \<Rightarrow> bool)
    \<Rightarrow> (string \<Rightarrow> auth_error) \<Rightarrow> string list \<Rightarrow> auth_error + unit" where
  "check_power_level_keys current new sender_power_level reject_change error_fn [] = Inr ()"
| "check_power_level_keys current new sender_power_level reject_change error_fn (key # keys) =
     (let current_power_level = opt_get current key; new_power_level = opt_get new key
      in if current_power_level = new_power_level
         then check_power_level_keys current new sender_power_level reject_change error_fn keys
         else
           let current_power_level_change_rejected =
                 (case current_power_level of None \<Rightarrow> False | Some pl \<Rightarrow> reject_change key pl);
               new_power_level_too_big =
                 (case new_power_level of
                    None \<Rightarrow> False
                  | Some pl \<Rightarrow> int_cmp_user_power_level pl sender_power_level = Greater)
           in if current_power_level_change_rejected \<or> new_power_level_too_big
              then Inl (error_fn key)
              else check_power_level_keys current new sender_power_level reject_change error_fn keys)"

definition opt_keys :: "int_map option \<Rightarrow> string list" where
  "opt_keys m = (case m of None \<Rightarrow> [] | Some m \<Rightarrow> hm_keys m)"

definition check_power_level_maps :: "int_map option \<Rightarrow> int_map option \<Rightarrow> user_power_level
    \<Rightarrow> (string \<Rightarrow> int \<Rightarrow> bool) \<Rightarrow> (string \<Rightarrow> auth_error) \<Rightarrow> auth_error + unit" where
  "check_power_level_maps current new sender_power_level reject_change error_fn =
     check_power_level_keys current new sender_power_level reject_change error_fn
       (sort (remdups (opt_keys current @ opt_keys new)))"

fun check_int_fields :: "ext \<Rightarrow> authorization_rules \<Rightarrow> event \<Rightarrow> (room_power_levels_int_field \<times> int) list
    \<Rightarrow> user_power_level \<Rightarrow> room_power_levels_int_field list \<Rightarrow> auth_error + unit" where
  "check_int_fields X rules current new_int_fields sender_power_level [] = Inr ()"
| "check_int_fields X rules current new_int_fields sender_power_level (field # rest_fields) =
     rbind (get_as_int X rules current field) (\<lambda>current_power_level.
       let new_power_level = map_of new_int_fields field
       in if current_power_level = new_power_level
          then check_int_fields X rules current new_int_fields sender_power_level rest_fields
          else
            let value_or_default = (\<lambda>v. case v of None \<Rightarrow> int_field_default_value field | Some i \<Rightarrow> i);
                too_big = (\<lambda>v. int_cmp_user_power_level (value_or_default v) sender_power_level = Greater)
            in if too_big current_power_level \<or> too_big new_power_level
               then Inl (MessageAbout ''sender does not have enough power to change the power level of ''
                           (int_field_as_str field))
               else check_int_fields X rules current new_int_fields sender_power_level rest_fields)"

definition check_room_power_levels :: "ext \<Rightarrow> authorization_rules \<Rightarrow> event \<Rightarrow> event option
    \<Rightarrow> user_power_level \<Rightarrow> string list \<Rightarrow> auth_error + unit" where
  "check_room_power_levels X rules e current sender_power_level room_creators =
     rbind (int_fields_map X rules e) (\<lambda>new_int_fields.
     rbind (pl_events X rules e) (\<lambda>new_events.
     rbind (pl_notifications X rules e) (\<lambda>new_notifications.
     rbind (pl_users X rules e) (\<lambda>new_users.
     rbind (ensure (\<not> (explicitly_privilege_room_creators rules
                        \<and> (case new_users of
                             None \<Rightarrow> False
                           | Some new_users \<Rightarrow> list_ex (hm_contains new_users) room_creators)))
              (Message ''creator user IDs are not allowed in the `users` field'')) (\<lambda>_.
       case current of
         None \<Rightarrow> Inr ()
       | Some current \<Rightarrow>
           rbind (check_int_fields X rules current new_int_fields sender_power_level ALL_int_fields) (\<lambda>_.
           rbind (pl_events X rules current) (\<lambda>current_events.
           rbind (check_power_level_maps current_events new_events sender_power_level
                    (\<lambda>_ current_power_level.
                       int_cmp_user_power_level current_power_level sender_power_level = Greater)
                    (MessageAbout ''sender does not have enough power to change the event type power level ''))
             (\<lambda>_.
           rbind
             (if limit_notifications_power_levels rules then
                rbind (pl_notifications X rules current) (\<lambda>current_notifications.
                  check_power_level_maps current_notifications new_notifications sender_power_level
                    (\<lambda>_ current_power_level.
                       int_cmp_user_power_level current_power_level sender_power_level = Greater)
                    (MessageAbout ''sender does not have enough power to change the notification power level ''))
              else Inr ())
             (\<lambda>_.
           rbind (pl_users X rules current) (\<lambda>current_users.
             check_power_level_maps current_users new_users sender_power_level
               (\<lambda>user_id current_power_level.
                  user_id \<noteq> ev_sender e
                  \<and> int_cmp_user_power_level current_power_level sender_power_level \<noteq> Less)
               (MessageAbout ''sender does not have enough power to change the power level of user '')))))))))))"

definition check_room_redaction ::
  "ext \<Rightarrow> authorization_rules \<Rightarrow> event \<Rightarrow> event option \<Rightarrow> user_power_level \<Rightarrow> auth_error + unit" where
  "check_room_redaction X rules e current sender_level =
     rbind (option_get_as_int_or_default X rules current FieldRedact) (\<lambda>redact_level.
       if upl_ge sender_level redact_level then Inr ()
       else if event_id_server_name (ev_event_id e) = Option.bind (ev_redacts e) event_id_server_name
       then Inr ()
       else Inl (Message ''`m.room.redaction` event did not pass any of the allow rules''))"

section \<open>Membership\<close>

definition check_room_member_join ::
  "ext \<Rightarrow> authorization_rules \<Rightarrow> event \<Rightarrow> string \<Rightarrow> event \<Rightarrow> fetch_state \<Rightarrow> auth_error + unit" where
  "check_room_member_join X rules e target_user room_create_event fetch_state =
     rbind (creator X rules room_create_event) (\<lambda>room_creator.
     rbind (creators X rules room_create_event) (\<lambda>room_creators.
       let prev_event_is_only_room_create_event = (ev_prev_events e = [ev_event_id room_create_event])
       in if prev_event_is_only_room_create_event \<and> target_user = room_creator then Inr ()
          else if ev_sender e \<noteq> target_user
          then Inl (Message ''sender of join event must match target user'')
          else
            rbind (fetch_user_membership X fetch_state target_user) (\<lambda>current_membership.
            if current_membership = MBan then Inl (Message ''banned user cannot join room'')
            else
              rbind (fetch_join_rule X fetch_state) (\<lambda>rule.
              if (rule = JInvite \<or> knocking rules \<and> rule = JKnock)
                 \<and> current_membership \<in> {MInvite, MJoin}
              then Inr ()
              else if restricted_join_rule rules \<and> rule = JRestricted
                      \<or> knock_restricted_join_rule rules \<and> rule = JKnockRestricted
              then
                if current_membership \<in> {MJoin, MInvite} then Inr ()
                else
                  rbind (content_join_authorised_via_users_server X (ev_content e)) (\<lambda>authorized.
                  case authorized of
                    None \<Rightarrow> Inl (Message ''cannot join restricted room without `join_authorised_via_users_server` field if not invited'')
                  | Some authorized_via_user \<Rightarrow>
                      rbind (fetch_user_membership X fetch_state authorized_via_user) (\<lambda>authorized_membership.
                      if authorized_membership \<noteq> MJoin
                      then Inl (Message ''`join_authorised_via_users_server` is not joined'')
                      else
                        let room_power_levels_event = fetch_room_power_levels_event fetch_state
                        in rbind (user_power_level X rules room_power_levels_event authorized_via_user room_creators)
                             (\<lambda>authorized_power_level.
                           rbind (option_get_as_int_or_default X rules room_power_levels_event FieldInvite)
                             (\<lambda>invite_power_level.
                           if upl_ge authorized_power_level invite_power_level then Inr ()
                           else Inl (Message ''`join_authorised_via_users_server` does not have enough power'')))))
              else if rule = JPublic then Inr ()
              else Inl (Message ''cannot join a room that is not `public`'')))))"

text \<open>The signatures of a third-party invite: the first one a public key verifies allows it.\<close>

definition any_key_verifies :: "ext \<Rightarrow> string list \<Rightarrow> string \<Rightarrow> string \<Rightarrow> string \<Rightarrow> bool" where
  "any_key_verifies X keys algorithm signature canonical_json =
     list_ex (\<lambda>encoded.
       case decode_public_key X encoded of
         Inl _ \<Rightarrow> False
       | Inr public_key \<Rightarrow>
           is_ok (verify_canonical_json_bytes X algorithm public_key signature canonical_json)) keys"

fun check_entity_signatures :: "ext \<Rightarrow> string list \<Rightarrow> string \<Rightarrow> canonical_json_object \<Rightarrow> bool auth_result" where
  "check_entity_signatures X keys canonical_json [] = Inr False"
| "check_entity_signatures X keys canonical_json ((key_id, signature_value) # entity_signatures) =
     (case key_id_validate (\<lambda>_. Inr ()) key_id of
        Inl Panic \<Rightarrow> Inl Panic
      | Inl (Err _) \<Rightarrow> check_entity_signatures X keys canonical_json entity_signatures
      | Inr _ \<Rightarrow>
          rbind (key_id_algorithm key_id) (\<lambda>algorithm.
          case signature_value of
            CString signature_str \<Rightarrow>
              (case x_base64_standard X signature_str of
                 Inl _ \<Rightarrow> check_entity_signatures X keys canonical_json entity_signatures
               | Inr signature \<Rightarrow>
                   if any_key_verifies X keys algorithm signature canonical_json then Inr True
                   else check_entity_signatures X keys canonical_json entity_signatures)
          | _ \<Rightarrow> check_entity_signatures X keys canonical_json entity_signatures))"

fun check_signatures :: "ext \<Rightarrow> string list \<Rightarrow> string \<Rightarrow> canonical_json list \<Rightarrow> unit auth_result" where
  "check_signatures X keys canonical_json [] =
     reject (Message ''no signature on third-party invite matches a public key in `m.room.third_party_invite` event'')"
| "check_signatures X keys canonical_json (entity_signatures_value # values) =
     (case entity_signatures_value of
        CObject entity_signatures \<Rightarrow>
          rbind (check_entity_signatures X keys canonical_json entity_signatures) (\<lambda>found.
            if found then Inr () else check_signatures X keys canonical_json values)
      | _ \<Rightarrow> reject (Message ''unexpected format of `signatures` field in `third_party_invite.signed`''))"

definition check_third_party_invite ::
  "ext \<Rightarrow> event \<Rightarrow> third_party_invite \<Rightarrow> string \<Rightarrow> fetch_state \<Rightarrow> unit auth_result" where
  "check_third_party_invite X e tpi target_user fetch_state =
     rbind (lift (fetch_user_membership X fetch_state target_user)) (\<lambda>current_target_user_membership.
     if current_target_user_membership = MBan
     then reject (Message ''cannot invite user that is banned'')
     else
       rbind (lift (tpi_token tpi)) (\<lambda>token.
       rbind (lift (tpi_mxid tpi)) (\<lambda>mxid.
       if target_user \<noteq> mxid
       then reject (Message ''third-party invite mxid does not match target user'')
       else
         (case fetch_room_third_party_invite_event fetch_state token of
            None \<Rightarrow> reject (Message ''no `m.room.third_party_invite` in room state matches the token'')
          | Some invite_event \<Rightarrow>
              if ev_sender e \<noteq> ev_sender invite_event
              then reject (Message ''sender of `m.room.third_party_invite` does not match sender of `m.room.member`'')
              else
                rbind (lift (public_keys X invite_event)) (\<lambda>keys.
                rbind (lift (tpi_signatures tpi)) (\<lambda>sigs.
                rbind (lift (tpi_signed_canonical_json X tpi)) (\<lambda>canonical_json.
                check_signatures X keys canonical_json (map snd sigs))))))))"

definition check_room_member_invite ::
  "ext \<Rightarrow> authorization_rules \<Rightarrow> event \<Rightarrow> string \<Rightarrow> event \<Rightarrow> fetch_state \<Rightarrow> unit auth_result" where
  "check_room_member_invite X rules e target_user room_create_event fetch_state =
     rbind (lift (content_third_party_invite X (ev_content e))) (\<lambda>tpi.
     case tpi of
       Some tpi \<Rightarrow> check_third_party_invite X e tpi target_user fetch_state
     | None \<Rightarrow> lift (
         rbind (fetch_user_membership X fetch_state (ev_sender e)) (\<lambda>sender_membership.
         if sender_membership \<noteq> MJoin
         then Inl (Message ''cannot invite user if sender is not joined'')
         else
           rbind (fetch_user_membership X fetch_state target_user) (\<lambda>current_target_user_membership.
           if current_target_user_membership \<in> {MJoin, MBan}
           then Inl (Message ''cannot invite user that is joined or banned'')
           else
             rbind (creators X rules room_create_event) (\<lambda>room_creators.
             let room_power_levels_event = fetch_room_power_levels_event fetch_state
             in rbind (user_power_level X rules room_power_levels_event (ev_sender e) room_creators)
                  (\<lambda>sender_power_level.
                rbind (option_get_as_int_or_default X rules room_power_levels_event FieldInvite)
                  (\<lambda>invite_power_level.
                if upl_ge sender_power_level invite_power_level then Inr ()
                else Inl (Message ''sender does not have enough power to invite'')))))))
     )"

definition check_room_member_leave ::
  "ext \<Rightarrow> authorization_rules \<Rightarrow> event \<Rightarrow> string \<Rightarrow> event \<Rightarrow> fetch_state \<Rightarrow> auth_error + unit" where
  "check_room_member_leave X rules e target_user room_create_event fetch_state =
     rbind (fetch_user_membership X fetch_state (ev_sender e)) (\<lambda>sender_membership.
     if ev_sender e = target_user then
       (if sender_membership \<in> {MJoin, MInvite} \<or> knocking rules \<and> sender_membership = MKnock
        then Inr ()
        else Inl (Message ''cannot leave if not joined, invited or knocked''))
     else if sender_membership \<noteq> MJoin
     then Inl (Message ''cannot kick if sender is not joined'')
     else
       rbind (creators X rules room_create_event) (\<lambda>room_creators.
       let room_power_levels_event = fetch_room_power_levels_event fetch_state
       in rbind (fetch_user_membership X fetch_state target_user) (\<lambda>current_target_user_membership.
          rbind (user_power_level X rules room_power_levels_event (ev_sender e) room_creators)
            (\<lambda>sender_power_level.
          rbind (option_get_as_int_or_default X rules room_power_levels_event FieldBan)
            (\<lambda>ban_power_level.
          if current_target_user_membership = MBan \<and> \<not> upl_ge sender_power_level ban_power_level
          then Inl (Message ''sender does not have enough power to unban'')
          else
            rbind (option_get_as_int_or_default X rules room_power_levels_event FieldKick)
              (\<lambda>kick_power_level.
            rbind (user_power_level X rules room_power_levels_event target_user room_creators)
              (\<lambda>target_user_power_level.
            if upl_ge sender_power_level kick_power_level \<and> target_user_power_level < sender_power_level
            then Inr ()
            else Inl (Message ''sender does not have enough power to kick target user''))))))))"

definition check_room_member_ban ::
  "ext \<Rightarrow> authorization_rules \<Rightarrow> event \<Rightarrow> string \<Rightarrow> event \<Rightarrow> fetch_state \<Rightarrow> auth_error + unit" where
  "check_room_member_ban X rules e target_user room_create_event fetch_state =
     rbind (fetch_user_membership X fetch_state (ev_sender e)) (\<lambda>sender_membership.
     if sender_membership \<noteq> MJoin then Inl (Message ''cannot ban if sender is not joined'')
     else
       rbind (creators X rules room_create_event) (\<lambda>room_creators.
       let room_power_levels_event = fetch_room_power_levels_event fetch_state
       in rbind (user_power_level X rules room_power_levels_event (ev_sender e) room_creators)
            (\<lambda>sender_power_level.
          rbind (option_get_as_int_or_default X rules room_power_levels_event FieldBan)
            (\<lambda>ban_power_level.
          rbind (user_power_level X rules room_power_levels_event target_user room_creators)
            (\<lambda>target_user_power_level.
          if upl_ge sender_power_level ban_power_level \<and> target_user_power_level < sender_power_level
          then Inr ()
          else Inl (Message ''sender does not have enough power to ban target user''))))))"

definition check_room_member_knock ::
  "ext \<Rightarrow> authorization_rules \<Rightarrow> event \<Rightarrow> string \<Rightarrow> fetch_state \<Rightarrow> auth_error + unit" where
  "check_room_member_knock X rules e target_user fetch_state =
     rbind (fetch_join_rule X fetch_state) (\<lambda>rule.
     let supports_knock = (rule = JKnock \<or> knock_restricted_join_rule rules \<and> rule = JKnockRestricted)
     in if \<not> supports_knock
        then Inl (Message ''join rule is not set to knock or knock_restricted, knocking is not allowed'')
        else if ev_sender e \<noteq> target_user
        then Inl (Message ''cannot make another user knock, sender does not match target user'')
        else
          rbind (fetch_user_membership X fetch_state (ev_sender e)) (\<lambda>sender_membership.
          if sender_membership \<notin> {MBan, MInvite, MJoin} then Inr ()
          else Inl (Message ''cannot knock if user is banned, invited or joined'')))"

definition check_room_member ::
  "ext \<Rightarrow> authorization_rules \<Rightarrow> event \<Rightarrow> event \<Rightarrow> fetch_state \<Rightarrow> unit auth_result" where
  "check_room_member X rules e room_create_event fetch_state =
     rbind (ok_or (ev_state_key e) (Err (Message ''missing `state_key` field in `m.room.member` event'')))
       (\<lambda>target_user.
     rbind (lift (map_err (MessageId ''invalid `state_key` field in `m.room.member` event: '')
              (user_id_validate (x_compat_len X) target_user))) (\<lambda>_.
     rbind (lift (membership X e)) (\<lambda>target_membership.
     case target_membership of
       MJoin \<Rightarrow> lift (check_room_member_join X rules e target_user room_create_event fetch_state)
     | MInvite \<Rightarrow> check_room_member_invite X rules e target_user room_create_event fetch_state
     | MLeave \<Rightarrow> lift (check_room_member_leave X rules e target_user room_create_event fetch_state)
     | MBan \<Rightarrow> lift (check_room_member_ban X rules e target_user room_create_event fetch_state)
     | MKnock \<Rightarrow>
         if knocking rules then lift (check_room_member_knock X rules e target_user fetch_state)
         else reject (Message ''unknown membership'')
     | MCustom _ \<Rightarrow> reject (Message ''unknown membership''))))"

section \<open>State-dependent rules\<close>

text \<open>The rules for events that are neither aliases nor membership events, from the membership of the sender on.\<close>

definition check_other_event ::
  "ext \<Rightarrow> authorization_rules \<Rightarrow> event \<Rightarrow> event \<Rightarrow> fetch_state \<Rightarrow> auth_error + unit" where
  "check_other_event X rules incoming room_create_event fetch_state =
     rbind (fetch_user_membership X fetch_state (ev_sender incoming)) (\<lambda>sender_membership.
     if sender_membership \<noteq> MJoin then Inl (Message ''sender membership is not `join`'')
     else
       rbind (creators X rules room_create_event) (\<lambda>room_creators.
       let current = fetch_room_power_levels_event fetch_state
       in rbind (user_power_level X rules current (ev_sender incoming) room_creators) (\<lambda>sender_power_level.
          if ev_event_type incoming = ''m.room.third_party_invite'' then
            rbind (option_get_as_int_or_default X rules current FieldInvite) (\<lambda>invite_power_level.
            if \<not> upl_ge sender_power_level invite_power_level
            then Inl (Message ''sender does not have enough power to send invites in this room'')
            else Inr ())
          else
            rbind (event_power_level X rules current (ev_event_type incoming) (ev_state_key incoming))
              (\<lambda>event_type_power_level.
            if \<not> upl_ge sender_power_level event_type_power_level
            then Inl (MessageAbout ''sender does not have enough power to send event of type ''
                        (ev_event_type incoming))
            else if (case ev_state_key incoming of
                       None \<Rightarrow> False
                     | Some k \<Rightarrow> k \<noteq> [] \<and> hd k = CHR ''@'')
                    \<and> ev_state_key incoming \<noteq> Some (ev_sender incoming)
            then Inl (Message ''sender cannot send event with `state_key` matching the ID of another user'')
            else if ev_event_type incoming = ''m.room.power_levels''
            then check_room_power_levels X rules incoming current sender_power_level room_creators
            else if special_case_room_redaction rules \<and> ev_event_type incoming = ''m.room.redaction''
            then check_room_redaction X rules incoming current sender_power_level
            else Inr ()))))"

definition check_state_dependent_auth_rules ::
  "ext \<Rightarrow> authorization_rules \<Rightarrow> event \<Rightarrow> fetch_state \<Rightarrow> unit auth_result" where
  "check_state_dependent_auth_rules X rules incoming fetch_state =
     (if ev_event_type incoming = ''m.room.create'' then Inr ()
      else
        rbind (lift (fetch_room_create_event fetch_state)) (\<lambda>room_create_event.
        rbind (lift (federate X room_create_event)) (\<lambda>federated.
        if \<not> federated
           \<and> user_id_server_name (ev_sender room_create_event) \<noteq> user_id_server_name (ev_sender incoming)
        then reject (Message ''room is not federated and sender domain of the event does not match'')
        else if special_case_room_aliases rules \<and> ev_event_type incoming = ''m.room.aliases'' then
          (if ev_state_key incoming \<noteq> Some (user_id_server_name (ev_sender incoming))
           then reject (Message ''server name of the `state_key` of `m.room.aliases` event does not match'')
           else Inr ())
        else if ev_event_type incoming = ''m.room.member''
        then check_room_member X rules incoming room_create_event fetch_state
        else lift (check_other_event X rules incoming room_create_event fetch_state))))"

section \<open>Helper lemmas\<close>

lemma lift_simps [simp]: "lift (Inl e) = Inl (Err e)" "lift (Inr a) = Inr a"
  by (simp_all add: lift_def)

lemma lift_Inr_iff [simp, result_simps]: "lift m = Inr a \<longleftrightarrow> m = Inr a"
  by (simp add: lift_def)

lemma lift_not_Panic [simp]: "lift m \<noteq> Inl Panic"
  by (cases m) (simp_all add: lift_def)

lemma reject_not_Inr [simp]: "reject e \<noteq> Inr a" "Inr a \<noteq> reject e" "reject e \<noteq> Inl Panic"
  by (simp_all add: reject_def)

lemma int_cmp_conv:
  "int_cmp_user_power_level i u = Greater \<longleftrightarrow> u < PowerLevelInt i"
  "int_cmp_user_power_level i u = Less \<longleftrightarrow> PowerLevelInt i < u"
  by (cases u; auto)+

lemma check_power_level_keys_iff:
  "check_power_level_keys current new spl rej err keys = Inr () \<longleftrightarrow>
     (\<forall>k\<in>set keys. opt_get current k = opt_get new k
        \<or> (\<forall>c. opt_get current k = Some c \<longrightarrow> \<not> rej k c)
          \<and> (\<forall>n. opt_get new k = Some n \<longrightarrow> PowerLevelInt n \<le> spl))"
proof (induction keys)
  case (Cons k keys)
  then show ?case
    by (cases "opt_get current k"; cases "opt_get new k") (auto simp: Let_def int_cmp_conv not_less)
qed simp

lemma opt_get_keys: "opt_get m k = Some v \<Longrightarrow> k \<in> set (opt_keys m)"
  by (auto simp: opt_get_def opt_keys_def hm_keysI split: option.splits)

text \<open>Only the entries that differ matter, and every entry of either map is looked at.\<close>

lemma check_power_level_maps_iff:
  "check_power_level_maps current new spl rej err = Inr () \<longleftrightarrow>
     (\<forall>k. opt_get current k = opt_get new k
        \<or> (\<forall>c. opt_get current k = Some c \<longrightarrow> \<not> rej k c)
          \<and> (\<forall>n. opt_get new k = Some n \<longrightarrow> PowerLevelInt n \<le> spl))"
  (is "?L \<longleftrightarrow> (\<forall>k. ?P k)")
proof -
  have "?P k" if "k \<notin> set (opt_keys current @ opt_keys new)" for k
    using that opt_get_keys [of current k] opt_get_keys [of new k]
    by (cases "opt_get current k"; cases "opt_get new k") auto
  then show ?thesis
    unfolding check_power_level_maps_def check_power_level_keys_iff by auto
qed

lemma check_int_fields_iff:
  "check_int_fields X rules current new_int_fields spl fs = Inr () \<longleftrightarrow>
     (\<forall>field\<in>set fs. \<exists>v. get_as_int X rules current field = Inr v
        \<and> (v = map_of new_int_fields field
           \<or> (\<forall>w\<in>{v, map_of new_int_fields field}.
                PowerLevelInt (case w of None \<Rightarrow> int_field_default_value field | Some i \<Rightarrow> i) \<le> spl)))"
proof (induction fs)
  case (Cons f fs)
  show ?case
  proof (cases "get_as_int X rules current f")
    case (Inl err)
    then show ?thesis by simp
  next
    case (Inr v)
    then show ?thesis using Cons.IH by (auto simp: Let_def int_cmp_conv not_less)
  qed
qed simp

lemma collect_int_fields_keys:
  "collect_int_fields X rules e fs = Inr m \<Longrightarrow> fst ` set m \<subseteq> set fs"
proof (induction fs arbitrary: m)
  case (Cons f fs)
  then obtain v rest where "collect_int_fields X rules e fs = Inr rest"
      "m = (case v of None \<Rightarrow> rest | Some i \<Rightarrow> (f, i) # rest)"
    by (auto simp: rbind_Inr_iff)
  with Cons.IH show ?case by (cases v) auto
qed simp

lemma collect_int_fields_iff:
  assumes "collect_int_fields X rules e fs = Inr m" "distinct fs" "field \<in> set fs"
  shows "get_as_int X rules e field = Inr (map_of m field)"
  using assms
proof (induction fs arbitrary: m)
  case (Cons f fs)
  from Cons.prems(1) obtain v rest where v: "get_as_int X rules e f = Inr v"
    and rest: "collect_int_fields X rules e fs = Inr rest"
    and m: "m = (case v of None \<Rightarrow> rest | Some i \<Rightarrow> (f, i) # rest)"
    by (auto simp: rbind_Inr_iff)
  have "map_of rest f = None"
    using collect_int_fields_keys [OF rest] Cons.prems(2) by (auto simp: map_of_eq_None_iff)
  with v m Cons.IH [OF rest] Cons.prems(2,3) show ?case
    by (cases v) auto
qed simp

lemma int_fields_map_get:
  assumes "int_fields_map X rules e = Inr m"
  shows "get_as_int X rules e field = Inr (map_of m field)"
proof (rule collect_int_fields_iff [OF assms [unfolded int_fields_map_def]])
  show "distinct ALL_int_fields" by (simp add: ALL_int_fields_def)
  show "field \<in> set ALL_int_fields" by (cases field) (simp_all add: ALL_int_fields_def)
qed

end
