(* ===== verification/Topo_Sort.thy ===== *)
theory Topo_Sort
  imports Room_Power_Levels
begin

text \<open>
  \<open>reverse_topological_power_sort\<close> of \<open>common-state-res/src/resolve.rs\<close>: Kahn's algorithm on the
  graph of auth events, with a heap ordered by the tie breaker. A graph is a hash map from
  event IDs to the hash sets of their auth events, as an association list whose order is the
  iteration order; \<open>hash_order\<close> is the iteration order of the hash sets the algorithm builds.
\<close>

section \<open>The tie breaker\<close>

record 'id tie_breaker =
  tb_power_level :: user_power_level
  tb_origin_server_ts :: nat
  tb_event_id :: 'id

definition tie_breaker_cmp :: "'id::linorder tie_breaker \<Rightarrow> 'id tie_breaker \<Rightarrow> ordering" where
  "tie_breaker_cmp self other =
     ordering_then
       (ordering_then (user_power_level_cmp (tb_power_level other) (tb_power_level self))
          (cmp_of (tb_origin_server_ts self) (tb_origin_server_ts other)))
       (cmp_of (tb_event_id self) (tb_event_id other))"

interpretation tb: rust_ord "tie_breaker_cmp :: 'id::linorder tie_breaker \<Rightarrow> _"
proof
  fix x y z :: "'id tie_breaker"
  show "tie_breaker_cmp x y = Equal \<longleftrightarrow> x = y"
    by (cases x; cases y) (auto simp: tie_breaker_cmp_def)
  show "tie_breaker_cmp x y = Less \<longleftrightarrow> tie_breaker_cmp y x = Greater"
    by (auto simp: tie_breaker_cmp_def)
  show "tie_breaker_cmp x y = Less \<Longrightarrow> tie_breaker_cmp y z = Less \<Longrightarrow> tie_breaker_cmp x z = Less"
    by (auto simp: tie_breaker_cmp_def)
qed

section \<open>The algorithm\<close>

type_synonym 'id graph = "('id \<times> 'id list) list"

type_synonym ('id, 'e) event_details = "'id \<Rightarrow> 'e + (user_power_level \<times> nat)"

text \<open>Looking up the details of an event and building its heap entry.\<close>

definition make_tie_breaker :: "('id, 'e) event_details \<Rightarrow> 'id \<Rightarrow> 'e fail + 'id tie_breaker" where
  "make_tie_breaker event_details_fn event_id =
     rbind (map_err Err (event_details_fn event_id)) (\<lambda>(power_level, origin_server_ts).
       Inr \<lparr>tb_power_level = power_level, tb_origin_server_ts = origin_server_ts,
            tb_event_id = event_id\<rparr>)"

definition add_incoming :: "'id \<Rightarrow> 'id list \<Rightarrow> 'id graph \<Rightarrow> 'id graph" where
  "add_incoming event_id outgoing_edges incoming =
     fold (\<lambda>auth_event_id. hm_modify_or auth_event_id (set_insert event_id) [event_id])
       outgoing_edges incoming"

text \<open>The first loop: fill the edge maps and the heap.\<close>

fun populate :: "('id, 'e) event_details \<Rightarrow> 'id graph \<Rightarrow> 'id graph \<Rightarrow> 'id graph \<Rightarrow> 'id tie_breaker list
    \<Rightarrow> 'e fail + ('id graph \<times> 'id graph \<times> 'id tie_breaker list)" where
  "populate event_details_fn [] outgoing incoming heap = Inr (outgoing, incoming, heap)"
| "populate event_details_fn ((event_id, outgoing_edges) # graph) outgoing incoming heap =
     (if outgoing_edges = [] then
        rbind (make_tie_breaker event_details_fn event_id) (\<lambda>t.
          populate event_details_fn graph outgoing incoming (heap_push t heap))
      else
        populate event_details_fn graph (hm_insert event_id outgoing_edges outgoing)
          (add_incoming event_id outgoing_edges incoming) heap)"

text \<open>The inner loop: the event was sorted, drop its edges from the events that reference it.\<close>

fun visit_parents :: "('id, 'e) event_details \<Rightarrow> 'id \<Rightarrow> 'id list \<Rightarrow> 'id graph \<Rightarrow> 'id tie_breaker list
    \<Rightarrow> 'e fail + ('id graph \<times> 'id tie_breaker list)" where
  "visit_parents event_details_fn event_id [] outgoing heap = Inr (outgoing, heap)"
| "visit_parents event_details_fn event_id (parent_id # parents) outgoing heap =
     (case map_of outgoing parent_id of
        None \<Rightarrow> Inl Panic
      | Some edges \<Rightarrow>
          let edges = removeAll event_id edges; outgoing = hm_insert parent_id edges outgoing
          in if edges = [] then
               rbind (make_tie_breaker event_details_fn parent_id) (\<lambda>t.
                 visit_parents event_details_fn event_id parents (hm_remove parent_id outgoing)
                   (heap_push t heap))
             else visit_parents event_details_fn event_id parents outgoing heap)"

lemma visit_parents_measure:
  "visit_parents d e ps outgoing heap = Inr (outgoing', heap') \<Longrightarrow>
     length outgoing' + length heap' \<le> length outgoing + length heap"
proof (induction d e ps outgoing heap rule: visit_parents.induct)
  case (1 d e outgoing heap)
  then show ?case by simp
next
  case (2 d e p ps outgoing heap)
  from 2(3) obtain edges where edges: "map_of outgoing p = Some edges"
    by (auto split: option.splits)
  let ?edges = "removeAll e edges" and ?out = "hm_insert p (removeAll e edges) outgoing"
  have p: "p \<in> set (hm_keys outgoing)" using edges by (simp add: hm_keysI)
  then have len: "length ?out = length outgoing" by (rule hm_insert_length)
  show ?case
  proof (cases "?edges = []")
    case True
    with 2(3) edges obtain t where t: "make_tie_breaker d p = Inr t"
      and rest: "visit_parents d e ps (hm_remove p ?out) (heap_push t heap) = Inr (outgoing', heap')"
      by (auto simp: Let_def elim: rbindE)
    have "length (hm_remove p ?out) < length ?out" by (rule hm_remove_length) simp
    with 2(1) [OF edges refl refl True rest] len show ?thesis by simp
  next
    case False
    with 2(3) edges have "visit_parents d e ps ?out heap = Inr (outgoing', heap')"
      by (auto simp: Let_def)
    with 2(2) [OF edges refl refl False this] len show ?thesis by simp
  qed
qed

text \<open>The main loop.\<close>

function kahn :: "('id::linorder list \<Rightarrow> 'id list) \<Rightarrow> ('id, 'e) event_details \<Rightarrow> 'id graph \<Rightarrow> 'id graph
    \<Rightarrow> 'id tie_breaker list \<Rightarrow> 'id list \<Rightarrow> 'e fail + 'id list" where
  "kahn hash_order event_details_fn incoming outgoing heap sorted_ids =
     (case heap_pop tie_breaker_cmp heap of
        None \<Rightarrow> Inr sorted_ids
      | Some (t, heap') \<Rightarrow>
          (case visit_parents event_details_fn (tb_event_id t)
                  (case map_of incoming (tb_event_id t) of
                     None \<Rightarrow> [] | Some parents \<Rightarrow> hash_order parents) outgoing heap' of
             Inl e \<Rightarrow> Inl e
           | Inr (outgoing', heap'') \<Rightarrow>
               kahn hash_order event_details_fn incoming outgoing' heap'' (sorted_ids @ [tb_event_id t])))"
  by pat_completeness auto
termination
proof (relation "measure (\<lambda>(h, d, i, outgoing, heap, s). length outgoing + length heap)", simp, clarsimp)
  fix hash_order :: "'id::linorder list \<Rightarrow> 'id list" and d :: "('id, 'e) event_details"
    and incoming outgoing heap t heap' outgoing' heap''
  assume "heap_pop tie_breaker_cmp heap = Some (t, heap')"
    and "visit_parents d (tb_event_id t) (case map_of incoming (tb_event_id t) of None \<Rightarrow> [] | Some x \<Rightarrow> hash_order x)
           outgoing heap' = Inr (outgoing', heap'')"
  from heap_pop_length [OF this(1)] visit_parents_measure [OF this(2)]
  show "length outgoing' + length heap'' < length outgoing + length heap" by simp
qed

definition reverse_topological_power_sort ::
  "('id::linorder list \<Rightarrow> 'id list) \<Rightarrow> 'id graph \<Rightarrow> ('id, 'e) event_details \<Rightarrow> 'e fail + 'id list" where
  "reverse_topological_power_sort hash_order graph event_details_fn =
     rbind (populate event_details_fn graph [] [] []) (\<lambda>(outgoing, incoming, heap).
       kahn hash_order event_details_fn incoming outgoing heap [])"

declare kahn.simps [simp del]

section \<open>The ordering the algorithm promises\<close>

definition edges_of :: "'id graph \<Rightarrow> 'id \<Rightarrow> 'id set" where
  "edges_of g y = set (case map_of g y of None \<Rightarrow> [] | Some es \<Rightarrow> es)"

text \<open>An event can come next after the events \<open>xs\<close> when all its auth events are among them.\<close>

definition ready :: "'id graph \<Rightarrow> 'id list \<Rightarrow> 'id \<Rightarrow> bool" where
  "ready g xs y \<longleftrightarrow> y \<in> set (hm_keys g) \<and> y \<notin> set xs \<and> edges_of g y \<subseteq> set xs"

definition id_le :: "('id::linorder, 'e) event_details \<Rightarrow> 'id \<Rightarrow> 'id \<Rightarrow> bool" where
  "id_le d a b \<longleftrightarrow>
     (\<exists>ta tb. make_tie_breaker d a = Inr ta \<and> make_tie_breaker d b = Inr tb
        \<and> tie_breaker_cmp ta tb \<noteq> Greater)"

text \<open>Every event of the list was ready, and the smallest of the ready ones.\<close>

definition greedy :: "'id::linorder graph \<Rightarrow> ('id, 'e) event_details \<Rightarrow> 'id list \<Rightarrow> bool" where
  "greedy g d xs \<longleftrightarrow>
     (\<forall>us y vs. xs = us @ y # vs \<longrightarrow> ready g us y \<and> (\<forall>z. ready g us z \<longrightarrow> id_le d y z))"

definition power_ordering :: "'id::linorder graph \<Rightarrow> ('id, 'e) event_details \<Rightarrow> 'id list \<Rightarrow> bool" where
  "power_ordering g d xs \<longleftrightarrow> greedy g d xs \<and> (\<forall>z. \<not> ready g xs z)"

definition is_hash_order :: "('a list \<Rightarrow> 'a list) \<Rightarrow> bool" where
  "is_hash_order hash_order \<longleftrightarrow> (\<forall>xs. mset (hash_order xs) = mset xs)"

lemma is_hash_orderD:
  assumes "is_hash_order h"
  shows "set (h xs) = set xs" "distinct (h xs) = distinct xs"
  using assms unfolding is_hash_order_def
  by (metis mset_eq_setD) (metis assms is_hash_order_def mset_eq_imp_distinct_iff)

lemma is_hash_order_id [simp]: "is_hash_order id" "is_hash_order (\<lambda>xs. xs)" "is_hash_order rev"
  by (simp_all add: is_hash_order_def)

lemma greedy_Nil [simp]: "greedy g d []"
  by (simp add: greedy_def)

lemma greedy_snoc:
  "greedy g d (xs @ [y]) \<longleftrightarrow> greedy g d xs \<and> ready g xs y \<and> (\<forall>z. ready g xs z \<longrightarrow> id_le d y z)"
proof -
  have eq: "xs @ [y] = us @ z # vs \<longleftrightarrow> us = xs \<and> z = y \<and> vs = [] \<or> (\<exists>ws. vs = ws @ [y] \<and> xs = us @ z # ws)"
    for us z vs by (cases vs rule: rev_cases) auto
  show ?thesis unfolding greedy_def eq by auto
qed

lemma make_tie_breaker_Inr: "make_tie_breaker d a = Inr t \<Longrightarrow> tb_event_id t = a"
  by (auto simp: make_tie_breaker_def elim!: rbindE)

lemma make_tie_breaker_Inl: "make_tie_breaker d a = Inl x \<Longrightarrow> \<exists>e. x = Err e \<and> d a = Inl e"
  by (cases "d a") (auto simp: make_tie_breaker_def)

lemma id_le_antisym: "id_le d a b \<Longrightarrow> id_le d b a \<Longrightarrow> a = b"
  unfolding id_le_def using tb.cmp_antisym make_tie_breaker_Inr by (metis sum.inject(2))

lemma id_le_trans: "id_le d a b \<Longrightarrow> id_le d b c \<Longrightarrow> id_le d a c"
  unfolding id_le_def using tb.cmp_le_trans by (metis sum.inject(2))

section \<open>The loops\<close>

definition drained :: "'id \<Rightarrow> ('id \<rightharpoonup> 'id list) \<Rightarrow> 'id \<Rightarrow> bool" where
  "drained e m p \<longleftrightarrow> removeAll e (the (m p)) = []"

definition drop_edge :: "'id \<Rightarrow> ('id \<rightharpoonup> 'id list) \<Rightarrow> 'id list \<Rightarrow> ('id \<rightharpoonup> 'id list)" where
  "drop_edge e m ps q =
     (if q \<notin> set ps then m q else if drained e m q then None else Some (removeAll e (the (m q))))"

lemma drop_edge_upd: "p \<notin> set ps \<Longrightarrow> drop_edge e (m(p := x)) ps = (drop_edge e m ps)(p := x)"
  by (auto simp: drop_edge_def drained_def)

lemma drop_edge_Cons:
  "p \<notin> set ps \<Longrightarrow> drop_edge e m (p # ps) =
     (drop_edge e m ps)(p := if drained e m p then None else Some (removeAll e (the (m p))))"
  by (auto simp: drop_edge_def)

lemma filter_drained_upd: "p \<notin> set ps \<Longrightarrow> filter (drained e (m(p := x))) ps = filter (drained e m) ps"
  by (rule filter_cong) (auto simp: drained_def)

lemma visit_parents_Inr:
  assumes "visit_parents d e ps outgoing heap = Inr (outgoing', heap')" "distinct ps"
  shows "map_of outgoing' = drop_edge e (map_of outgoing) ps
    \<and> (\<exists>ts. heap' = rev ts @ heap
        \<and> list_all2 (\<lambda>p t. make_tie_breaker d p = Inr t) (filter (drained e (map_of outgoing)) ps) ts)"
  using assms
proof (induction d e ps outgoing heap rule: visit_parents.induct)
  case (1 d e outgoing heap)
  then show ?case by (simp add: drop_edge_def fun_eq_iff)
next
  case (2 d e p ps outgoing heap)
  from 2(3) obtain edges where edges: "map_of outgoing p = Some edges"
    by (auto split: option.splits)
  let ?edges = "removeAll e edges" and ?out = "hm_insert p (removeAll e edges) outgoing"
  have ps: "distinct ps" "p \<notin> set ps" using 2(4) by auto
  have drained: "drained e (map_of outgoing) p \<longleftrightarrow> ?edges = []" by (simp add: drained_def edges)
  show ?case
  proof (cases "?edges = []")
    case True
    with 2(3) edges obtain t where t: "make_tie_breaker d p = Inr t"
      and rest: "visit_parents d e ps (hm_remove p ?out) (heap_push t heap) = Inr (outgoing', heap')"
      by (auto simp: Let_def elim: rbindE)
    have out: "map_of (hm_remove p ?out) = (map_of outgoing)(p := None)" by simp
    from 2(1) [OF edges refl refl True rest ps(1)] obtain ts where
      ts: "map_of outgoing' = (drop_edge e (map_of outgoing) ps)(p := None)" "heap' = rev ts @ t # heap"
      "list_all2 (\<lambda>p t. make_tie_breaker d p = Inr t) (filter (drained e (map_of outgoing)) ps) ts"
      unfolding out drop_edge_upd [OF ps(2)] filter_drained_upd [OF ps(2)] heap_push_def by blast
    show ?thesis
      unfolding drop_edge_Cons [OF ps(2)]
      using t ts by (intro conjI exI [of _ "t # ts"]) (simp_all add: drained True)
  next
    case False
    with 2(3) edges have rest: "visit_parents d e ps ?out heap = Inr (outgoing', heap')"
      by (auto simp: Let_def)
    have out: "map_of ?out = (map_of outgoing)(p := Some ?edges)" by simp
    from 2(2) [OF edges refl refl False rest ps(1)] show ?thesis
      unfolding out drop_edge_upd [OF ps(2)] filter_drained_upd [OF ps(2)] drop_edge_Cons [OF ps(2)]
      using False edges by (simp add: drained)
  qed
qed

lemma visit_parents_Inl:
  assumes "visit_parents d e ps outgoing heap = Inl x" "distinct ps" "set ps \<subseteq> dom (map_of outgoing)"
  shows "\<exists>p\<in>set ps. \<exists>err. x = Err err \<and> d p = Inl err"
  using assms
proof (induction d e ps outgoing heap rule: visit_parents.induct)
  case (1 d e outgoing heap)
  then show ?case by simp
next
  case (2 d e p ps outgoing heap)
  then obtain edges where edges: "map_of outgoing p = Some edges" by auto
  let ?edges = "removeAll e edges" and ?out = "hm_insert p (removeAll e edges) outgoing"
  have dom: "set ps \<subseteq> dom (map_of (hm_remove p ?out))" "set ps \<subseteq> dom (map_of ?out)" "distinct ps"
    using 2(4,5) by auto
  show ?case
  proof (cases "?edges = []")
    case True
    show ?thesis
    proof (cases "make_tie_breaker d p")
      case (Inl y)
      with 2(3) edges True make_tie_breaker_Inl [OF Inl] show ?thesis by auto
    next
      case (Inr t)
      with 2(3) edges True have "visit_parents d e ps (hm_remove p ?out) (heap_push t heap) = Inl x"
        by (simp add: Let_def)
      from 2(1) [OF edges refl refl True this dom(3,1)] show ?thesis by auto
    qed
  next
    case False
    with 2(3) edges have "visit_parents d e ps ?out heap = Inl x" by (simp add: Let_def)
    from 2(2) [OF edges refl refl False this dom(3,2)] show ?thesis by auto
  qed
qed

definition parents_of :: "'id graph \<Rightarrow> 'id \<Rightarrow> 'id list" where
  "parents_of incoming a = (case map_of incoming a of None \<Rightarrow> [] | Some ps \<Rightarrow> ps)"

text \<open>
  The state of the main loop after the events \<open>xs\<close>: the edges still to be removed, the events that
  reference each event, and a heap that holds one entry for each ready event.
\<close>

definition kahn_inv :: "'id::linorder graph \<Rightarrow> ('id, 'e) event_details \<Rightarrow> 'id graph \<Rightarrow> 'id graph
    \<Rightarrow> 'id tie_breaker list \<Rightarrow> 'id list \<Rightarrow> bool" where
  "kahn_inv g d incoming outgoing heap xs \<longleftrightarrow>
     greedy g d xs
     \<and> dom (map_of outgoing) = {y \<in> set (hm_keys g). y \<notin> set xs \<and> \<not> edges_of g y \<subseteq> set xs}
     \<and> (\<forall>y es. map_of outgoing y = Some es \<longrightarrow> set es = edges_of g y - set xs)
     \<and> (\<forall>a. set (parents_of incoming a) = {y \<in> set (hm_keys g). a \<in> edges_of g y}
            \<and> distinct (parents_of incoming a))
     \<and> distinct (map tb_event_id heap)
     \<and> tb_event_id ` set heap = {y. ready g xs y}
     \<and> (\<forall>t\<in>set heap. make_tie_breaker d (tb_event_id t) = Inr t)"

lemma greedy_edges: "greedy g d xs \<Longrightarrow> y \<in> set xs \<Longrightarrow> edges_of g y \<subseteq> set xs - {y}"
  by (induction xs rule: rev_induct) (auto simp: greedy_snoc ready_def)

lemma greedy_distinct: "greedy g d xs \<Longrightarrow> distinct xs \<and> set xs \<subseteq> set (hm_keys g)"
  by (induction xs rule: rev_induct) (auto simp: greedy_snoc ready_def)

lemma ready_snoc:
  "ready g (xs @ [y]) z \<longleftrightarrow>
     z \<noteq> y \<and> (ready g xs z \<or> z \<in> set (hm_keys g) \<and> z \<notin> set xs \<and> y \<in> edges_of g z \<and> edges_of g z \<subseteq> insert y (set xs))"
  by (auto simp: ready_def)

lemma kahn_invD:
  assumes "kahn_inv g d incoming outgoing heap xs"
  shows "greedy g d xs"
    and "dom (map_of outgoing) = {y \<in> set (hm_keys g). y \<notin> set xs \<and> \<not> edges_of g y \<subseteq> set xs}"
    and "map_of outgoing y = Some es \<Longrightarrow> set es = edges_of g y - set xs"
    and "set (parents_of incoming a) = {y \<in> set (hm_keys g). a \<in> edges_of g y}"
    and "distinct (parents_of incoming a)"
    and "distinct (map tb_event_id heap)"
    and "tb_event_id ` set heap = {y. ready g xs y}"
    and "t \<in> set heap \<Longrightarrow> make_tie_breaker d (tb_event_id t) = Inr t"
  using assms by (simp_all add: kahn_inv_def)

lemma tie_breakers_of:
  assumes "list_all2 (\<lambda>p t. make_tie_breaker d p = Inr t) ps ts"
  shows "map tb_event_id ts = ps"
    and "t \<in> set ts \<Longrightarrow> make_tie_breaker d (tb_event_id t) = Inr t"
  using assms by (induction rule: list_all2_induct) (auto simp: make_tie_breaker_Inr)

text \<open>
  Removing the event \<open>y\<close>, whose own edges are all gone, from the edges of its parents \<open>ps\<close> leaves exactly
  the edges that do not point into \<open>insert y X\<close>.
\<close>

lemma drop_edge_remaining:
  assumes m: "dom m = {z \<in> V. z \<notin> X \<and> \<not> E z \<subseteq> X}" "\<forall>z es. m z = Some es \<longrightarrow> set es = E z - X"
    and ps: "set ps = {z \<in> V. y \<in> E z}" "set ps \<inter> X = {}"
    and y: "y \<notin> X" "E y \<subseteq> X"
  shows "z \<in> set ps \<Longrightarrow> drained y m z \<longleftrightarrow> E z \<subseteq> insert y X"
    and "dom (drop_edge y m ps) = {z \<in> V. z \<notin> insert y X \<and> \<not> E z \<subseteq> insert y X}"
    and "drop_edge y m ps z = Some es \<Longrightarrow> set es = E z - insert y X"
proof -
  have edges: "set (the (m z)) = E z - X" if "z \<in> set ps" for z
  proof -
    have "z \<in> dom m" using ps that y(1) unfolding m(1) by blast
    then show ?thesis using m(2) by (auto simp: dom_def)
  qed
  show drained: "drained y m z \<longleftrightarrow> E z \<subseteq> insert y X" if "z \<in> set ps" for z
    unfolding drained_def set_empty [symmetric] set_removeAll edges [OF that] by auto
  have "z \<in> dom (drop_edge y m ps) \<longleftrightarrow> z \<in> V \<and> z \<notin> insert y X \<and> \<not> E z \<subseteq> insert y X" for z
  proof (cases "z \<in> set ps")
    case True
    then have "z \<in> dom (drop_edge y m ps) \<longleftrightarrow> \<not> E z \<subseteq> insert y X"
      by (simp add: drop_edge_def domIff drained)
    with True ps y show ?thesis by auto
  next
    case False
    then have "z \<in> dom (drop_edge y m ps) \<longleftrightarrow> z \<in> dom m" by (simp add: drop_edge_def domIff)
    with False ps(1) y show ?thesis unfolding m(1) by auto
  qed
  then show "dom (drop_edge y m ps) = {z \<in> V. z \<notin> insert y X \<and> \<not> E z \<subseteq> insert y X}" by blast
  show "set es = E z - insert y X" if "drop_edge y m ps z = Some es"
  proof (cases "z \<in> set ps")
    case True
    with that have "es = removeAll y (the (m z))" by (simp add: drop_edge_def split: if_splits)
    with edges [OF True] show ?thesis by auto
  next
    case False
    with that have z: "m z = Some es" by (simp add: drop_edge_def)
    then have "z \<in> V" using m(1) by blast
    with False z m(2) ps(1) show ?thesis by auto
  qed
qed

text \<open>The entry the heap gives up is a least ready event, and the heap keeps an entry for each of the others.\<close>

lemma kahn_inv_pop:
  assumes inv: "kahn_inv g d incoming outgoing heap xs"
    and pop: "heap_pop tie_breaker_cmp heap = Some (t, heap')"
  shows "ready g xs (tb_event_id t)"
    and "ready g xs z \<Longrightarrow> id_le d (tb_event_id t) z"
    and "distinct (map tb_event_id heap')"
    and "tb_event_id ` set heap' = {z. ready g xs z} - {tb_event_id t}"
    and "s \<in> set heap' \<Longrightarrow> make_tie_breaker d (tb_event_id s) = Inr s"
proof -
  note i = kahn_invD [OF inv]
  have t: "t \<in> set heap" "mset heap = add_mset t (mset heap')" by (rule heap_pop_mset [OF pop])+
  then have heap: "set heap = insert t (set heap')" by (metis set_mset_add_mset_insert set_mset_mset)
  have dist: "distinct (map tb_event_id (t # heap'))"
    using i(6) t(2) by (metis mset.simps(2) mset_eq_imp_distinct_iff mset_map)
  show "ready g xs (tb_event_id t)" using i(7) t(1) by blast
  show "id_le d (tb_event_id t) z" if "ready g xs z"
  proof -
    from that have "z \<in> tb_event_id ` set heap" unfolding i(7) by simp
    then obtain s where s: "s \<in> set heap" "tb_event_id s = z" by blast
    with i(8) [OF t(1)] i(8) [OF s(1)] tb.heap_pop_le [OF pop s(1)] show ?thesis
      unfolding id_le_def by blast
  qed
  show "distinct (map tb_event_id heap')" using dist by simp
  have "insert (tb_event_id t) (tb_event_id ` set heap') = {z. ready g xs z}" using i(7) heap by simp
  moreover have "tb_event_id t \<notin> tb_event_id ` set heap'" using dist by simp
  ultimately show "tb_event_id ` set heap' = {z. ready g xs z} - {tb_event_id t}" by blast
  show "make_tie_breaker d (tb_event_id s) = Inr s" if "s \<in> set heap'" using that i(8) heap by simp
qed

lemma kahn_inv_step:
  assumes inv: "kahn_inv g d incoming outgoing heap xs"
    and pop: "heap_pop tie_breaker_cmp heap = Some (t, heap')"
    and ord: "is_hash_order hash_order"
    and visit: "visit_parents d (tb_event_id t) (hash_order (parents_of incoming (tb_event_id t)))
                  outgoing heap' = Inr (outgoing', heap'')"
  shows "kahn_inv g d incoming outgoing' heap'' (xs @ [tb_event_id t])"
proof -
  let ?y = "tb_event_id t" and ?ps = "hash_order (parents_of incoming (tb_event_id t))"
  note i = kahn_invD [OF inv] and p = kahn_inv_pop [OF inv pop]
  have ps: "set ?ps = {z \<in> set (hm_keys g). ?y \<in> edges_of g z}" "distinct ?ps"
    by (simp_all add: is_hash_orderD [OF ord] i(4,5))
  have y: "?y \<notin> set xs" "edges_of g ?y \<subseteq> set xs" "?y \<notin> set ?ps" using p(1) ps by (auto simp: ready_def)
  have ps_out: "set ?ps \<inter> set xs = {}" using ps y(1) greedy_edges [OF i(1)] by blast
  have out_edges: "\<forall>z es. map_of outgoing z = Some es \<longrightarrow> set es = edges_of g z - set xs" using i(3) by blast
  note rem = drop_edge_remaining [OF i(2) out_edges ps(1) ps_out y(1,2)]
  from visit_parents_Inr [OF visit ps(2)] obtain ts where
    out: "map_of outgoing' = drop_edge ?y (map_of outgoing) ?ps" and
    ts: "heap'' = rev ts @ heap'"
      "list_all2 (\<lambda>p t. make_tie_breaker d p = Inr t) (filter (drained ?y (map_of outgoing)) ?ps) ts"
    by blast
  note ids = tie_breakers_of(1) [OF ts(2)] and mk = tie_breakers_of(2) [OF ts(2)]
  have new: "tb_event_id ` set ts = {z \<in> set ?ps. edges_of g z \<subseteq> insert ?y (set xs)}"
    using rem(1) by (auto simp: ids simp flip: set_map)
  have "distinct (map tb_event_id ts)" by (simp add: ids ps(2))
  moreover have "tb_event_id ` set ts \<inter> tb_event_id ` set heap' = {}"
    unfolding new p(4) ps(1) using y(1) by (auto simp: ready_def)
  ultimately have dist: "distinct (map tb_event_id heap'')" using p(3) by (simp add: ts(1) rev_map [symmetric])
  have "tb_event_id ` set heap'' = {z \<in> set ?ps. edges_of g z \<subseteq> insert ?y (set xs)} \<union> ({z. ready g xs z} - {?y})"
    by (simp add: ts(1) image_Un new p(4))
  also have "\<dots> = {z. ready g (xs @ [?y]) z}" unfolding ready_snoc using ps(1) ps_out y(3) by blast
  finally have ready: "tb_event_id ` set heap'' = {z. ready g (xs @ [?y]) z}" .
  have snoc: "set (xs @ [?y]) = insert ?y (set xs)" by simp
  show ?thesis
    unfolding kahn_inv_def snoc out
  proof (intro conjI allI impI ballI)
    show "greedy g d (xs @ [?y])" using i(1) p(1,2) by (simp add: greedy_snoc)
    show "make_tie_breaker d (tb_event_id s) = Inr s" if "s \<in> set heap''" for s using that mk p(5) by (auto simp: ts(1))
  qed (rule rem(2), erule rem(3), rule i(4), rule i(5), rule dist, rule ready)
qed

lemma hash_order_parents:
  "is_hash_order h \<Longrightarrow>
     (case map_of incoming a of None \<Rightarrow> [] | Some parents \<Rightarrow> h parents) = h (parents_of incoming a)"
  by (auto simp: parents_of_def is_hash_order_def split: option.splits) (metis mset_zero_iff)

text \<open>What a run returns: a power ordering, or the error of an event's details, never a panic.\<close>

definition sort_outcome :: "'id::linorder graph \<Rightarrow> ('id, 'e) event_details \<Rightarrow> 'e fail + 'id list \<Rightarrow> bool" where
  "sort_outcome g d r =
     (case r of
        Inr xs \<Rightarrow> power_ordering g d xs
      | Inl (Err e) \<Rightarrow> (\<exists>k\<in>set (hm_keys g). d k = Inl e)
      | Inl Panic \<Rightarrow> False)"

lemma kahn_outcome:
  assumes "is_hash_order hash_order" "kahn_inv g d incoming outgoing heap xs"
  shows "sort_outcome g d (kahn hash_order d incoming outgoing heap xs)"
  using assms
proof (induction hash_order d incoming outgoing heap xs rule: kahn.induct)
  case (1 hash_order d incoming outgoing heap xs)
  note i = kahn_invD [OF 1(3)]
  show ?case
  proof (cases "heap_pop tie_breaker_cmp heap")
    case None
    have "\<not> ready g xs z" for z using i(7) None by auto
    with i(1) None show ?thesis by (subst kahn.simps) (simp add: sort_outcome_def power_ordering_def)
  next
    case (Some th)
    obtain t heap' where th: "th = (t, heap')" by (cases th)
    let ?ps = "hash_order (parents_of incoming (tb_event_id t))"
    note pop = Some [unfolded th]
    have "t \<in> set heap" by (rule heap_pop_mset(1) [OF pop])
    then have ry: "ready g xs (tb_event_id t)" using i(7) by blast
    have ps: "distinct ?ps" "set ?ps = {y \<in> set (hm_keys g). tb_event_id t \<in> edges_of g y}"
      by (simp_all add: is_hash_orderD [OF 1(2)] i(4,5))
    have dom: "set ?ps \<subseteq> dom (map_of outgoing)"
      using ry greedy_edges [OF i(1)] unfolding i(2) ps(2) by (auto simp: ready_def)
    show ?thesis
    proof (cases "visit_parents d (tb_event_id t) ?ps outgoing heap'")
      case (Inl x)
      from visit_parents_Inl [OF Inl ps(1) dom] obtain p err where
        "p \<in> set ?ps" "x = Err err" "d p = Inl err" by blast
      then show ?thesis
        using Inl ps(2) by (subst kahn.simps) (auto simp: pop hash_order_parents [OF 1(2)] sort_outcome_def)
    next
      case (Inr r)
      obtain outgoing' heap'' where r: "r = (outgoing', heap'')" by (cases r)
      note visit = Inr [unfolded r]
      have "visit_parents d (tb_event_id t)
          (case map_of incoming (tb_event_id t) of None \<Rightarrow> [] | Some ps \<Rightarrow> hash_order ps) outgoing heap' =
          Inr (outgoing', heap'')"
        unfolding hash_order_parents [OF 1(2)] by (rule visit)
      from 1(1) [OF pop refl this refl 1(2) kahn_inv_step [OF 1(3) pop 1(2) visit]] visit
      show ?thesis by (subst kahn.simps) (simp add: pop hash_order_parents [OF 1(2)])
    qed
  qed
qed

lemma parents_of_modify:
  "parents_of (hm_modify_or k (set_insert y) [y] incoming) a =
     (if a = k then set_insert y (parents_of incoming a) else parents_of incoming a)"
  by (simp add: parents_of_def map_of_hm_modify_or set_insert_def split: option.splits)

lemma set_add_incoming:
  "set (parents_of (add_incoming y es incoming) a) =
     set (parents_of incoming a) \<union> (if a \<in> set es then {y} else {})"
  unfolding add_incoming_def
  by (induction es arbitrary: incoming) (auto simp: parents_of_modify)

lemma distinct_add_incoming:
  "distinct (parents_of (add_incoming y es incoming) a) = distinct (parents_of incoming a)"
  unfolding add_incoming_def
  by (induction es arbitrary: incoming) (auto simp: parents_of_modify)

lemma populate_Inr:
  assumes "populate d g outgoing incoming heap = Inr (outgoing', incoming', heap')" "hm_wf g"
  shows "map_of outgoing' = map_of outgoing ++ map_of (filter (\<lambda>e. snd e \<noteq> []) g)
    \<and> (\<forall>a. set (parents_of incoming' a) =
          set (parents_of incoming a) \<union> {y. \<exists>es. map_of g y = Some es \<and> a \<in> set es})
    \<and> (\<forall>a. distinct (parents_of incoming' a) = distinct (parents_of incoming a))
    \<and> (\<exists>ts. heap' = rev ts @ heap
        \<and> list_all2 (\<lambda>p t. make_tie_breaker d p = Inr t) (map fst (filter (\<lambda>e. snd e = []) g)) ts)"
  using assms
proof (induction d g outgoing incoming heap rule: populate.induct)
  case (1 d outgoing incoming heap)
  then show ?case by simp
next
  case (2 d k es g outgoing incoming heap)
  have k: "hm_wf g" "k \<notin> fst ` set g" "map_of g k = None"
    using 2(4) by (auto simp: map_of_eq_None_iff)
  show ?case
  proof (cases "es = []")
    case True
    with 2(3) obtain t where t: "make_tie_breaker d k = Inr t"
      and rest: "populate d g outgoing incoming (heap_push t heap) = Inr (outgoing', incoming', heap')"
      by (auto elim: rbindE)
    from 2(1) [OF True rest k(1)] obtain ts where
      IH: "map_of outgoing' = map_of outgoing ++ map_of (filter (\<lambda>e. snd e \<noteq> []) g)"
        "\<And>a. set (parents_of incoming' a) = set (parents_of incoming a) \<union> {y. \<exists>es. map_of g y = Some es \<and> a \<in> set es}"
        "\<And>a. distinct (parents_of incoming' a) = distinct (parents_of incoming a)"
        "heap' = rev ts @ heap_push t heap"
        "list_all2 (\<lambda>p t. make_tie_breaker d p = Inr t) (map fst (filter (\<lambda>e. snd e = []) g)) ts"
      by blast
    have "{y. \<exists>es. map_of ((k, []) # g) y = Some es \<and> a \<in> set es} = {y. \<exists>es. map_of g y = Some es \<and> a \<in> set es}" for a
      using k(3) by auto
    with IH t show ?thesis
      by (auto simp: True heap_push_def intro!: exI [of _ "t # ts"])
  next
    case False
    with 2(3) have rest: "populate d g (hm_insert k es outgoing) (add_incoming k es incoming) heap = Inr (outgoing', incoming', heap')"
      by simp
    have "k \<notin> dom (map_of (filter (\<lambda>e. snd e \<noteq> []) g))"
      using k(2) by (force dest: map_of_SomeD)
    then have upd: "map_of (hm_insert k es outgoing) ++ map_of (filter (\<lambda>e. snd e \<noteq> []) g) =
        map_of outgoing ++ map_of (filter (\<lambda>e. snd e \<noteq> []) ((k, es) # g))"
      using False by (simp add: map_add_upd_left)
    have "{y. \<exists>es'. map_of ((k, es) # g) y = Some es' \<and> a \<in> set es'} =
        {y. \<exists>es. map_of g y = Some es \<and> a \<in> set es} \<union> (if a \<in> set es then {k} else {})" for a
      using k(3) by auto
    moreover have "filter (\<lambda>e. snd e = []) ((k, es) # g) = filter (\<lambda>e. snd e = []) g"
      using False by simp
    ultimately show ?thesis
      using 2(2) [OF False rest k(1)] unfolding upd set_add_incoming distinct_add_incoming
      by (simp only: Un_ac simp_thms)
  qed
qed

lemma populate_Inl:
  "populate d g outgoing incoming heap = Inl x \<Longrightarrow> \<exists>k\<in>set (hm_keys g). \<exists>e. x = Err e \<and> d k = Inl e"
  by (induction d g outgoing incoming heap rule: populate.induct)
    (auto simp: rbind_Inl_iff split: if_splits dest!: make_tie_breaker_Inl)

lemma edges_of_cases:
  "map_of g y = Some es \<Longrightarrow> edges_of g y = set es" "map_of g y = None \<Longrightarrow> edges_of g y = {}"
  by (simp_all add: edges_of_def)

lemma finite_edges_of [simp]: "finite (edges_of g y)"
  unfolding edges_of_def by (rule finite_set)

lemma map_of_filter_snd:
  "hm_wf g \<Longrightarrow> map_of (filter (\<lambda>e. P (snd e)) g) k = (case map_of g k of None \<Rightarrow> None | Some v \<Rightarrow> if P v then Some v else None)"
  by (induction g) (auto simp: map_of_eq_None_iff split: option.splits)

lemma kahn_inv_init:
  assumes "populate d g [] [] [] = Inr (outgoing, incoming, heap)" "hm_wf g"
  shows "kahn_inv g d incoming outgoing heap []"
proof -
  from populate_Inr [OF assms] obtain ts where
    out: "map_of outgoing = map_of (filter (\<lambda>e. snd e \<noteq> []) g)" and
    inc: "\<And>a. set (parents_of incoming a) = {y. \<exists>es. map_of g y = Some es \<and> a \<in> set es}"
      "\<And>a. distinct (parents_of incoming a)" and
    ts: "heap = rev ts"
      "list_all2 (\<lambda>p t. make_tie_breaker d p = Inr t) (map fst (filter (\<lambda>e. snd e = []) g)) ts"
    by (auto simp: parents_of_def)
  note ids = tie_breakers_of [OF ts(2)]
  have key: "y \<in> fst ` set g \<longleftrightarrow> map_of g y \<noteq> None" for y by (simp add: map_of_eq_None_iff)
  have empty: "y \<in> fst ` set (filter (\<lambda>e. snd e = []) g) \<longleftrightarrow> map_of g y = Some []" for y
    using assms(2) by (force simp: map_of_eq_Some_iff)
  have "tb_event_id ` set heap = set (map tb_event_id ts)" by (simp add: ts(1))
  also have "\<dots> = {y. map_of g y = Some []}" unfolding ids(1) using empty by auto
  also have "\<dots> = {y. ready g [] y}"
  proof (rule Collect_cong)
    show "map_of g y = Some [] \<longleftrightarrow> ready g [] y" for y
      by (cases "map_of g y") (auto simp: ready_def key edges_of_cases)
  qed
  finally have "tb_event_id ` set heap = {y. ready g [] y}" .
  moreover have "distinct (map tb_event_id heap)"
    using assms(2) by (simp add: ts(1) ids(1) distinct_map_filter flip: rev_map)
  moreover have "dom (map_of outgoing) = {y \<in> set (hm_keys g). y \<notin> set [] \<and> \<not> edges_of g y \<subseteq> set []}"
  proof (rule set_eqI)
    show "y \<in> dom (map_of outgoing) \<longleftrightarrow> y \<in> {y \<in> set (hm_keys g). y \<notin> set [] \<and> \<not> edges_of g y \<subseteq> set []}" for y
      using assms(2) map_of_filter_snd [where P = "\<lambda>es. es \<noteq> []", of g y]
      by (cases "map_of g y") (auto simp: out key edges_of_cases)
  qed
  moreover have "set es = edges_of g y - set []" if "map_of outgoing y = Some es" for y es
    using that assms(2) map_of_filter_snd [where P = "\<lambda>es. es \<noteq> []", of g y]
    by (cases "map_of g y") (auto simp: out edges_of_cases split: if_splits)
  moreover have "set (parents_of incoming a) = {y \<in> set (hm_keys g). a \<in> edges_of g y}" for a
  proof (rule set_eqI)
    show "y \<in> set (parents_of incoming a) \<longleftrightarrow> y \<in> {y \<in> set (hm_keys g). a \<in> edges_of g y}" for y
      unfolding inc(1) by (cases "map_of g y") (auto simp: key edges_of_cases)
  qed
  ultimately show ?thesis
    using inc(2) ids(2) by (simp add: kahn_inv_def ts(1))
qed

lemma sort_outcome_holds:
  assumes "is_hash_order hash_order" "hm_wf g"
  shows "sort_outcome g d (reverse_topological_power_sort hash_order g d)"
proof (cases "populate d g [] [] []")
  case (Inl x)
  from populate_Inl [OF this] obtain k e where "k \<in> set (hm_keys g)" "x = Err e" "d k = Inl e"
    by blast
  with Inl show ?thesis
    unfolding reverse_topological_power_sort_def sort_outcome_def by (simp only: rbind_simps sum.case fail.case) blast
next
  case (Inr r)
  obtain outgoing incoming heap where r: "r = (outgoing, incoming, heap)" by (cases r)
  with Inr kahn_outcome [OF assms(1) kahn_inv_init [OF _ assms(2)]] show ?thesis
    by (simp add: reverse_topological_power_sort_def)
qed

section \<open>Uniqueness, completeness and minimality of the ordering\<close>

definition same_graph :: "'id graph \<Rightarrow> 'id graph \<Rightarrow> bool" where
  "same_graph g g' \<longleftrightarrow> set (hm_keys g) = set (hm_keys g') \<and> (\<forall>y. edges_of g y = edges_of g' y)"

lemma same_graph_ready: "same_graph g g' \<Longrightarrow> ready g = ready g'"
  by (simp add: same_graph_def ready_def fun_eq_iff)

lemma power_ordering_cong: "same_graph g g' \<Longrightarrow> power_ordering g d xs = power_ordering g' d xs"
  by (simp add: power_ordering_def greedy_def same_graph_ready)

lemma greedy_prefix:
  assumes "greedy g d xs" "power_ordering g d ys"
  shows "\<exists>zs. ys = xs @ zs"
  using assms(1)
proof (induction xs rule: rev_induct)
  case (snoc x xs)
  then obtain zs where zs: "ys = xs @ zs" and x: "ready g xs x" "\<And>z. ready g xs z \<Longrightarrow> id_le d x z"
    by (auto simp: greedy_snoc)
  from x(1) zs assms(2) obtain z zs' where z: "zs = z # zs'"
    by (cases zs) (auto simp: power_ordering_def)
  with zs assms(2) have "ready g xs z" "id_le d z x"
    using x(1) by (auto simp: power_ordering_def greedy_def)
  with x(2) have "x = z" by (blast intro: id_le_antisym)
  with zs z show ?case by simp
qed simp

lemma power_ordering_unique:
  assumes "power_ordering g d xs" "power_ordering g d ys"
  shows "xs = ys"
proof -
  have "greedy g d xs" "greedy g d ys" using assms by (simp_all add: power_ordering_def)
  with assms greedy_prefix [of g d xs ys] greedy_prefix [of g d ys xs] show ?thesis by auto
qed

definition dependencies :: "'id graph \<Rightarrow> ('id \<times> 'id) set" where
  "dependencies g = {(a, y). y \<in> set (hm_keys g) \<and> a \<in> edges_of g y}"

definition closed_graph :: "'id graph \<Rightarrow> bool" where
  "closed_graph g \<longleftrightarrow> (\<forall>y\<in>set (hm_keys g). edges_of g y \<subseteq> set (hm_keys g))"

text \<open>The topological orderings of a graph: every event comes after its auth events.\<close>

definition topological :: "'id graph \<Rightarrow> 'id list \<Rightarrow> bool" where
  "topological g xs \<longleftrightarrow> distinct xs \<and> set xs = set (hm_keys g)
     \<and> (\<forall>us y vs. xs = us @ y # vs \<longrightarrow> edges_of g y \<subseteq> set us)"

text \<open>
  The comparison of the specification: the greater power level of the sender, then the earlier
  timestamp, then the smaller event ID.
\<close>

definition power_before :: "('id::linorder, 'e) event_details \<Rightarrow> 'id \<Rightarrow> 'id \<Rightarrow> bool" where
  "power_before d a b \<longleftrightarrow>
     (\<exists>pa ta pb tb. d a = Inr (pa, ta) \<and> d b = Inr (pb, tb)
        \<and> (pb < pa \<or> pa = pb \<and> (ta < tb \<or> ta = tb \<and> a \<le> b)))"

definition lex_le :: "('id::linorder, 'e) event_details \<Rightarrow> 'id list \<Rightarrow> 'id list \<Rightarrow> bool" where
  "lex_le d xs ys \<longleftrightarrow> xs = ys
     \<or> (\<exists>us x y xs' ys'. xs = us @ x # xs' \<and> ys = us @ y # ys' \<and> x \<noteq> y \<and> power_before d x y)"

lemma id_le_power_before: "id_le d a b \<longleftrightarrow> power_before d a b"
  by (cases "d a"; cases "d b")
    (auto simp: id_le_def power_before_def make_tie_breaker_def tie_breaker_cmp_def)

lemma wf_dependencies:
  assumes "acyclic (dependencies g)"
  shows "wf (dependencies g)"
proof (rule finite_acyclic_wf [OF _ assms])
  have "dependencies g \<subseteq> (\<Union>y\<in>set (hm_keys g). edges_of g y \<times> {y})"
    by (auto simp: dependencies_def)
  then show "finite (dependencies g)"
    by (rule finite_subset) simp
qed

lemma power_ordering_complete:
  assumes po: "power_ordering g d xs" and "closed_graph g" "acyclic (dependencies g)"
  shows "set xs = set (hm_keys g)"
proof (rule ccontr)
  assume "set xs \<noteq> set (hm_keys g)"
  then obtain y where "y \<in> set (hm_keys g) - set xs"
    using greedy_distinct [of g d xs] po by (auto simp: power_ordering_def)
  then obtain z where z: "z \<in> set (hm_keys g) - set xs"
    and min: "\<And>a. (a, z) \<in> dependencies g \<Longrightarrow> a \<notin> set (hm_keys g) - set xs"
    using wfE_min [OF wf_dependencies [OF assms(3)]] by metis
  from z assms(2) have "edges_of g z \<subseteq> set (hm_keys g)" unfolding closed_graph_def by blast
  with z min have "ready g xs z"
    unfolding ready_def dependencies_def by blast
  with po show False by (simp add: power_ordering_def)
qed

lemma power_ordering_topological:
  assumes "power_ordering g d xs" "set xs = set (hm_keys g)"
  shows "topological g xs"
  using assms greedy_distinct [of g d xs] unfolding power_ordering_def greedy_def topological_def ready_def
  by blast

lemma power_ordering_minimal:
  assumes po: "power_ordering g d xs" and xs: "topological g xs" and ys: "topological g ys"
  shows "lex_le d xs ys"
proof -
  obtain us xs' ys' where eq: "xs = us @ xs'" "ys = us @ ys'"
    and hd: "xs' = [] \<or> ys' = [] \<or> hd xs' \<noteq> hd ys'"
    using longest_common_prefix [of xs ys] by blast
  have "set xs = set ys" "distinct xs" "distinct ys"
    using xs ys by (auto simp: topological_def)
  then have "length xs = length ys" by (metis distinct_card)
  with eq have len: "length xs' = length ys'" by simp
  show ?thesis
  proof (cases xs')
    case Nil
    with eq len show ?thesis by (simp add: lex_le_def)
  next
    case (Cons x xt)
    with len obtain y yt where y: "ys' = y # yt" by (cases ys') auto
    with ys eq have "edges_of g y \<subseteq> set us" "y \<in> set (hm_keys g)" "y \<notin> set us"
      by (auto simp: topological_def)
    then have "ready g us y" by (simp add: ready_def)
    moreover have "xs = us @ x # xt" using eq Cons by simp
    ultimately have "id_le d x y" using po unfolding power_ordering_def greedy_def by blast
    then have "power_before d x y" by (simp add: id_le_power_before)
    with eq Cons y hd show ?thesis unfolding lex_le_def by auto
  qed
qed

lemma sort_returns:
  assumes "is_hash_order hash_order" "hm_wf g" "\<forall>k\<in>set (hm_keys g). is_ok (d k)"
  shows "\<exists>xs. reverse_topological_power_sort hash_order g d = Inr xs \<and> power_ordering g d xs"
proof (cases "reverse_topological_power_sort hash_order g d")
  case (Inl x)
  with sort_outcome_holds [OF assms(1,2), of d] obtain k e where "k \<in> set (hm_keys g)" "d k = Inl e"
    unfolding sort_outcome_def by (cases x) auto
  then have "\<not> is_ok (d k)" by simp
  with \<open>k \<in> set (hm_keys g)\<close> assms(3) show ?thesis by blast
next
  case (Inr xs)
  with sort_outcome_holds [OF assms(1,2), of d] show ?thesis by (simp add: sort_outcome_def)
qed

section \<open>Properties\<close>

definition example_graph :: "nat graph" where
  "example_graph = [(1, []), (2, [1]), (3, [1]), (4, [2, 3])]"

definition example_details :: "(nat, unit) event_details" where
  "example_details i = Inr (PowerLevelInt (int i), 10 - i)"

lemma example_graph_props:
  "hm_wf example_graph" "closed_graph example_graph" "acyclic (dependencies example_graph)"
proof -
  show "hm_wf example_graph" "closed_graph example_graph"
    by (auto simp: example_graph_def closed_graph_def edges_of_def)
  have "(a, y) \<in> dependencies example_graph \<Longrightarrow> a < y" for a y
    by (auto simp: dependencies_def example_graph_def edges_of_def split: if_splits)
  then show "acyclic (dependencies example_graph)"
    by (intro acyclicI_order [where f = "\<lambda>n. - int n"]) auto
qed

text \<open>
  Kahn's algorithm never panics. For every graph, every iteration order of the hash sets and
  every function for the details of events, the sort terminates and returns either an
  error that the details of one of the graph's events produced, or a list in which each event is
  the smallest of those whose auth events all precede it, and after which no event is left that
  could follow.
\<close>

theorem reverse_topological_power_sort_outcome:
  assumes "is_hash_order hash_order" "hm_wf g"
  shows "case reverse_topological_power_sort hash_order g d of
      Inr xs \<Rightarrow> greedy g d xs \<and> (\<forall>z. \<not> ready g xs z)
    | Inl (Err e) \<Rightarrow> (\<exists>k\<in>set (hm_keys g). d k = Inl e)
    | Inl Panic \<Rightarrow> False"
  using sort_outcome_holds [OF assms, of d]
  by (simp add: sort_outcome_def power_ordering_def split: sum.splits fail.splits)

theorem reverse_topological_power_sort_outcome_witness:
  "greedy example_graph example_details [1, 3, 2, 4]"
proof -
  have "reverse_topological_power_sort rev example_graph example_details = Inr [1, 3, 2, 4]"
    by code_simp
  with reverse_topological_power_sort_outcome [of rev example_graph example_details] example_graph_props(1)
  show ?thesis by simp
qed

text \<open>
  (C4) The reverse topological power ordering of the specification. On an acyclic graph that contains
  the auth events it mentions, when the details of all events are known, the sort returns every
  event exactly once, each after its auth events, and the list is the lexicographically smallest
  of all topological orderings for the comparison by power level, timestamp and event ID.
\<close>

theorem reverse_topological_power_sort_correct:
  assumes "is_hash_order hash_order" "hm_wf g" "closed_graph g" "acyclic (dependencies g)"
    and "\<forall>k\<in>set (hm_keys g). is_ok (d k)"
  shows "\<exists>xs. reverse_topological_power_sort hash_order g d = Inr xs
    \<and> topological g xs \<and> (\<forall>ys. topological g ys \<longrightarrow> lex_le d xs ys)"
proof -
  obtain xs where xs: "reverse_topological_power_sort hash_order g d = Inr xs" "power_ordering g d xs"
    using sort_returns [OF assms(1,2,5)] by blast
  have top: "topological g xs"
    by (rule power_ordering_topological [OF xs(2) power_ordering_complete [OF xs(2) assms(3,4)]])
  with xs(1) power_ordering_minimal [OF xs(2) top] show ?thesis by blast
qed

theorem reverse_topological_power_sort_correct_witness:
  "\<exists>xs. reverse_topological_power_sort rev example_graph example_details = Inr xs
     \<and> topological example_graph xs"
proof -
  have "\<forall>k\<in>set (hm_keys example_graph). is_ok (example_details k)"
    by (simp add: example_details_def)
  from reverse_topological_power_sort_correct [OF is_hash_order_id(3) example_graph_props this]
  show ?thesis by blast
qed

text \<open>
  The order in which hash maps and hash sets are iterated does not matter: two runs on the same
  graph, however it and the sets built on the way are ordered, return the same list.
\<close>

theorem reverse_topological_power_sort_order_independent:
  assumes "is_hash_order hash_order" "is_hash_order hash_order'" "hm_wf g" "hm_wf g'"
    and "same_graph g g'" "\<forall>k\<in>set (hm_keys g). is_ok (d k)"
  shows "reverse_topological_power_sort hash_order g d = reverse_topological_power_sort hash_order' g' d"
proof -
  from assms(5,6) have "\<forall>k\<in>set (hm_keys g'). is_ok (d k)" by (simp add: same_graph_def)
  with sort_returns [OF assms(1,3,6)] sort_returns [OF assms(2,4)] obtain xs ys where
    "reverse_topological_power_sort hash_order g d = Inr xs" "power_ordering g d xs"
    "reverse_topological_power_sort hash_order' g' d = Inr ys" "power_ordering g d ys"
    using power_ordering_cong [OF assms(5)] by metis
  then show ?thesis using power_ordering_unique by metis
qed

theorem reverse_topological_power_sort_order_independent_witness:
  "reverse_topological_power_sort rev example_graph example_details =
   reverse_topological_power_sort id (rev example_graph) example_details"
proof (rule reverse_topological_power_sort_order_independent)
  show "same_graph example_graph (rev example_graph)"
    by (auto simp: same_graph_def example_graph_def edges_of_def)
  show "hm_wf (rev example_graph)" using example_graph_props(1) by (simp flip: rev_map)
qed (simp_all add: example_graph_props example_details_def)

end
