(* ===== verification/Resolve.thy ===== *)
theory Resolve
  imports Event_Auth Topo_Sort "HOL-Library.Option_ord" "HOL-Library.Product_Lexorder"
begin

text \<open>
  State resolution, \<open>common-state-res/src/resolve.rs\<close>. State maps are association lists with distinct
  keys. The iteration order of the hash sets and hash maps of event IDs that the algorithm builds is
  the parameter \<open>hash_order\<close>. The two loops along the chain of power levels events end only
  if that chain does, so they are partial: \<open>None\<close> is a run that does not end.
\<close>

section \<open>Results of runs\<close>

datatype state_res_error =
  NotFound string | AuthEvent auth_error | MissingStateKey | FetchConflictedStateSubgraphFailed

type_synonym 'a res = "state_res_error fail + 'a"

definition obind :: "'a res option \<Rightarrow> ('a \<Rightarrow> 'b res option) \<Rightarrow> 'b res option" where
  "obind m f = (case m of None \<Rightarrow> None | Some (Inl e) \<Rightarrow> Some (Inl e) | Some (Inr a) \<Rightarrow> f a)"

lemma obind_simps [simp]:
  "obind None f = None" "obind (Some (Inl e)) f = Some (Inl e)" "obind (Some (Inr a)) f = f a"
  by (simp_all add: obind_def)

lemma obind_Inr_iff: "obind m f = Some (Inr b) \<longleftrightarrow> (\<exists>a. m = Some (Inr a) \<and> f a = Some (Inr b))"
  by (auto simp: obind_def split: option.splits sum.splits)

type_synonym state_key = "string \<times> string"

type_synonym 'v state_map = "(state_key \<times> 'v) list"

section \<open>The conflicted state\<close>

type_synonym occurrences = "(state_key \<times> (string \<times> nat) list) list"

definition count_occurrence :: "state_key \<times> string \<Rightarrow> occurrences \<Rightarrow> occurrences" where
  "count_occurrence = (\<lambda>(k, v). hm_modify_or k (hm_modify_or v (\<lambda>x. x + 1) 1) [(v, 1)])"

definition split_id :: "nat \<Rightarrow> state_key \<Rightarrow> string \<times> nat
    \<Rightarrow> string state_map \<times> string list state_map \<Rightarrow> string state_map \<times> string list state_map" where
  "split_id state_set_count k = (\<lambda>(id, occurrence_count) (unconflicted, conflicted).
     if occurrence_count = state_set_count then (hm_insert k id unconflicted, conflicted)
     else (unconflicted, hm_modify_or k (\<lambda>x. x @ [id]) [id] conflicted))"

definition split_conflicted_state_set ::
  "string state_map list \<Rightarrow> string state_map \<times> string list state_map" where
  "split_conflicted_state_set state_maps =
     fold (\<lambda>(k, v). fold (split_id (length state_maps) k) v)
       (fold count_occurrence (concat state_maps) []) ([], [])"

definition auth_difference :: "string list list \<Rightarrow> string list" where
  "auth_difference auth_chains =
     (let num_sets = length auth_chains;
          id_counts = fold (\<lambda>id. hm_modify_or id (\<lambda>x. x + 1) 1) (concat auth_chains) []
      in map fst (filter (\<lambda>(id, count). count < num_sets) id_counts))"

section \<open>Power events\<close>

definition is_type_and_key :: "event \<Rightarrow> string \<Rightarrow> string \<Rightarrow> bool" where
  "is_type_and_key e event_type state_key \<longleftrightarrow>
     ev_event_type e = event_type \<and> ev_state_key e = Some state_key"

definition is_power_event :: "ext \<Rightarrow> event \<Rightarrow> bool" where
  "is_power_event X e =
     (if ev_event_type e \<in> {''m.room.power_levels'', ''m.room.join_rules'', ''m.room.create''}
      then ev_state_key e = Some []
      else if ev_event_type e = ''m.room.member'' then
        (case membership X e of
           Inl _ \<Rightarrow> False
         | Inr m \<Rightarrow> m \<in> {MLeave, MBan} \<and> Some (ev_sender e) \<noteq> ev_state_key e)
      else False)"

definition is_power_event_id :: "ext \<Rightarrow> fetch_event \<Rightarrow> string \<Rightarrow> bool" where
  "is_power_event_id X fetch event_id =
     (case fetch event_id of None \<Rightarrow> False | Some e \<Rightarrow> is_power_event X e)"

section \<open>The graph of conflicted power events\<close>

definition auth_events_of :: "fetch_event \<Rightarrow> string \<Rightarrow> string list" where
  "auth_events_of fetch event_id = (case fetch event_id of None \<Rightarrow> [] | Some e \<Rightarrow> ev_auth_events e)"

text \<open>
  The inner loop over the auth events. The entry of the event was added to the graph before, so
  that \<open>unwrap\<close> does not panic. The last element of the stack is its head here.
\<close>

fun add_auth_events_to_graph :: "string list \<Rightarrow> string \<Rightarrow> string list \<Rightarrow> string graph \<Rightarrow> string list
    \<Rightarrow> string graph \<times> string list" where
  "add_auth_events_to_graph full_conflicted_set event_id [] graph state = (graph, state)"
| "add_auth_events_to_graph full_conflicted_set event_id (auth_event_id # auth_events) graph state =
     (if auth_event_id \<in> set full_conflicted_set then
        add_auth_events_to_graph full_conflicted_set event_id auth_events
          (hm_modify_or event_id (set_insert auth_event_id) [auth_event_id] graph)
          (if hm_contains graph auth_event_id then state else auth_event_id # state)
      else add_auth_events_to_graph full_conflicted_set event_id auth_events graph state)"

lemma add_auth_events_keys:
  assumes "add_auth_events_to_graph full e as g st = (g', st')"
  shows "fst ` set g' \<subseteq> insert e (fst ` set g)" "fst ` set g \<subseteq> fst ` set g'"
    and "\<exists>new. st' = new @ st \<and> set new \<subseteq> set full \<inter> set as - fst ` set g"
proof -
  from assms have "fst ` set g' \<subseteq> insert e (fst ` set g) \<and> fst ` set g \<subseteq> fst ` set g'
    \<and> (\<exists>new. st' = new @ st \<and> set new \<subseteq> set full \<inter> set as - fst ` set g)"
  proof (induction full e as g st rule: add_auth_events_to_graph.induct)
    case (2 full e a as g st)
    let ?g = "hm_modify_or e (set_insert a) [a] g"
    have keys: "fst ` set ?g = insert e (fst ` set g)"
      by (simp add: hm_modify_or_def split: option.splits)
    show ?case
    proof (cases "a \<in> set full")
      case True
      let ?st = "if hm_contains g a then st else a # st"
      from True 2(3) have step: "add_auth_events_to_graph full e as ?g ?st = (g', st')" by simp
      from 2(1) [OF True step] obtain new where
        "fst ` set g' \<subseteq> insert e (fst ` set ?g)" "fst ` set ?g \<subseteq> fst ` set g'"
        "st' = new @ ?st" "set new \<subseteq> set full \<inter> set as - fst ` set ?g" by blast
      with True keys show ?thesis
        by (intro conjI exI [of _ "if hm_contains g a then new else new @ [a]"]) auto
    next
      case False
      with 2 show ?thesis by auto
    qed
  qed auto
  then show "fst ` set g' \<subseteq> insert e (fst ` set g)" "fst ` set g \<subseteq> fst ` set g'"
    and "\<exists>new. st' = new @ st \<and> set new \<subseteq> set full \<inter> set as - fst ` set g" by blast+
qed

definition unvisited :: "string list \<Rightarrow> string graph \<Rightarrow> string list \<Rightarrow> nat" where
  "unvisited full g st = card (set full \<union> set st - fst ` set g)"

definition revisits :: "string graph \<Rightarrow> string list \<Rightarrow> nat" where
  "revisits g st = length (filter (\<lambda>x. x \<in> fst ` set g) st)"

lemma add_auth_events_visit:
  assumes "add_auth_events_to_graph full e as (hm_modify_or e (\<lambda>x. x) [] g) st = (g', st')"
  obtains new where "fst ` set g' = insert e (fst ` set g)" "st' = new @ st"
    "set new \<subseteq> set full \<inter> set as - insert e (fst ` set g)"
proof -
  have g: "fst ` set (hm_modify_or e (\<lambda>x. x) [] g) = insert e (fst ` set g)"
    by (simp add: hm_modify_or_def split: option.splits)
  note keys = add_auth_events_keys [OF assms, unfolded g]
  from keys(1,2) have "fst ` set g' = insert e (fst ` set g)" by simp
  with keys(3) that show thesis by blast
qed

lemma add_chain_measure:
  assumes "add_auth_events_to_graph full e as (hm_modify_or e (\<lambda>x. x) [] g) st = (g', st')"
  shows "unvisited full g' st' < unvisited full g (e # st)
    \<or> unvisited full g' st' \<le> unvisited full g (e # st) \<and> revisits g' st' < revisits g (e # st)"
proof -
  from add_auth_events_visit [OF assms] obtain new where keys: "fst ` set g' = insert e (fst ` set g)"
    and new: "st' = new @ st" "set new \<subseteq> set full \<inter> set as - insert e (fst ` set g)" .
  show ?thesis
  proof (cases "e \<in> fst ` set g")
    case True
    then have eq: "fst ` set g' = fst ` set g" using keys by auto
    have "filter (\<lambda>x. x \<in> fst ` set g) new = []" using new(2) by (auto simp: filter_empty_conv)
    then have "revisits g' st' < revisits g (e # st)"
      using True unfolding revisits_def eq new(1) by simp
    moreover have "unvisited full g' st' \<le> unvisited full g (e # st)"
      unfolding unvisited_def eq using new by (intro card_mono) auto
    ultimately show ?thesis by blast
  next
    case False
    then have "set full \<union> set st' - fst ` set g' \<subset> set full \<union> set (e # st) - fst ` set g"
      using new unfolding keys by auto
    then show ?thesis unfolding unvisited_def by (intro disjI1 psubset_card_mono) simp
  qed
qed

text \<open>
  The outer loop. An event may be on the stack more than once; it is visited again each time, but
  then only the number of stacked events that are in the graph goes down.
\<close>

function add_chain_to_graph :: "fetch_event \<Rightarrow> string list \<Rightarrow> string graph \<Rightarrow> string list \<Rightarrow> string graph" where
  "add_chain_to_graph fetch full_conflicted_set graph [] = graph"
| "add_chain_to_graph fetch full_conflicted_set graph (event_id # state) =
     (case add_auth_events_to_graph full_conflicted_set event_id (auth_events_of fetch event_id)
             (hm_modify_or event_id (\<lambda>x. x) [] graph) state of
        (graph', state') \<Rightarrow> add_chain_to_graph fetch full_conflicted_set graph' state')"
  by pat_completeness auto
termination
proof (relation "measures
    [\<lambda>(fetch, full, g, st). unvisited full g st, \<lambda>(fetch, full, g, st). revisits g st]", simp)
  fix fetch :: fetch_event and full g e st g' st'
  assume "(g', st') = add_auth_events_to_graph full e (auth_events_of fetch e) (hm_modify_or e (\<lambda>x. x) [] g) st"
  from add_chain_measure [OF this [symmetric]]
  show "((fetch, full, g', st'), fetch, full, g, e # st) \<in> measures
    [\<lambda>(fetch, full, g, st). unvisited full g st, \<lambda>(fetch, full, g, st). revisits g st]"
    by (auto simp: le_less)
qed

definition add_event_and_auth_chain_to_graph ::
  "string graph \<Rightarrow> string \<Rightarrow> string list \<Rightarrow> fetch_event \<Rightarrow> string graph" where
  "add_event_and_auth_chain_to_graph graph event_id full_conflicted_set fetch =
     add_chain_to_graph fetch full_conflicted_set graph [event_id]"

section \<open>Sorting power events\<close>

text \<open>The loop over the auth events in \<open>power_level_for_sender\<close>.\<close>

fun scan_auth_events :: "fetch_event \<Rightarrow> authorization_rules \<Rightarrow> bool \<Rightarrow> string list
    \<Rightarrow> event option \<Rightarrow> event option \<Rightarrow> event option \<times> event option" where
  "scan_auth_events fetch rules known_creators [] room_create_event room_power_levels_event =
     (room_create_event, room_power_levels_event)"
| "scan_auth_events fetch rules known_creators (auth_event_id # auth_events)
       room_create_event room_power_levels_event =
     (case fetch auth_event_id of
        None \<Rightarrow> scan_auth_events fetch rules known_creators auth_events room_create_event room_power_levels_event
      | Some auth_event \<Rightarrow>
          let (room_create_event, room_power_levels_event) =
                (if is_type_and_key auth_event ''m.room.power_levels'' [] then (room_create_event, Some auth_event)
                 else if \<not> room_create_event_id_as_room_id rules \<and> \<not> known_creators
                         \<and> is_type_and_key auth_event ''m.room.create'' []
                 then (Some auth_event, room_power_levels_event)
                 else (room_create_event, room_power_levels_event))
          in if room_power_levels_event \<noteq> None
                \<and> (room_create_event_id_as_room_id rules \<or> known_creators \<or> room_create_event \<noteq> None)
             then (room_create_event, room_power_levels_event)
             else scan_auth_events fetch rules known_creators auth_events room_create_event room_power_levels_event)"

definition create_event_of_room :: "ext \<Rightarrow> fetch_event \<Rightarrow> event \<Rightarrow> event option" where
  "create_event_of_room X fetch e =
     Option.bind (ev_room_id e) (\<lambda>room_id.
       case room_create_event_id X room_id of Inl _ \<Rightarrow> None | Inr create_id \<Rightarrow> fetch create_id)"

text \<open>The lock that caches the creators is passed along.\<close>

definition power_level_for_sender :: "ext \<Rightarrow> string \<Rightarrow> authorization_rules \<Rightarrow> string list option
    \<Rightarrow> fetch_event \<Rightarrow> auth_error + (user_power_level \<times> string list option)" where
  "power_level_for_sender X event_id rules creators_lock fetch =
     (let event = fetch event_id;
          create0 = (case event of
             Some e \<Rightarrow> if room_create_event_id_as_room_id rules \<and> creators_lock = None
                        then create_event_of_room X fetch e else None
           | None \<Rightarrow> None);
          (room_create_event, room_power_levels_event) =
            scan_auth_events fetch rules (creators_lock \<noteq> None) (auth_events_of fetch event_id) create0 None
      in rbind (case creators_lock of
                  Some cs \<Rightarrow> Inr (Some cs)
                | None \<Rightarrow>
                    (case room_create_event of
                       Some create \<Rightarrow> map_ok Some (creators X rules create)
                     | None \<Rightarrow> Inr None)) (\<lambda>room_creators.
         case (event, room_creators) of
           (Some e, Some cs) \<Rightarrow>
             map_ok (\<lambda>pl. (pl, room_creators)) (user_power_level X rules room_power_levels_event (ev_sender e) cs)
         | _ \<Rightarrow>
             map_ok (\<lambda>pl. (PowerLevelInt pl, room_creators))
               (option_get_as_int_or_default X rules room_power_levels_event UsersDefault)))"

fun power_levels_of_senders :: "ext \<Rightarrow> authorization_rules \<Rightarrow> fetch_event \<Rightarrow> string list
    \<Rightarrow> string list option \<Rightarrow> (string \<times> user_power_level) list
    \<Rightarrow> state_res_error + (string \<times> user_power_level) list" where
  "power_levels_of_senders X rules fetch [] creators_lock event_to_power_level = Inr event_to_power_level"
| "power_levels_of_senders X rules fetch (event_id # event_ids) creators_lock event_to_power_level =
     rbind (map_err AuthEvent (power_level_for_sender X event_id rules creators_lock fetch))
       (\<lambda>(sender_power_level, creators_lock).
     power_levels_of_senders X rules fetch event_ids creators_lock
       (hm_insert event_id sender_power_level event_to_power_level))"

definition power_event_details :: "fetch_event \<Rightarrow> (string \<times> user_power_level) list
    \<Rightarrow> (string, state_res_error) event_details" where
  "power_event_details fetch event_to_power_level event_id =
     (case fetch event_id of
        None \<Rightarrow> Inl (NotFound event_id)
      | Some e \<Rightarrow>
          (case map_of event_to_power_level event_id of
             None \<Rightarrow> Inl (NotFound event_id)
           | Some power_level \<Rightarrow> Inr (power_level, ev_origin_server_ts e)))"

text \<open>The graph in the iteration order of the hash map.\<close>

definition power_events_graph :: "(string list \<Rightarrow> string list) \<Rightarrow> string list \<Rightarrow> string list \<Rightarrow> fetch_event
    \<Rightarrow> string graph" where
  "power_events_graph hash_order conflicted_power_events full_conflicted_set fetch =
     (let graph = fold (\<lambda>event_id graph.
            add_event_and_auth_chain_to_graph graph event_id full_conflicted_set fetch) conflicted_power_events []
      in map (\<lambda>event_id. (event_id, the (map_of graph event_id))) (hash_order (hm_keys graph)))"

definition sort_power_events :: "ext \<Rightarrow> (string list \<Rightarrow> string list) \<Rightarrow> string list \<Rightarrow> string list
    \<Rightarrow> authorization_rules \<Rightarrow> fetch_event \<Rightarrow> string list res" where
  "sort_power_events X hash_order conflicted_power_events full_conflicted_set rules fetch =
     (let graph = power_events_graph hash_order conflicted_power_events full_conflicted_set fetch
      in rbind (map_err Err (power_levels_of_senders X rules fetch (hm_keys graph) None []))
           (\<lambda>event_to_power_level.
         reverse_topological_power_sort hash_order graph (power_event_details fetch event_to_power_level)))"

section \<open>Iterative auth checks\<close>

fun collect_auth_events :: "fetch_event \<Rightarrow> string list \<Rightarrow> event state_map \<Rightarrow> event state_map res" where
  "collect_auth_events fetch [] auth_events = Inr auth_events"
| "collect_auth_events fetch (auth_event_id # ids) auth_events =
     (case fetch auth_event_id of
        None \<Rightarrow> collect_auth_events fetch ids auth_events
      | Some auth_event \<Rightarrow>
          if ev_rejected auth_event then collect_auth_events fetch ids auth_events
          else case ev_state_key auth_event of
                 None \<Rightarrow> Inl (Err MissingStateKey)
               | Some k \<Rightarrow>
                   collect_auth_events fetch ids (hm_insert (ev_event_type auth_event, k) auth_event auth_events))"

definition add_room_create_event :: "ext \<Rightarrow> authorization_rules \<Rightarrow> fetch_event \<Rightarrow> event \<Rightarrow> event state_map
    \<Rightarrow> event state_map" where
  "add_room_create_event X rules fetch e auth_events =
     (if room_create_event_id_as_room_id rules \<and> ev_event_type e \<noteq> ''m.room.create'' then
        (case create_event_of_room X fetch e of
           Some create \<Rightarrow> hm_insert (''m.room.create'', []) create auth_events
         | None \<Rightarrow> auth_events)
      else auth_events)"

definition add_state_event :: "fetch_event \<Rightarrow> string state_map \<Rightarrow> state_key \<Rightarrow> event state_map \<Rightarrow> event state_map" where
  "add_state_event fetch state key auth_events =
     (case map_of state key of
        None \<Rightarrow> auth_events
      | Some auth_event_id \<Rightarrow>
          (case fetch auth_event_id of
             None \<Rightarrow> auth_events
           | Some auth_event \<Rightarrow>
               if ev_rejected auth_event then auth_events else hm_insert key auth_event auth_events))"

text \<open>One round of the loop.\<close>

definition auth_check_event :: "ext \<Rightarrow> authorization_rules \<Rightarrow> fetch_event \<Rightarrow> string \<Rightarrow> string state_map
    \<Rightarrow> string state_map res" where
  "auth_check_event X rules fetch event_id state =
     rbind (ok_or (fetch event_id) (Err (NotFound event_id))) (\<lambda>e.
     rbind (ok_or (ev_state_key e) (Err MissingStateKey)) (\<lambda>state_key.
     rbind (collect_auth_events fetch (ev_auth_events e) []) (\<lambda>auth_events.
     case auth_types_for_event X rules (ev_event_type e) (ev_sender e) (Some state_key) (ev_content e) of
       Inl _ \<Rightarrow> Inr state
     | Inr auth_types \<Rightarrow>
         let auth_events = fold (add_state_event fetch state) auth_types
               (add_room_create_event X rules fetch e auth_events)
         in case check_state_dependent_auth_rules X rules e (\<lambda>ty key. map_of auth_events (ty, key)) of
              Inr _ \<Rightarrow> Inr (hm_insert (ev_event_type e, state_key) event_id state)
            | Inl Panic \<Rightarrow> Inl Panic
            | Inl (Err _) \<Rightarrow> Inr state)))"

fun iterative_auth_checks :: "ext \<Rightarrow> authorization_rules \<Rightarrow> string list \<Rightarrow> string state_map \<Rightarrow> fetch_event
    \<Rightarrow> string state_map res" where
  "iterative_auth_checks X rules [] state fetch = Inr state"
| "iterative_auth_checks X rules (event_id # events) state fetch =
     rbind (auth_check_event X rules fetch event_id state) (\<lambda>state.
     iterative_auth_checks X rules events state fetch)"

section \<open>Mainline ordering\<close>

text \<open>
  The power levels event among the auth events, as the two loops look for it. When an auth event is
  missing, \<open>mainline_sort\<close> reports the ID of the event it belongs to.
\<close>

fun next_power_levels_id :: "fetch_event \<Rightarrow> string \<Rightarrow> string list \<Rightarrow> string option res" where
  "next_power_levels_id fetch power_level_event_id [] = Inr None"
| "next_power_levels_id fetch power_level_event_id (auth_event_id # auth_events) =
     (case fetch auth_event_id of
        None \<Rightarrow> Inl (Err (NotFound power_level_event_id))
      | Some auth_event \<Rightarrow>
          if is_type_and_key auth_event ''m.room.power_levels'' [] then Inr (Some auth_event_id)
          else next_power_levels_id fetch power_level_event_id auth_events)"

fun next_power_levels_event :: "fetch_event \<Rightarrow> string list \<Rightarrow> event option res" where
  "next_power_levels_event fetch [] = Inr None"
| "next_power_levels_event fetch (auth_event_id # auth_events) =
     (case fetch auth_event_id of
        None \<Rightarrow> Inl (Err (NotFound auth_event_id))
      | Some auth_event \<Rightarrow>
          if is_type_and_key auth_event ''m.room.power_levels'' [] then Inr (Some auth_event)
          else next_power_levels_event fetch auth_events)"

partial_function (option) mainline_of :: "fetch_event \<Rightarrow> string option \<Rightarrow> string list \<Rightarrow> string list res option" where
  "mainline_of fetch power_level mainline =
     (case power_level of
        None \<Rightarrow> Some (Inr mainline)
      | Some power_level_event_id \<Rightarrow>
          (case fetch power_level_event_id of
             None \<Rightarrow> Some (Inl (Err (NotFound power_level_event_id)))
           | Some power_level_event \<Rightarrow>
               (case next_power_levels_id fetch power_level_event_id (ev_auth_events power_level_event) of
                  Inl e \<Rightarrow> Some (Inl e)
                | Inr next \<Rightarrow> mainline_of fetch next (mainline @ [power_level_event_id]))))"

partial_function (option) mainline_position :: "event \<Rightarrow> (string \<times> nat) list \<Rightarrow> fetch_event \<Rightarrow> nat option res option" where
  "mainline_position e mainline_map fetch =
     (case map_of mainline_map (ev_event_id e) of
        Some position \<Rightarrow> Some (Inr (Some position))
      | None \<Rightarrow>
          (case next_power_levels_event fetch (ev_auth_events e) of
             Inl err \<Rightarrow> Some (Inl err)
           | Inr None \<Rightarrow> Some (Inr None)
           | Inr (Some auth_event) \<Rightarrow> mainline_position auth_event mainline_map fetch))"

declare mainline_of.simps [code] mainline_position.simps [code]

definition mainline_map_of :: "string list \<Rightarrow> (string \<times> nat) list" where
  "mainline_map_of mainline =
     fold (\<lambda>(idx, event_id). hm_insert event_id (idx + 1)) (enumerate 0 (rev mainline)) []"

type_synonym sort_position = "nat option \<times> nat option \<times> string"

text \<open>The positions of the events; an event that is missing or whose chain breaks off has none.\<close>

fun mainline_order_map :: "fetch_event \<Rightarrow> (string \<times> nat) list \<Rightarrow> string list \<Rightarrow> (string \<times> sort_position) list
    \<Rightarrow> (string \<times> sort_position) list res option" where
  "mainline_order_map fetch mainline_map [] order_map = Some (Inr order_map)"
| "mainline_order_map fetch mainline_map (event_id # events) order_map =
     (case fetch event_id of
        None \<Rightarrow> mainline_order_map fetch mainline_map events order_map
      | Some e \<Rightarrow>
          (case mainline_position e mainline_map fetch of
             None \<Rightarrow> None
           | Some (Inl _) \<Rightarrow> mainline_order_map fetch mainline_map events order_map
           | Some (Inr position) \<Rightarrow>
               mainline_order_map fetch mainline_map events
                 (hm_insert event_id (position, map_option ev_origin_server_ts (fetch event_id), event_id)
                    order_map)))"

definition mainline_sort :: "(string list \<Rightarrow> string list) \<Rightarrow> string list \<Rightarrow> string option \<Rightarrow> fetch_event
    \<Rightarrow> string list res option" where
  "mainline_sort hash_order events power_level fetch =
     (if events = [] then Some (Inr [])
      else
        obind (mainline_of fetch power_level []) (\<lambda>mainline.
        obind (mainline_order_map fetch (mainline_map_of mainline) events []) (\<lambda>order_map.
        Some (Inr (sort_key (\<lambda>event_id. the (map_of order_map event_id)) (hash_order (hm_keys order_map)))))))"

section \<open>State resolution\<close>

definition full_conflicted_set :: "(string list \<Rightarrow> string list) \<Rightarrow> string list list \<Rightarrow> string list state_map
    \<Rightarrow> string list \<Rightarrow> fetch_event \<Rightarrow> string list" where
  "full_conflicted_set hash_order auth_chains conflicted_state_set conflicted_state_subgraph fetch =
     hash_order (collect_set (filter (\<lambda>id. fetch id \<noteq> None)
       (auth_difference auth_chains @ concat (map snd conflicted_state_set) @ conflicted_state_subgraph)))"

text \<open>The steps from the full conflicted set on.\<close>

definition resolve_conflicts :: "ext \<Rightarrow> (string list \<Rightarrow> string list) \<Rightarrow> authorization_rules
    \<Rightarrow> state_resolution_v2_rules \<Rightarrow> string state_map \<Rightarrow> string list \<Rightarrow> fetch_event \<Rightarrow> string state_map res option" where
  "resolve_conflicts X hash_order auth_rules state_res_rules unconflicted_state_map full fetch =
     obind (Some (sort_power_events X hash_order (filter (is_power_event_id X fetch) full) full auth_rules fetch))
       (\<lambda>sorted_power_events.
     obind (Some (iterative_auth_checks X auth_rules sorted_power_events
              (if begin_iterative_auth_checks_with_empty_state_map state_res_rules then []
               else unconflicted_state_map) fetch)) (\<lambda>partially_resolved_state.
     let remaining_events = filter (\<lambda>id. id \<notin> set (collect_set sorted_power_events)) full;
         power_event = map_of partially_resolved_state (''m.room.power_levels'', [])
     in obind (mainline_sort hash_order remaining_events power_event fetch) (\<lambda>sorted_remaining_events.
        obind (Some (iterative_auth_checks X auth_rules sorted_remaining_events partially_resolved_state fetch))
          (\<lambda>resolved_state.
        Some (Inr (hm_extend resolved_state unconflicted_state_map))))))"

definition resolve :: "ext \<Rightarrow> (string list \<Rightarrow> string list) \<Rightarrow> authorization_rules \<Rightarrow> state_resolution_v2_rules
    \<Rightarrow> string state_map list \<Rightarrow> string list list \<Rightarrow> fetch_event
    \<Rightarrow> (string list state_map \<Rightarrow> string list option) \<Rightarrow> string state_map res option" where
  "resolve X hash_order auth_rules state_res_rules state_maps auth_chains fetch fetch_conflicted_state_subgraph =
     (case split_conflicted_state_set state_maps of
        (unconflicted_state_map, conflicted_state_set) \<Rightarrow>
          if conflicted_state_set = [] then Some (Inr unconflicted_state_map)
          else
            obind (Some (if consider_conflicted_state_subgraph state_res_rules
                         then ok_or (fetch_conflicted_state_subgraph conflicted_state_set)
                                (Err FetchConflictedStateSubgraphFailed)
                         else Inr [])) (\<lambda>conflicted_state_subgraph.
            resolve_conflicts X hash_order auth_rules state_res_rules unconflicted_state_map
              (full_conflicted_set hash_order auth_chains conflicted_state_set conflicted_state_subgraph fetch) fetch))"

end
