(* ===== verification/Conflict_Sets.thy ===== *)
theory Conflict_Sets
  imports Resolve
begin

text \<open>
  What the first steps of state resolution compute, as sets: the unconflicted and the conflicted
  state, the auth difference, and the graph of the conflicted power events.
\<close>

declare split_paired_All [simp del] split_paired_Ex [simp del]

section \<open>Counting occurrences\<close>

definition occ_count :: "occurrences \<Rightarrow> state_key \<Rightarrow> string \<Rightarrow> nat" where
  "occ_count occ k v =
     (case map_of occ k of None \<Rightarrow> 0 | Some vm \<Rightarrow> (case map_of vm v of None \<Rightarrow> 0 | Some n \<Rightarrow> n))"

definition occ_wf :: "occurrences \<Rightarrow> bool" where
  "occ_wf occ \<longleftrightarrow> hm_wf occ \<and> (\<forall>k vm. map_of occ k = Some vm \<longrightarrow> hm_wf vm \<and> (\<forall>v n. map_of vm v = Some n \<longrightarrow> 0 < n))"

lemma count_occurrence_step:
  assumes "occ_wf occ"
  shows "occ_wf (count_occurrence (k, v) occ)"
    and "occ_count (count_occurrence (k, v) occ) k' v' = occ_count occ k' v' + (if (k', v') = (k, v) then 1 else 0)"
  using assms
  by (auto simp: count_occurrence_def occ_wf_def occ_count_def map_of_hm_modify_or
      simp del: map_of_eq_Some_iff split: option.splits if_splits)

lemma count_occurrences:
  assumes "occ_wf occ"
  shows "occ_wf (fold count_occurrence es occ)
    \<and> occ_count (fold count_occurrence es occ) k v = occ_count occ k v + count_list es (k, v)"
  using assms
proof (induction es arbitrary: occ)
  case (Cons e es)
  obtain k' v' where e: "e = (k', v')" by fastforce
  from Cons.IH [OF count_occurrence_step(1) [OF Cons.prems, of k' v']] count_occurrence_step(2) [OF Cons.prems, of k' v' k v]
  show ?case by (auto simp: e)
qed simp

lemma occ_members:
  assumes "occ_wf occ"
  shows "(\<exists>vm. (k, vm) \<in> set occ \<and> (v, n) \<in> set vm) \<longleftrightarrow> n = occ_count occ k v \<and> 0 < n"
proof -
  have "(k, vm) \<in> set occ \<longleftrightarrow> map_of occ k = Some vm" for vm
    using assms by (simp add: occ_wf_def)
  moreover have "(v, n) \<in> set vm \<longleftrightarrow> map_of vm v = Some n" if "map_of occ k = Some vm" for vm
    using assms that by (simp add: occ_wf_def)
  ultimately have "(\<exists>vm. (k, vm) \<in> set occ \<and> (v, n) \<in> set vm) \<longleftrightarrow>
      (\<exists>vm. map_of occ k = Some vm \<and> map_of vm v = Some n)" by blast
  then show ?thesis
    using assms by (auto simp: occ_wf_def occ_count_def simp del: map_of_eq_Some_iff split: option.splits)
qed

lemma count_list_wf:
  "hm_wf m \<Longrightarrow> count_list m (k, v) = (if map_of m k = Some v then 1 else 0)"
  by (induction m) (auto simp: rev_image_eqI)

lemma count_list_maps:
  "\<forall>m\<in>set ms. hm_wf m \<Longrightarrow> count_list (concat ms) (k, v) = length (filter (\<lambda>m. map_of m k = Some v) ms)"
  by (induction ms) (auto simp: count_list_append count_list_wf)

lemma length_filter_all: "length (filter P xs) = length xs \<longleftrightarrow> (\<forall>x\<in>set xs. P x)"
  by (metis filter_id_conv length_filter_less less_irrefl)

section \<open>Splitting\<close>

definition ids_at :: "string list state_map \<Rightarrow> state_key \<Rightarrow> string set" where
  "ids_at c k = (case map_of c k of None \<Rightarrow> {} | Some ids \<Rightarrow> set ids)"

definition flat_occurrences :: "occurrences \<Rightarrow> (state_key \<times> string \<times> nat) list" where
  "flat_occurrences occ = concat (map (\<lambda>(k, vm). map (Pair k) vm) occ)"

abbreviation split_flat :: "nat \<Rightarrow> (state_key \<times> string \<times> nat) list
    \<Rightarrow> string state_map \<times> string list state_map \<Rightarrow> string state_map \<times> string list state_map" where
  "split_flat n \<equiv> fold (\<lambda>(k, v). split_id n k v)"

lemma split_flat: "fold (\<lambda>(k, vm). fold (split_id n k) vm) occ z = split_flat n (flat_occurrences occ) z"
proof -
  have "fold (split_id n k) vm z = split_flat n (map (Pair k) vm) z" for k vm z
    by (induction vm arbitrary: z) auto
  then show ?thesis
    by (induction occ arbitrary: z) (auto simp: flat_occurrences_def)
qed

lemma split_flat_conflicted:
  "split_flat n ts (u, c) = (u', c') \<Longrightarrow>
     ids_at c' k = ids_at c k \<union> {v. \<exists>m. (k, v, m) \<in> set ts \<and> m \<noteq> n}
     \<and> (hm_wf c \<longrightarrow> hm_wf c') \<and> (map_of c k \<noteq> Some [] \<longrightarrow> map_of c' k \<noteq> Some [])"
proof (induction ts arbitrary: u c)
  case (Cons t ts)
  obtain k' v m where t: "t = (k', v, m)" by (cases t) auto
  show ?case
  proof (cases "m = n")
    case True
    with Cons show ?thesis by (auto simp: t split_id_def)
  next
    case False
    let ?c = "hm_modify_or k' (\<lambda>x. x @ [v]) [v] c"
    from Cons.prems False have "split_flat n ts (u, ?c) = (u', c')" by (simp add: t split_id_def)
    note IH = Cons.IH [OF this]
    have "ids_at ?c k = ids_at c k \<union> (if k' = k then {v} else {})"
      by (auto simp: ids_at_def map_of_hm_modify_or split: option.splits)
    with IH False have "ids_at c' k = ids_at c k \<union> {v. \<exists>m. (k, v, m) \<in> set (t # ts) \<and> m \<noteq> n}"
      by (auto simp: t)
    moreover have "map_of c k \<noteq> Some [] \<Longrightarrow> map_of ?c k \<noteq> Some []"
      by (auto simp: map_of_hm_modify_or split: option.splits)
    ultimately show ?thesis using IH by simp
  qed
qed simp

lemma split_flat_unconflicted:
  "split_flat n ts (u, c) = (u', c') \<Longrightarrow>
     (\<forall>v. map_of u' k = Some v \<longrightarrow> map_of u k = Some v \<or> (k, v, n) \<in> set ts)
     \<and> ((\<exists>v. (k, v, n) \<in> set ts) \<or> map_of u k \<noteq> None \<longrightarrow> map_of u' k \<noteq> None)
     \<and> (hm_wf u \<longrightarrow> hm_wf u')"
proof (induction ts arbitrary: u c)
  case (Cons t ts)
  obtain k' v m where t: "t = (k', v, m)" by (cases t) auto
  show ?case
  proof (cases "m = n")
    case True
    with Cons.prems have "split_flat n ts (hm_insert k' v u, c) = (u', c')" by (simp add: t split_id_def)
    from Cons.IH [OF this] True show ?thesis by (auto simp: t split: if_splits)
  next
    case False
    with Cons show ?thesis by (auto simp: t split_id_def)
  qed
qed simp

text \<open>How often a pair occurs in the state maps.\<close>

lemma flat_occurrences_iff:
  assumes "\<forall>m\<in>set ms. hm_wf m"
  shows "(k, v, n) \<in> set (flat_occurrences (fold count_occurrence (concat ms) [])) \<longleftrightarrow>
    n = length (filter (\<lambda>m. map_of m k = Some v) ms) \<and> 0 < n"
proof -
  let ?occ = "fold count_occurrence (concat ms) []"
  have "occ_wf []" by (simp add: occ_wf_def)
  from count_occurrences [OF this, of "concat ms" k v]
  have occ: "occ_wf ?occ" "occ_count ?occ k v = length (filter (\<lambda>m. map_of m k = Some v) ms)"
    using count_list_maps [OF assms] by (simp_all add: occ_count_def)
  have "(k, v, n) \<in> set (flat_occurrences ?occ) \<longleftrightarrow> (\<exists>vm. (k, vm) \<in> set ?occ \<and> (v, n) \<in> set vm)"
    by (force simp: flat_occurrences_def)
  with occ_members [OF occ(1)] occ(2) show ?thesis by simp
qed

lemma split_conflicted:
  assumes "\<forall>m\<in>set ms. hm_wf m" "split_conflicted_state_set ms = (u, c)"
  shows "map_of u k = Some v \<longleftrightarrow> ms \<noteq> [] \<and> (\<forall>m\<in>set ms. map_of m k = Some v)"
    and "v \<in> ids_at c k \<longleftrightarrow> (\<exists>m\<in>set ms. map_of m k = Some v) \<and> (\<exists>m\<in>set ms. map_of m k \<noteq> Some v)"
    and "hm_wf u" "hm_wf c" "map_of c k \<noteq> Some []"
proof -
  let ?ts = "flat_occurrences (fold count_occurrence (concat ms) [])"
  from assms(2) have split: "split_flat (length ms) ?ts ([], []) = (u, c)"
    by (simp add: split_conflicted_state_set_def split_flat)
  note flat = flat_occurrences_iff [OF assms(1)]
  have all: "(k, v, length ms) \<in> set ?ts \<longleftrightarrow> ms \<noteq> [] \<and> (\<forall>m\<in>set ms. map_of m k = Some v)" for v
    unfolding flat using length_filter_all [of "\<lambda>m. map_of m k = Some v" ms] by auto
  have some: "(\<exists>n. (k, v, n) \<in> set ?ts \<and> n \<noteq> length ms) \<longleftrightarrow>
      (\<exists>m\<in>set ms. map_of m k = Some v) \<and> (\<exists>m\<in>set ms. map_of m k \<noteq> Some v)"
    unfolding flat using length_filter_all [of "\<lambda>m. map_of m k = Some v" ms] by (auto simp: filter_empty_conv)
  note un = split_flat_unconflicted [OF split, of k] and con = split_flat_conflicted [OF split, of k]
  show "map_of u k = Some v \<longleftrightarrow> ms \<noteq> [] \<and> (\<forall>m\<in>set ms. map_of m k = Some v)"
  proof
    assume "map_of u k = Some v"
    with un all show "ms \<noteq> [] \<and> (\<forall>m\<in>set ms. map_of m k = Some v)" by simp
  next
    assume ms: "ms \<noteq> [] \<and> (\<forall>m\<in>set ms. map_of m k = Some v)"
    with un all obtain v' where v': "map_of u k = Some v'" by blast
    with un all have "\<forall>m\<in>set ms. map_of m k = Some v'" by simp
    with ms have "v' = v" using list.set_sel(1) by fastforce
    with v' show "map_of u k = Some v" by simp
  qed
  show "v \<in> ids_at c k \<longleftrightarrow> (\<exists>m\<in>set ms. map_of m k = Some v) \<and> (\<exists>m\<in>set ms. map_of m k \<noteq> Some v)"
    using con some by (simp add: ids_at_def)
  show "hm_wf u" "hm_wf c" "map_of c k \<noteq> Some []" using un con by simp_all
qed

section \<open>The auth difference\<close>

lemma count_ids:
  "map_of (fold (\<lambda>id. hm_modify_or id (\<lambda>x. x + 1) 1) ids acc) i =
     (if i \<in> set ids \<or> map_of acc i \<noteq> None
      then Some ((case map_of acc i of None \<Rightarrow> 0 | Some n \<Rightarrow> n) + count_list ids i) else None)
   \<and> (hm_wf acc \<longrightarrow> hm_wf (fold (\<lambda>id. hm_modify_or id (\<lambda>x. x + 1) (1 :: nat)) ids acc))"
proof (induction ids arbitrary: acc)
  case (Cons a ids)
  show ?case
    using Cons.IH [of "hm_modify_or a (\<lambda>x. x + 1) 1 acc"]
    by (auto simp: map_of_hm_modify_or split: option.splits if_splits)
qed (auto split: option.splits)

lemma count_list_distinct: "distinct c \<Longrightarrow> count_list c i = (if i \<in> set c then 1 else 0)"
  by (induction c) auto

lemma count_list_sets:
  "\<forall>c\<in>set cs. distinct c \<Longrightarrow> count_list (concat cs) i = length (filter (\<lambda>c. i \<in> set c) cs)"
  by (induction cs) (auto simp: count_list_append count_list_distinct)

lemma set_auth_difference:
  assumes "\<forall>c\<in>set cs. distinct c"
  shows "set (auth_difference cs) = (\<Union>c\<in>set cs. set c) - (\<Inter>c\<in>set cs. set c)"
proof -
  let ?m = "fold (\<lambda>id. hm_modify_or id (\<lambda>x. x + 1) (1 :: nat)) (concat cs) []"
  have wf: "hm_wf ?m" using count_ids [of "concat cs" "[]"] by simp
  have "i \<in> set (auth_difference cs) \<longleftrightarrow> (\<exists>n. map_of ?m i = Some n \<and> n < length cs)" for i
    using wf by (force simp: auth_difference_def Let_def image_iff)
  moreover have "(\<exists>n. map_of ?m i = Some n \<and> n < length cs) \<longleftrightarrow>
      (\<exists>c\<in>set cs. i \<in> set c) \<and> length (filter (\<lambda>c. i \<in> set c) cs) < length cs" for i
    using count_ids [of "concat cs" "[]" i] count_list_sets [OF assms] by auto
  moreover have "length (filter (\<lambda>c. i \<in> set c) cs) < length cs \<longleftrightarrow> \<not> (\<forall>c\<in>set cs. i \<in> set c)" for i
    using length_filter_all [of "\<lambda>c. i \<in> set c" cs] length_filter_le [of "\<lambda>c. i \<in> set c" cs] by linarith
  ultimately show ?thesis by (auto simp: set_eq_iff)
qed

section \<open>The graph of power events\<close>

text \<open>The auth events of an event that are in the full conflicted set.\<close>

definition conflict_edges :: "fetch_event \<Rightarrow> string list \<Rightarrow> string \<Rightarrow> string set" where
  "conflict_edges fetch full y = set (auth_events_of fetch y) \<inter> set full"

definition conflict_rel :: "fetch_event \<Rightarrow> string list \<Rightarrow> (string \<times> string) set" where
  "conflict_rel fetch full = {(y, z). z \<in> conflict_edges fetch full y}"

definition chain_inv :: "fetch_event \<Rightarrow> string list \<Rightarrow> string graph \<Rightarrow> string list \<Rightarrow> bool" where
  "chain_inv fetch full g st \<longleftrightarrow> hm_wf g
     \<and> (\<forall>y\<in>fst ` set g. edges_of g y = conflict_edges fetch full y
          \<and> conflict_edges fetch full y \<subseteq> fst ` set g \<union> set st)"

lemma edges_of_modify:
  "edges_of (hm_modify_or e (set_insert a) [a] g) y = edges_of g y \<union> (if y = e then {a} else {})"
  by (auto simp: edges_of_def map_of_hm_modify_or split: option.splits)

lemma edges_of_touch: "edges_of (hm_modify_or e (\<lambda>x. x) [] g) y = edges_of g y"
  by (auto simp: edges_of_def map_of_hm_modify_or split: option.splits)

lemma add_auth_events_edges:
  "add_auth_events_to_graph full e as g st = (g', st') \<Longrightarrow>
     edges_of g' y = edges_of g y \<union> (if y = e then set as \<inter> set full else {})
     \<and> (hm_wf g \<longrightarrow> hm_wf g') \<and> set as \<inter> set full \<subseteq> fst ` set g' \<union> set st'"
proof (induction full e as g st rule: add_auth_events_to_graph.induct)
  case (2 full e a as g st)
  let ?g = "hm_modify_or e (set_insert a) [a] g" and ?st = "if hm_contains g a then st else a # st"
  show ?case
  proof (cases "a \<in> set full")
    case True
    with 2(3) have step: "add_auth_events_to_graph full e as ?g ?st = (g', st')" by simp
    have "fst ` set g \<subseteq> fst ` set ?g" by (auto simp: hm_modify_or_def split: option.splits)
    with add_auth_events_keys(2) [OF step] have "fst ` set g \<subseteq> fst ` set g'" by (rule subset_trans [rotated])
    moreover have "set ?st \<subseteq> set st'" using add_auth_events_keys(3) [OF step] by auto
    ultimately have "a \<in> fst ` set g' \<union> set st'" by (cases "hm_contains g a") auto
    with 2(1) [OF True step] True show ?thesis by (auto simp: edges_of_modify)
  next
    case False
    with 2 show ?thesis by simp
  qed
qed simp

lemma chain_inv_step:
  assumes "chain_inv fetch full g (e # st)"
    and step: "add_auth_events_to_graph full e (auth_events_of fetch e) (hm_modify_or e (\<lambda>x. x) [] g) st = (g', st')"
  shows "chain_inv fetch full g' st'"
proof -
  from add_auth_events_visit [OF step] obtain new where keys: "fst ` set g' = insert e (fst ` set g)"
    and new: "st' = new @ st" .
  note edges = add_auth_events_edges [OF step, unfolded edges_of_touch]
  have "edges_of g e \<subseteq> conflict_edges fetch full e"
  proof (cases "e \<in> fst ` set g")
    case False
    then have "map_of g e = None" by (simp add: map_of_eq_None_iff)
    then show ?thesis by (simp add: edges_of_def)
  qed (use assms(1) in \<open>auto simp: chain_inv_def\<close>)
  then have "edges_of g' e = conflict_edges fetch full e" and "conflict_edges fetch full e \<subseteq> fst ` set g' \<union> set st'"
    using edges by (auto simp: conflict_edges_def)
  then show ?thesis
    using assms(1) edges keys new unfolding chain_inv_def by auto
qed

lemma add_chain_result:
  assumes "chain_inv fetch full g st"
  shows "chain_inv fetch full (add_chain_to_graph fetch full g st) []
    \<and> fst ` set g \<union> set st \<subseteq> fst ` set (add_chain_to_graph fetch full g st)
    \<and> fst ` set (add_chain_to_graph fetch full g st) \<subseteq> fst ` set g \<union> (conflict_rel fetch full)\<^sup>* `` set st"
  using assms
proof (induction fetch full g st rule: add_chain_to_graph.induct)
  case (2 fetch full g e st)
  obtain g' st' where step:
    "add_auth_events_to_graph full e (auth_events_of fetch e) (hm_modify_or e (\<lambda>x. x) [] g) st = (g', st')"
    by fastforce
  note IH = 2(1) [OF step [symmetric] chain_inv_step [OF 2(2) step]]
  from add_auth_events_visit [OF step] obtain new where keys: "fst ` set g' = insert e (fst ` set g)"
    and new: "st' = new @ st" "set new \<subseteq> set full \<inter> set (auth_events_of fetch e) - insert e (fst ` set g)" .
  from new(2) have "set new \<subseteq> conflict_edges fetch full e"
    by (auto simp: conflict_edges_def)
  then have "(conflict_rel fetch full)\<^sup>* `` set new \<subseteq> (conflict_rel fetch full)\<^sup>* `` {e}"
    by (auto simp: conflict_rel_def intro: converse_rtrancl_into_rtrancl)
  then have "fst ` set g' \<union> (conflict_rel fetch full)\<^sup>* `` set st'
      \<subseteq> fst ` set g \<union> (conflict_rel fetch full)\<^sup>* `` set (e # st)"
    unfolding keys new(1) by auto
  moreover have "fst ` set g \<union> set (e # st) \<subseteq> fst ` set g' \<union> set st'"
    unfolding keys new(1) by auto
  moreover have "add_chain_to_graph fetch full g (e # st) = add_chain_to_graph fetch full g' st'"
    by (simp add: step)
  ultimately show ?case
    using IH by (simp only:) (meson subset_trans)
qed auto

lemma chain_inv_closed:
  assumes "chain_inv fetch full g []" "x \<in> fst ` set g" "(x, y) \<in> (conflict_rel fetch full)\<^sup>*"
  shows "y \<in> fst ` set g"
  using assms(3,2)
proof (induction rule: rtrancl_induct)
  case (step y z)
  with assms(1) show ?case unfolding chain_inv_def conflict_rel_def by auto
qed

lemma add_event_result:
  assumes "chain_inv fetch full g []"
  shows "chain_inv fetch full (add_event_and_auth_chain_to_graph g p full fetch) []
    \<and> fst ` set (add_event_and_auth_chain_to_graph g p full fetch)
        = fst ` set g \<union> (conflict_rel fetch full)\<^sup>* `` {p}"
proof -
  let ?g = "add_event_and_auth_chain_to_graph g p full fetch"
  have "chain_inv fetch full g [p]" using assms by (auto simp: chain_inv_def)
  from add_chain_result [OF this] have res: "chain_inv fetch full ?g []"
    "fst ` set g \<union> {p} \<subseteq> fst ` set ?g" "fst ` set ?g \<subseteq> fst ` set g \<union> (conflict_rel fetch full)\<^sup>* `` {p}"
    by (simp_all add: add_event_and_auth_chain_to_graph_def)
  then have "(conflict_rel fetch full)\<^sup>* `` {p} \<subseteq> fst ` set ?g"
    using chain_inv_closed [OF res(1), of p] by blast
  with res show ?thesis by blast
qed

lemma power_graph_result:
  assumes "chain_inv fetch full g []"
  shows "chain_inv fetch full (fold (\<lambda>p g. add_event_and_auth_chain_to_graph g p full fetch) ps g) []
    \<and> fst ` set (fold (\<lambda>p g. add_event_and_auth_chain_to_graph g p full fetch) ps g)
        = fst ` set g \<union> (conflict_rel fetch full)\<^sup>* `` set ps"
  using assms
proof (induction ps arbitrary: g)
  case (Cons p ps)
  note step = add_event_result [OF Cons.prems, of p]
  from Cons.IH [OF conjunct1 [OF step]] step show ?case by auto
qed simp

text \<open>The power events and what their auth chains have in the full conflicted set.\<close>

definition power_event_closure :: "fetch_event \<Rightarrow> string list \<Rightarrow> string list \<Rightarrow> string set" where
  "power_event_closure fetch full ps = (conflict_rel fetch full)\<^sup>* `` set ps"

lemma map_of_rebuild:
  assumes "set ks = set (hm_keys m)"
  shows "map_of (map (\<lambda>i. (i, the (map_of m i))) ks) i = map_of m i"
proof (cases "map_of m i")
  case None
  then have "i \<notin> set ks" using assms by (simp add: map_of_eq_None_iff)
  with None show ?thesis by (simp add: map_of_map_restrict)
next
  case (Some v)
  then have "i \<in> set ks" using assms hm_keysI [OF Some] by simp
  with Some show ?thesis by (simp add: map_of_map_restrict)
qed

lemma power_events_graph_result:
  fixes ps full :: "string list" and fetch :: fetch_event
  assumes "is_hash_order h"
  defines "g \<equiv> power_events_graph h ps full fetch"
  shows "hm_wf g" "set (hm_keys g) = power_event_closure fetch full ps"
    and "y \<in> power_event_closure fetch full ps \<Longrightarrow> edges_of g y = conflict_edges fetch full y"
    and "closed_graph g"
proof -
  let ?g = "fold (\<lambda>p g. add_event_and_auth_chain_to_graph g p full fetch) ps []"
  have "chain_inv fetch full [] []" by (simp add: chain_inv_def)
  from power_graph_result [OF this, of ps] have inv: "chain_inv fetch full ?g []"
    and keys: "fst ` set ?g = power_event_closure fetch full ps"
    by (simp_all add: power_event_closure_def)
  have g: "g = map (\<lambda>i. (i, the (map_of ?g i))) (h (hm_keys ?g))"
    by (simp add: g_def power_events_graph_def Let_def)
  have gkeys: "hm_keys g = h (hm_keys ?g)" by (simp add: g comp_def)
  show "hm_wf g" using inv is_hash_orderD(2) [OF assms(1)] by (simp add: gkeys chain_inv_def)
  show set_keys: "set (hm_keys g) = power_event_closure fetch full ps"
    unfolding gkeys is_hash_orderD(1) [OF assms(1)] using keys by simp
  have lookup: "map_of g i = map_of ?g i" for i
    unfolding g by (rule map_of_rebuild) (rule is_hash_orderD(1) [OF assms(1)])
  show edges: "edges_of g y = conflict_edges fetch full y" if "y \<in> power_event_closure fetch full ps" for y
  proof -
    have "edges_of g y = edges_of ?g y" unfolding edges_of_def lookup ..
    with that inv keys show ?thesis unfolding chain_inv_def by blast
  qed
  show "closed_graph g"
    using inv keys edges set_keys unfolding closed_graph_def chain_inv_def by auto
qed

section \<open>Sorting the power events\<close>

definition auth_rel :: "fetch_event \<Rightarrow> (string \<times> string) set" where
  "auth_rel fetch = {(a, y). a \<in> set (auth_events_of fetch y)}"

lemma power_levels_of_senders_dom:
  "power_levels_of_senders X rules fetch ids lock acc = Inr levels \<Longrightarrow>
     dom (map_of levels) = set ids \<union> dom (map_of acc)"
proof (induction ids arbitrary: lock acc)
  case (Cons i ids)
  from Cons.prems obtain l lock' where
    "power_levels_of_senders X rules fetch ids lock' (hm_insert i l acc) = Inr levels"
    by (auto simp: rbind_Inr_iff)
  from Cons.IH [OF this] show ?case by auto
qed simp

lemma power_levels_of_senders_Inl:
  "map_err Err (power_levels_of_senders X rules fetch ids lock acc) = Inl x \<Longrightarrow> \<exists>e. x = Err (AuthEvent e)"
proof (induction ids arbitrary: lock acc)
  case (Cons i ids)
  show ?case
  proof (cases "power_level_for_sender X i rules lock fetch")
    case (Inr a)
    with Cons show ?thesis by (cases a) auto
  qed (use Cons.prems in auto)
qed simp

lemma power_event_closure_subset: "power_event_closure fetch full ps \<subseteq> set ps \<union> set full"
proof -
  have "(p, y) \<in> (conflict_rel fetch full)\<^sup>* \<Longrightarrow> p \<in> set ps \<Longrightarrow> y \<in> set ps \<union> set full" for p y
    by (induction rule: rtrancl_induct) (auto simp: conflict_rel_def conflict_edges_def)
  then show ?thesis by (auto simp: power_event_closure_def)
qed

lemma power_graph_acyclic:
  assumes "is_hash_order h" "acyclic (auth_rel fetch)"
  shows "acyclic (dependencies (power_events_graph h ps full fetch))"
proof (rule acyclic_subset [OF assms(2)])
  show "dependencies (power_events_graph h ps full fetch) \<subseteq> auth_rel fetch"
    using power_events_graph_result(2,3) [OF assms(1), where ps = ps and full = full and fetch = fetch]
    by (auto simp: dependencies_def auth_rel_def conflict_edges_def)
qed

lemma power_event_details_ok:
  assumes "power_levels_of_senders X rules fetch ids None [] = Inr levels" "\<forall>i\<in>set ids. fetch i \<noteq> None"
  shows "\<forall>i\<in>set ids. is_ok (power_event_details fetch levels i)"
proof
  fix i assume i: "i \<in> set ids"
  with power_levels_of_senders_dom [OF assms(1)] have "i \<in> dom (map_of levels)" by simp
  then obtain l where "map_of levels i = Some l" by blast
  moreover obtain e where "fetch i = Some e" using assms(2) i by blast
  ultimately show "is_ok (power_event_details fetch levels i)" by (simp add: power_event_details_def)
qed

lemma sort_power_events_ok:
  assumes h: "is_hash_order h" and found: "\<forall>i\<in>set ps \<union> set full. fetch i \<noteq> None"
    and levels: "power_levels_of_senders X rules fetch (hm_keys (power_events_graph h ps full fetch)) None [] = Inr levels"
  shows "\<exists>xs. sort_power_events X h ps full rules fetch = Inr xs
    \<and> power_ordering (power_events_graph h ps full fetch) (power_event_details fetch levels) xs"
proof -
  let ?g = "power_events_graph h ps full fetch"
  note g = power_events_graph_result [OF h, where ps = ps and full = full and fetch = fetch]
  have "\<forall>i\<in>set (hm_keys ?g). fetch i \<noteq> None"
    using found power_event_closure_subset [of fetch full ps] unfolding g(2) by blast
  from sort_returns [OF h g(1) power_event_details_ok [OF levels this]] levels show ?thesis
    by (simp add: sort_power_events_def Let_def)
qed

lemma sort_power_events_cases:
  assumes h: "is_hash_order h" and found: "\<forall>i\<in>set ps \<union> set full. fetch i \<noteq> None"
  obtains (error) e where "sort_power_events X h ps full rules fetch = Inl (Err (AuthEvent e))"
  | (ok) levels xs where "sort_power_events X h ps full rules fetch = Inr xs"
      "power_levels_of_senders X rules fetch (hm_keys (power_events_graph h ps full fetch)) None [] = Inr levels"
      "power_ordering (power_events_graph h ps full fetch) (power_event_details fetch levels) xs"
proof (cases "power_levels_of_senders X rules fetch (hm_keys (power_events_graph h ps full fetch)) None []")
  case (Inl x)
  then have "map_err Err (power_levels_of_senders X rules fetch (hm_keys (power_events_graph h ps full fetch)) None [])
      = Inl (Err x)" by simp
  from power_levels_of_senders_Inl [OF this] Inl error show thesis
    by (auto simp: sort_power_events_def Let_def)
next
  case (Inr levels)
  from sort_power_events_ok [OF h found Inr] Inr ok show thesis by blast
qed

end
