(* ===== verification/Mainline.thy ===== *)
theory Mainline
  imports Conflict_Sets
begin

text \<open>
  The mainline ordering: the two loops along the chain of power levels events end when the auth
  events are well founded, the positions are those of the specification counted from the other end, and
  the sort is the specification's ordering. Also the iterative auth checks.
\<close>

section \<open>The loops end\<close>

lemma next_power_levels_id_Inr:
  "next_power_levels_id fetch i as = Inr (Some j) \<Longrightarrow> j \<in> set as"
  by (induction as) (auto split: option.splits if_splits)

lemma next_power_levels_event_Inr:
  "next_power_levels_event fetch as = Inr (Some a) \<Longrightarrow> \<exists>j\<in>set as. fetch j = Some a"
  by (induction as) (auto split: option.splits if_splits)

lemma mainline_of_ends:
  assumes "wf (auth_rel fetch)"
  shows "\<exists>r. mainline_of fetch pl acc = Some r"
proof -
  have some: "\<exists>r. mainline_of fetch (Some i) acc = Some r" for i acc
    using assms
  proof (induction i arbitrary: acc rule: wf_induct_rule)
    case (less i)
    show ?case
    proof (cases "fetch i")
      case (Some e)
      show ?thesis
      proof (cases "next_power_levels_id fetch i (ev_auth_events e)")
        case (Inr nxt)
        show ?thesis
        proof (cases nxt)
          case None
          with Some Inr show ?thesis by (simp add: mainline_of.simps)
        next
          case (Some j)
          with Inr \<open>fetch i = Some e\<close> have "(j, i) \<in> auth_rel fetch"
            by (auto simp: auth_rel_def auth_events_of_def dest: next_power_levels_id_Inr)
          from less [OF this] Some Inr \<open>fetch i = Some e\<close> show ?thesis
            by (subst mainline_of.simps) simp
        qed
      qed (simp add: Some mainline_of.simps)
    qed (simp add: mainline_of.simps)
  qed
  show ?thesis by (cases pl) (simp_all add: some mainline_of.simps [of _ None])
qed

lemma mainline_position_ends:
  assumes "wf (auth_rel fetch)"
  shows "\<exists>r. mainline_position e m fetch = Some r"
proof -
  have fetched: "\<forall>e. fetch i = Some e \<longrightarrow> (\<exists>r. mainline_position e m fetch = Some r)" for i
    using assms
  proof (induction i rule: wf_induct_rule)
    case (less i)
    show ?case
    proof (intro allI impI)
      fix e assume e: "fetch i = Some e"
      have "\<exists>r. mainline_position a m fetch = Some r"
        if "next_power_levels_event fetch (ev_auth_events e) = Inr (Some a)" for a
      proof -
        from next_power_levels_event_Inr [OF that] obtain j where
          j: "j \<in> set (ev_auth_events e)" "fetch j = Some a" by blast
        with e have "(j, i) \<in> auth_rel fetch" by (simp add: auth_rel_def auth_events_of_def)
        from less [OF this] j(2) show ?thesis by blast
      qed
      then show "\<exists>r. mainline_position e m fetch = Some r"
        by (subst mainline_position.simps) (auto split: option.splits sum.splits)
    qed
  qed
  have "\<exists>r. mainline_position a m fetch = Some r"
    if "next_power_levels_event fetch (ev_auth_events e) = Inr (Some a)" for a
    using next_power_levels_event_Inr [OF that] fetched by blast
  then show ?thesis
    by (subst mainline_position.simps) (auto split: option.splits sum.splits)
qed

section \<open>The mainline\<close>

lemma mainline_of_distinct:
  assumes "wf (auth_rel fetch)" "mainline_of fetch pl acc = Some (Inr ml)"
    and "distinct acc" "\<forall>i. pl = Some i \<longrightarrow> (\<forall>x\<in>set acc. (i, x) \<in> (auth_rel fetch)\<^sup>+)"
  shows "distinct ml"
proof (cases pl)
  case None
  with assms(2,3) show ?thesis by (simp add: mainline_of.simps)
next
  case (Some i)
  from assms(1) Some [symmetric] assms(2,3,4) show ?thesis
  proof (induction i arbitrary: pl acc rule: wf_induct_rule)
    case (less i)
    have notin: "i \<notin> set acc"
      using less.prems(4) \<open>Some i = pl\<close> wf_acyclic [OF assms(1)] by (auto simp: acyclic_def)
    from less.prems(2) \<open>Some i = pl\<close> obtain e nxt where e: "fetch i = Some e"
      and nxt: "next_power_levels_id fetch i (ev_auth_events e) = Inr nxt"
      and rest: "mainline_of fetch nxt (acc @ [i]) = Some (Inr ml)"
      by (subst (asm) mainline_of.simps) (auto split: option.splits sum.splits)
    show ?case
    proof (cases nxt)
      case None
      with rest less.prems(3) notin show ?thesis by (auto simp: mainline_of.simps)
    next
      case (Some j)
      with nxt e have edge: "(j, i) \<in> auth_rel fetch"
        by (auto simp: auth_rel_def auth_events_of_def dest: next_power_levels_id_Inr)
      have "\<forall>k. Some j = Some k \<longrightarrow> (\<forall>x\<in>set (acc @ [i]). (k, x) \<in> (auth_rel fetch)\<^sup>+)"
        using less.prems(4) \<open>Some i = pl\<close> edge by (auto intro: trancl_into_trancl2)
      with less.IH [OF edge refl] rest Some less.prems(3) notin show ?thesis by simp
    qed
  qed
qed

lemma mainline_map_of_get:
  assumes "distinct ml"
  shows "n < length ml \<Longrightarrow> map_of (mainline_map_of ml) (ml ! n) = Some (length ml - n)"
    and "i \<notin> set ml \<Longrightarrow> map_of (mainline_map_of ml) i = None"
proof -
  let ?ps = "map (\<lambda>(idx, i). (i, idx + 1)) (enumerate 0 (rev ml))"
  have keys: "hm_keys ?ps = rev ml" by (simp add: comp_def case_prod_unfold)
  have "mainline_map_of ml = hm_extend [] ?ps"
    by (simp add: mainline_map_of_def hm_extend_def fold_map comp_def case_prod_unfold)
  with keys assms have get: "map_of (mainline_map_of ml) = map_of ?ps" and wf: "hm_wf ?ps"
    using map_of_hm_extend [of ?ps "[]"] by simp_all
  show "map_of (mainline_map_of ml) (ml ! n) = Some (length ml - n)" if "n < length ml"
  proof -
    have "(length ml - Suc n, ml ! n) \<in> set (enumerate 0 (rev ml))"
      using that by (simp add: in_set_enumerate_eq rev_nth)
    then have "(ml ! n, length ml - n) \<in> set ?ps"
      using that by (force simp: image_iff)
    with wf show ?thesis unfolding get by (simp only: map_of_eq_Some_iff)
  qed
  show "map_of (mainline_map_of ml) i = None" if "i \<notin> set ml"
    using that keys unfolding get map_of_eq_None_iff by (metis set_map set_rev)
qed

text \<open>
  The mainline position of the specification: the index, in the mainline, of the first event of the
  chain that is in it; \<open>None\<close> when there is none. The chain starts with the event itself.
\<close>

inductive mainline_ancestor :: "fetch_event \<Rightarrow> string list \<Rightarrow> event \<Rightarrow> nat option \<Rightarrow> bool"
  for fetch ml where
  here: "n < length ml \<Longrightarrow> ml ! n = ev_event_id e \<Longrightarrow> mainline_ancestor fetch ml e (Some n)"
| up: "ev_event_id e \<notin> set ml \<Longrightarrow> next_power_levels_event fetch (ev_auth_events e) = Inr (Some a)
    \<Longrightarrow> mainline_ancestor fetch ml a q \<Longrightarrow> mainline_ancestor fetch ml e q"
| nowhere: "ev_event_id e \<notin> set ml \<Longrightarrow> next_power_levels_event fetch (ev_auth_events e) = Inr None
    \<Longrightarrow> mainline_ancestor fetch ml e None"

definition code_position :: "string list \<Rightarrow> nat option \<Rightarrow> nat option" where
  "code_position ml = map_option (\<lambda>n. length ml - n)"

lemma mainline_position_ancestor:
  assumes "distinct ml" "mainline_ancestor fetch ml e q"
  shows "mainline_position e (mainline_map_of ml) fetch = Some (Inr (code_position ml q))"
  using assms(2)
proof induction
  case (here n e)
  with mainline_map_of_get(1) [OF assms(1), of n] show ?case
    by (subst mainline_position.simps) (simp add: code_position_def)
next
  case (up e a q)
  with mainline_map_of_get(2) [OF assms(1)] show ?case
    by (subst mainline_position.simps) simp
next
  case (nowhere e)
  with mainline_map_of_get(2) [OF assms(1)] show ?case
    by (subst mainline_position.simps) (simp add: code_position_def)
qed

lemma mainline_ancestor_position_aux:
  "mainline_position e m fetch = Some y \<Longrightarrow>
     distinct ml \<and> m = mainline_map_of ml \<and> y = Inr r \<longrightarrow> (\<exists>q. mainline_ancestor fetch ml e q)"
proof (induction rule: mainline_position.raw_induct [rotated, consumes 1])
  case (1 pos e m fetch y)
  show ?case
  proof (intro impI, elim conjE)
    assume ml: "distinct ml" "m = mainline_map_of ml" "y = Inr r"
    show "\<exists>q. mainline_ancestor fetch ml e q"
    proof (cases "ev_event_id e \<in> set ml")
      case True
      then show ?thesis by (metis here in_set_conv_nth)
    next
      case False
      with 1(2) ml mainline_map_of_get(2) [OF ml(1) False] show ?thesis
        by (auto split: sum.splits option.splits intro: up nowhere dest!: 1(1))
    qed
  qed
qed

lemma mainline_ancestor_position:
  assumes "distinct ml" "mainline_position e (mainline_map_of ml) fetch = Some (Inr r)"
  shows "\<exists>q. mainline_ancestor fetch ml e q"
  using mainline_ancestor_position_aux [OF assms(2), of ml] assms(1) by blast

lemma mainline_ancestor_bound: "mainline_ancestor fetch ml e (Some n) \<Longrightarrow> n < length ml"
  by (induction e "Some n" arbitrary: n rule: mainline_ancestor.induct) auto

lemma mainline_ancestor_unique:
  assumes "distinct ml" "mainline_ancestor fetch ml e q" "mainline_ancestor fetch ml e q'"
  shows "q = q'"
proof -
  have "code_position ml q = code_position ml q'"
    using mainline_position_ancestor [OF assms(1,2)] mainline_position_ancestor [OF assms(1,3)] by simp
  then show ?thesis
    using assms(2,3) by (cases q; cases q') (auto simp: code_position_def dest!: mainline_ancestor_bound)
qed

section \<open>The sort\<close>

text \<open>
  The specification's ordering: an event whose position in the mainline is larger, so further back,
  comes first, then the earlier timestamp, then the smaller event ID.
\<close>

fun further_back :: "nat option \<Rightarrow> nat option \<Rightarrow> bool" where
  "further_back None (Some _) \<longleftrightarrow> True"
| "further_back (Some n) (Some m) \<longleftrightarrow> m < n"
| "further_back _ None \<longleftrightarrow> False"

definition mainline_before :: "fetch_event \<Rightarrow> string list \<Rightarrow> string \<Rightarrow> string \<Rightarrow> bool" where
  "mainline_before fetch ml x y \<longleftrightarrow>
     (\<exists>ex ey qx qy. fetch x = Some ex \<and> fetch y = Some ey
        \<and> mainline_ancestor fetch ml ex qx \<and> mainline_ancestor fetch ml ey qy
        \<and> (further_back qx qy
           \<or> qx = qy \<and> (ev_origin_server_ts ex < ev_origin_server_ts ey
                        \<or> ev_origin_server_ts ex = ev_origin_server_ts ey \<and> x < y)))"

definition sort_positions :: "fetch_event \<Rightarrow> (string \<times> nat) list \<Rightarrow> string \<Rightarrow> sort_position option" where
  "sort_positions fetch m i =
     (case fetch i of None \<Rightarrow> None
      | Some e \<Rightarrow> (case mainline_position e m fetch of
                      Some (Inr p) \<Rightarrow> Some (p, Some (ev_origin_server_ts e), i) | _ \<Rightarrow> None))"

lemma mainline_order_map_result:
  assumes "wf (auth_rel fetch)"
  shows "\<exists>om. mainline_order_map fetch m ids acc = Some (Inr om)
    \<and> (\<forall>i. map_of om i = (if i \<in> set ids \<and> sort_positions fetch m i \<noteq> None then sort_positions fetch m i else map_of acc i))
    \<and> (hm_wf acc \<longrightarrow> hm_wf om)"
proof (induction ids arbitrary: acc)
  case (Cons i ids)
  show ?case
  proof (cases "fetch i")
    case None
    with Cons.IH [of acc] show ?thesis by (auto simp: sort_positions_def)
  next
    case (Some e)
    obtain r where r: "mainline_position e m fetch = Some r"
      using mainline_position_ends [OF assms] by blast
    show ?thesis
    proof (cases r)
      case (Inl x)
      with Cons.IH [of acc] Some r show ?thesis by (auto simp: sort_positions_def)
    next
      case (Inr p)
      let ?acc = "hm_insert i (p, Some (ev_origin_server_ts e), i) acc"
      have "sort_positions fetch m i = Some (p, Some (ev_origin_server_ts e), i)"
        using Some r Inr by (simp add: sort_positions_def)
      with Cons.IH [of ?acc] Some r Inr show ?thesis by auto
    qed
  qed
qed simp

lemma sort_key_perm_eq:
  assumes "set xs = set ys" "distinct xs" "distinct ys" "inj_on f (set xs)"
  shows "sort_key f xs = sort_key f ys"
proof -
  have "mset xs = mset ys" using assms(1-3) by (simp add: set_eq_iff_mset_eq_distinct)
  then have "sort (map f (sort_key f xs)) = map f (sort_key f ys)"
    by (intro properties_for_sort) simp_all
  moreover have "sort (map f (sort_key f xs)) = map f (sort_key f xs)"
    by (rule sorted_sort_id) simp
  ultimately have "map f (sort_key f xs) = map f (sort_key f ys)" by simp
  then show ?thesis by (rule map_inj_on) (use assms(1,4) in simp)
qed

lemma mainline_sort_result:
  assumes "is_hash_order h" "wf (auth_rel fetch)" "mainline_of fetch pl [] = Some (Inr ml)"
  shows "\<exists>xs. mainline_sort h events pl fetch = Some (Inr xs) \<and> distinct xs
    \<and> set xs = {i \<in> set events. sort_positions fetch (mainline_map_of ml) i \<noteq> None}
    \<and> sorted (map (\<lambda>i. the (sort_positions fetch (mainline_map_of ml) i)) xs)"
proof (cases "events = []")
  case False
  let ?pos = "sort_positions fetch (mainline_map_of ml)"
  obtain om where om: "mainline_order_map fetch (mainline_map_of ml) events [] = Some (Inr om)"
    and om_get: "\<forall>i. map_of om i = (if i \<in> set events \<and> ?pos i \<noteq> None then ?pos i else map_of [] i)"
    and wf: "hm_wf om"
    using mainline_order_map_result [OF assms(2), of "mainline_map_of ml" events "[]"]
    unfolding list.map distinct.simps by blast
  have get: "map_of om i = (if i \<in> set events then ?pos i else None)" for i
    using om_get by simp
  let ?xs = "sort_key (\<lambda>i. the (map_of om i)) (h (hm_keys om))"
  have "set (hm_keys om) = {i. map_of om i \<noteq> None}"
    by (auto simp: map_of_eq_None_iff)
  then have set: "set ?xs = {i \<in> set events. ?pos i \<noteq> None}"
    using is_hash_orderD(1) [OF assms(1)] by (auto simp: get)
  then have "map (\<lambda>i. the (?pos i)) ?xs = map (\<lambda>i. the (map_of om i)) ?xs"
    by (intro map_cong) (auto simp: get)
  moreover have "sorted (map (\<lambda>i. the (map_of om i)) ?xs)" by (rule sorted_sort_key)
  ultimately have "sorted (map (\<lambda>i. the (?pos i)) ?xs)" by (simp only:)
  moreover have "mainline_sort h events pl fetch = Some (Inr ?xs)"
    using False by (simp add: mainline_sort_def assms(3) om)
  moreover have "distinct ?xs" using wf by (simp add: is_hash_orderD(2) [OF assms(1)])
  ultimately show ?thesis using set by blast
qed (simp add: mainline_sort_def)

lemma sort_positions_ancestor:
  assumes "distinct ml"
  shows "sort_positions fetch (mainline_map_of ml) i = Some p \<longleftrightarrow>
    (\<exists>e q. fetch i = Some e \<and> mainline_ancestor fetch ml e q
       \<and> p = (code_position ml q, Some (ev_origin_server_ts e), i))"
proof
  assume "sort_positions fetch (mainline_map_of ml) i = Some p"
  then obtain e r where e: "fetch i = Some e" "mainline_position e (mainline_map_of ml) fetch = Some (Inr r)"
    and p: "p = (r, Some (ev_origin_server_ts e), i)"
    by (auto simp: sort_positions_def split: option.splits sum.splits)
  from mainline_ancestor_position [OF assms e(2)] obtain q where q: "mainline_ancestor fetch ml e q" ..
  with mainline_position_ancestor [OF assms q] e p
  show "\<exists>e q. fetch i = Some e \<and> mainline_ancestor fetch ml e q
       \<and> p = (code_position ml q, Some (ev_origin_server_ts e), i)" by auto
next
  assume "\<exists>e q. fetch i = Some e \<and> mainline_ancestor fetch ml e q
       \<and> p = (code_position ml q, Some (ev_origin_server_ts e), i)"
  then show "sort_positions fetch (mainline_map_of ml) i = Some p"
    using mainline_position_ancestor [OF assms] by (auto simp: sort_positions_def)
qed

lemma code_position_less:
  assumes "mainline_ancestor fetch ml e q" "mainline_ancestor fetch ml e' q'"
  shows "code_position ml q < code_position ml q' \<longleftrightarrow> further_back q q'"
    and "code_position ml q = code_position ml q' \<longleftrightarrow> q = q'"
  using assms
  by (cases q; cases q'; auto simp: code_position_def dest!: mainline_ancestor_bound)+

lemma positions_before:
  assumes "distinct ml" "x \<noteq> y"
    and px: "sort_positions fetch (mainline_map_of ml) x = Some px"
    and py: "sort_positions fetch (mainline_map_of ml) y = Some py" and "px \<le> py"
  shows "mainline_before fetch ml x y"
proof -
  from px py obtain ex qx ey qy where
    x: "fetch x = Some ex" "mainline_ancestor fetch ml ex qx" "px = (code_position ml qx, Some (ev_origin_server_ts ex), x)"
    and y: "fetch y = Some ey" "mainline_ancestor fetch ml ey qy" "py = (code_position ml qy, Some (ev_origin_server_ts ey), y)"
    unfolding sort_positions_ancestor [OF assms(1)] by blast
  from \<open>px \<le> py\<close> x(3) y(3) have "code_position ml qx < code_position ml qy
      \<or> code_position ml qx = code_position ml qy \<and> (ev_origin_server_ts ex < ev_origin_server_ts ey
          \<or> ev_origin_server_ts ex = ev_origin_server_ts ey \<and> x \<le> y)"
    by (auto simp: less_eq_prod_def)
  then have "further_back qx qy \<or> qx = qy \<and> (ev_origin_server_ts ex < ev_origin_server_ts ey
          \<or> ev_origin_server_ts ex = ev_origin_server_ts ey \<and> x < y)"
    using assms(2) unfolding code_position_less [OF x(2) y(2)] by auto
  with x(1,2) y(1,2) show ?thesis unfolding mainline_before_def by blast
qed

lemma mainline_sort_spec:
  assumes "is_hash_order h" "wf (auth_rel fetch)" "mainline_of fetch pl [] = Some (Inr ml)"
  shows "\<exists>xs. mainline_sort h events pl fetch = Some (Inr xs) \<and> distinct xs
    \<and> set xs = {i \<in> set events. \<exists>e q. fetch i = Some e \<and> mainline_ancestor fetch ml e q}
    \<and> sorted_wrt (mainline_before fetch ml) xs"
proof -
  let ?pos = "sort_positions fetch (mainline_map_of ml)"
  have ml: "distinct ml" by (rule mainline_of_distinct [OF assms(2,3)]) simp_all
  from mainline_sort_result [OF assms] obtain xs where
    xs: "mainline_sort h events pl fetch = Some (Inr xs)" "distinct xs"
    "set xs = {i \<in> set events. ?pos i \<noteq> None}" "sorted (map (\<lambda>i. the (?pos i)) xs)" by blast
  have "(?pos i \<noteq> None) \<longleftrightarrow> (\<exists>e q. fetch i = Some e \<and> mainline_ancestor fetch ml e q)" for i
    using sort_positions_ancestor [OF ml] by (metis not_None_eq)
  with xs(3) have set: "set xs = {i \<in> set events. \<exists>e q. fetch i = Some e \<and> mainline_ancestor fetch ml e q}"
    by simp
  have "sorted_wrt (\<lambda>x y. the (?pos x) \<le> the (?pos y) \<and> x \<noteq> y) xs"
    using xs(2,4) by (simp add: sorted_map sorted_wrt_iff_nth_less nth_eq_iff_index_eq)
  then have "sorted_wrt (mainline_before fetch ml) xs"
  proof (rule sorted_wrt_mono_rel [rotated])
    fix x y assume "x \<in> set xs" "y \<in> set xs" "the (?pos x) \<le> the (?pos y) \<and> x \<noteq> y"
    then show "mainline_before fetch ml x y"
      using xs(3) positions_before [OF ml, of x y] by auto
  qed
  with xs(1,2) set show ?thesis by blast
qed

end
