(* ===== verification/Event_Auth_Props.thy ===== *)
theory Event_Auth_Props
  imports Event_Auth
begin

text \<open>
  What the authorization rules guarantee: who may send events, who may change which power level, who
  may join, kick and ban, which part of the room state a check depends on, and that the checks
  the clients make on power levels agree with the ones the servers make.
\<close>

section \<open>An example room\<close>

text \<open>
  An instance of the third-party code for the witnesses: the content of a membership event is the
  name of the membership, the content of a power levels event is the name of a table below.
\<close>

definition example_pl_content :: "string \<Rightarrow> json_object" where
  "example_pl_content c =
     (if c = ''pl1'' then
        [(''users'', JsonObject [(''@admin:a.org'', JsonPosInt 100), (''@mod:a.org'', JsonPosInt 50)])]
      else if c = ''pl2'' then
        [(''users'', JsonObject [(''@admin:a.org'', JsonPosInt 100), (''@mod:a.org'', JsonPosInt 50),
                                 (''@user:a.org'', JsonPosInt 50)])]
      else [])"

definition example_membership :: "string \<Rightarrow> serde_error + membership_state" where
  "example_membership c =
     (if c = ''join'' then Inr MJoin else if c = ''invite'' then Inr MInvite
      else if c = ''leave'' then Inr MLeave else if c = ''ban'' then Inr MBan
      else if c = ''knock'' then Inr MKnock else if c = ''tpi'' then Inr MInvite else Inl InvalidType)"

definition example_ext :: ext where
  "example_ext =
     \<lparr>x_int_try_from = Inr, x_base64_standard = Inr, x_base64_url_safe = Inr,
      x_base64_encode = id, x_base64_encode_url_safe = id, x_from_str = (\<lambda>_. Inr JsonNull),
      x_serde_error = (\<lambda>_. []),
      x_serialize = (\<lambda>_. Inr []), x_sha256 = id, x_ed25519_key = (\<lambda>_. False),
      x_ed25519_verify = (\<lambda>_ _ _. False), x_compat_len = False,
      x_room_version = (\<lambda>_. Inr None), x_federate = (\<lambda>_. Inr None),
      x_creator = (\<lambda>_. Inr ''@admin:a.org''), x_additional_creators = (\<lambda>_. Inr []),
      x_creator_field = (\<lambda>_. Inr (Some ())), x_membership = example_membership,
      x_join_authorised_via_users_server = (\<lambda>_. Inr None), x_third_party_invite = (\<lambda>_. Inr None),
      x_join_rule = (\<lambda>c. Inr (if c = ''public'' then JPublic else JInvite)),
      x_public_keys = (\<lambda>_. Inr (None, [])), x_json_object = (\<lambda>c. Inr (example_pl_content c)),
      x_int_from_value = (\<lambda>v. case v of JsonPosInt n \<Rightarrow> Inr (int n) | JsonNegInt i \<Rightarrow> Inr i | _ \<Rightarrow> Inl InvalidType),
      x_int_map_from_value = (\<lambda>_ v. case v of
          JsonObject m \<Rightarrow> Inr (map (\<lambda>(k, v). (k, case v of JsonPosInt n \<Rightarrow> int n | _ \<Rightarrow> 0)) m)
        | _ \<Rightarrow> Inl InvalidType),
      x_parse_int = (\<lambda>_. Inr 0), x_parse_uint = (\<lambda>_. Inr 0)\<rparr>"

definition example_event :: "string \<Rightarrow> string \<Rightarrow> string \<Rightarrow> string option \<Rightarrow> string \<Rightarrow> string list \<Rightarrow> event" where
  "example_event i type sender key content auth =
     \<lparr>ev_event_id = i, ev_room_id = Some ''!r:a.org'', ev_sender = sender, ev_origin_server_ts = 0,
      ev_event_type = type, ev_content = content, ev_state_key = key, ev_prev_events = [''$p:a.org''],
      ev_auth_events = auth, ev_redacts = None, ev_rejected = False\<rparr>"

definition example_state :: fetch_state where
  "example_state type key =
     (if type = ''m.room.create'' \<and> key = [] then
        Some (example_event ''$create:a.org'' type ''@admin:a.org'' (Some key) [] [])
      else if type = ''m.room.power_levels'' \<and> key = [] then
        Some (example_event ''$pl:a.org'' type ''@admin:a.org'' (Some key) ''pl1'' [])
      else if type = ''m.room.join_rules'' \<and> key = [] then
        Some (example_event ''$jr:a.org'' type ''@admin:a.org'' (Some key) ''public'' [])
      else if type = ''m.room.member'' \<and> key \<in> {''@admin:a.org'', ''@mod:a.org'', ''@user:a.org''} then
        Some (example_event (''$m'' @ tl key) type key (Some key) ''join'' [])
      else None)"

section \<open>Senders\<close>

lemma check_state_dependent_other:
  assumes "check_state_dependent_auth_rules X rules e f = Inr ()"
    and "ev_event_type e \<notin> {''m.room.create'', ''m.room.member''}"
    and "\<not> (special_case_room_aliases rules \<and> ev_event_type e = ''m.room.aliases'')"
  obtains create where "f ''m.room.create'' [] = Some create"
    and "check_other_event X rules e create f = Inr ()"
  using assms
  by (auto simp: check_state_dependent_auth_rules_def fetch_room_create_event_def result_simps
      split: if_splits)

lemma check_other_event_allowed:
  assumes "check_other_event X rules e create f = Inr ()"
  obtains cs spl where "fetch_user_membership X f (ev_sender e) = Inr MJoin"
    and "creators X rules create = Inr cs"
    and "user_power_level X rules (fetch_room_power_levels_event f) (ev_sender e) cs = Inr spl"
    and "ev_event_type e \<noteq> ''m.room.third_party_invite'' \<Longrightarrow>
      \<exists>level. event_power_level X rules (fetch_room_power_levels_event f) (ev_event_type e) (ev_state_key e) = Inr level
        \<and> PowerLevelInt level \<le> spl"
    and "ev_event_type e = ''m.room.power_levels'' \<Longrightarrow>
      check_room_power_levels X rules e (fetch_room_power_levels_event f) spl cs = Inr ()"
proof -
  from assms obtain cs spl where mem: "fetch_user_membership X f (ev_sender e) = Inr MJoin"
    and cs: "creators X rules create = Inr cs"
    and spl: "user_power_level X rules (fetch_room_power_levels_event f) (ev_sender e) cs = Inr spl"
    by (auto simp: check_other_event_def rbind_Inr_iff Let_def split: if_splits)
  note step = assms [unfolded check_other_event_def, simplified mem cs spl rbind_simps Let_def]
  show ?thesis
  proof (rule that [OF mem cs spl])
    assume "ev_event_type e \<noteq> ''m.room.third_party_invite''"
    with step show "\<exists>level. event_power_level X rules (fetch_room_power_levels_event f) (ev_event_type e) (ev_state_key e) = Inr level
        \<and> PowerLevelInt level \<le> spl"
      by (auto simp: rbind_Inr_iff upl_ge_conv split: if_splits)
  next
    assume "ev_event_type e = ''m.room.power_levels''"
    with step show "check_room_power_levels X rules e (fetch_room_power_levels_event f) spl cs = Inr ()"
      by (auto simp: rbind_Inr_iff split: if_splits)
  qed
qed



section \<open>Changes of the power levels\<close>

text \<open>
  What a sender of level \<open>spl\<close> may do to a map of levels: an entry that is added or changed ends up
  at most at \<open>spl\<close>, and an entry that is changed or removed satisfied \<open>allowed\<close> before.
\<close>

definition bounded_change :: "user_power_level \<Rightarrow> (string \<Rightarrow> int \<Rightarrow> bool) \<Rightarrow> int_map option \<Rightarrow> int_map option \<Rightarrow> bool" where
  "bounded_change spl allowed current new \<longleftrightarrow>
     (\<forall>k. opt_get current k = opt_get new k
        \<or> (\<forall>c. opt_get current k = Some c \<longrightarrow> allowed k c)
          \<and> (\<forall>n. opt_get new k = Some n \<longrightarrow> PowerLevelInt n \<le> spl))"

lemma check_power_level_maps_bounded:
  "check_power_level_maps current new spl rej err = Inr () \<longleftrightarrow> bounded_change spl (\<lambda>k c. \<not> rej k c) current new"
  unfolding check_power_level_maps_iff bounded_change_def by (rule refl)

lemma check_room_power_levels_bounded:
  assumes "check_room_power_levels X rules e (Some current) spl cs = Inr ()"
  obtains cu nu ce ne where "pl_users X rules current = Inr cu" "pl_users X rules e = Inr nu"
    "pl_events X rules current = Inr ce" "pl_events X rules e = Inr ne"
    "bounded_change spl (\<lambda>u c. u = ev_sender e \<or> PowerLevelInt c < spl) cu nu"
    "bounded_change spl (\<lambda>_ c. PowerLevelInt c \<le> spl) ce ne"
    "\<forall>field. \<exists>v w. get_as_int X rules current field = Inr v \<and> get_as_int X rules e field = Inr w
       \<and> (v = w \<or> (\<forall>x\<in>{v, w}. PowerLevelInt (case x of None \<Rightarrow> int_field_default_value field | Some i \<Rightarrow> i) \<le> spl))"
    "explicitly_privilege_room_creators rules \<Longrightarrow> \<forall>c\<in>set cs. opt_get nu c = None"
proof -
  from assms obtain m nu ce ne cu where m: "int_fields_map X rules e = Inr m"
    and r: "pl_events X rules e = Inr ne" "pl_users X rules e = Inr nu"
      "check_int_fields X rules current m spl ALL_int_fields = Inr ()"
      "pl_events X rules current = Inr ce" "pl_users X rules current = Inr cu"
      "check_power_level_maps ce ne spl
         (\<lambda>_ c. int_cmp_user_power_level c spl = Greater)
         (MessageAbout ''sender does not have enough power to change the event type power level '') = Inr ()"
      "check_power_level_maps cu nu spl
         (\<lambda>u c. u \<noteq> ev_sender e \<and> int_cmp_user_power_level c spl \<noteq> Less)
         (MessageAbout ''sender does not have enough power to change the power level of user '') = Inr ()"
    and priv: "\<not> (explicitly_privilege_room_creators rules
        \<and> (case nu of None \<Rightarrow> False | Some nu \<Rightarrow> list_ex (hm_contains nu) cs))"
    by (auto simp: check_room_power_levels_def rbind_Inr_iff ensure_Inr_iff)
  have ints: "\<exists>v w. get_as_int X rules current field = Inr v \<and> get_as_int X rules e field = Inr w
       \<and> (v = w \<or> (\<forall>x\<in>{v, w}. PowerLevelInt (case x of None \<Rightarrow> int_field_default_value field | Some i \<Rightarrow> i) \<le> spl))"
    for field
  proof -
    have "field \<in> set ALL_int_fields" by (cases field) (simp_all add: ALL_int_fields_def)
    with r(3) show ?thesis
      unfolding check_int_fields_iff int_fields_map_get [OF m] by blast
  qed
  have "\<forall>c\<in>set cs. opt_get nu c = None" if "explicitly_privilege_room_creators rules"
    using priv that by (cases nu) (auto simp: opt_get_def list_ex_iff map_of_eq_None_iff)
  with r ints show ?thesis
    by (intro that) (auto simp: check_power_level_maps_bounded int_cmp_conv not_less not_le)
qed



section \<open>Membership\<close>

definition restricted_rule :: "authorization_rules \<Rightarrow> join_rule_kind \<Rightarrow> bool" where
  "restricted_rule rules r \<longleftrightarrow>
     restricted_join_rule rules \<and> r = JRestricted \<or> knock_restricted_join_rule rules \<and> r = JKnockRestricted"

text \<open>A joined member with the power to invite vouches for the join.\<close>

definition join_authorised :: "ext \<Rightarrow> authorization_rules \<Rightarrow> event \<Rightarrow> string list \<Rightarrow> fetch_state \<Rightarrow> bool" where
  "join_authorised X rules e cs f \<longleftrightarrow>
     (\<exists>a pl i. content_join_authorised_via_users_server X (ev_content e) = Inr (Some a)
        \<and> fetch_user_membership X f a = Inr MJoin
        \<and> user_power_level X rules (f ''m.room.power_levels'' []) a cs = Inr pl
        \<and> option_get_as_int_or_default X rules (f ''m.room.power_levels'' []) FieldInvite = Inr i
        \<and> PowerLevelInt i \<le> pl)"


lemma check_state_dependent_member:
  assumes "check_state_dependent_auth_rules X rules e f = Inr ()" "ev_event_type e = ''m.room.member''"
  obtains create where "f ''m.room.create'' [] = Some create" "check_room_member X rules e create f = Inr ()"
  using assms
  by (auto simp: check_state_dependent_auth_rules_def fetch_room_create_event_def result_simps
      split: if_splits)

text \<open>
  (C31) Kicking and banning need rank. An allowed membership event that bans a user, or that makes
  another user leave, comes from a joined member whose power level is strictly above the
  target's; where creators are privileged, the target is not a creator.
\<close>

theorem kick_ban_outranks:
  assumes "check_state_dependent_auth_rules X rules e f = Inr ()" "ev_event_type e = ''m.room.member''"
    and "ev_state_key e = Some target"
    and "membership X e = Inr MBan \<or> membership X e = Inr MLeave \<and> ev_sender e \<noteq> target"
  shows "fetch_user_membership X f (ev_sender e) = Inr MJoin
    \<and> (\<exists>create cs spl tpl. f ''m.room.create'' [] = Some create \<and> creators X rules create = Inr cs
        \<and> user_power_level X rules (f ''m.room.power_levels'' []) (ev_sender e) cs = Inr spl
        \<and> user_power_level X rules (f ''m.room.power_levels'' []) target cs = Inr tpl
        \<and> tpl < spl \<and> (explicitly_privilege_room_creators rules \<longrightarrow> target \<notin> set cs))"
proof -
  from assms(1,2) obtain create where create: "f ''m.room.create'' [] = Some create"
    and member: "check_room_member X rules e create f = Inr ()"
    by (rule check_state_dependent_member)
  from assms(4) have "fetch_user_membership X f (ev_sender e) = Inr MJoin
    \<and> (\<exists>cs spl tpl. creators X rules create = Inr cs
        \<and> user_power_level X rules (f ''m.room.power_levels'' []) (ev_sender e) cs = Inr spl
        \<and> user_power_level X rules (f ''m.room.power_levels'' []) target cs = Inr tpl \<and> tpl < spl)"
  proof
    assume "membership X e = Inr MBan"
    with member assms(3) have "check_room_member_ban X rules e target create f = Inr ()"
      by (auto simp: check_room_member_def rbind_Inr_iff)
    then show ?thesis
      by (auto simp: check_room_member_ban_def rbind_Inr_iff fetch_room_power_levels_event_def Let_def
          split: if_splits)
  next
    assume leave: "membership X e = Inr MLeave \<and> ev_sender e \<noteq> target"
    with member assms(3) have "check_room_member_leave X rules e target create f = Inr ()"
      by (auto simp: check_room_member_def rbind_Inr_iff)
    with leave show ?thesis
      by (auto simp: check_room_member_leave_def rbind_Inr_iff fetch_room_power_levels_event_def Let_def
          split: if_splits)
  qed
  moreover have "target \<notin> set cs"
    if "explicitly_privilege_room_creators rules" "tpl < spl"
      "user_power_level X rules (f ''m.room.power_levels'' []) target cs = Inr tpl" for cs tpl spl
    using that by (auto simp: user_power_level_def)
  ultimately show ?thesis using create by blast
qed

theorem kick_ban_outranks_witness:
  "check_state_dependent_auth_rules example_ext AuthorizationRules_V10
     (example_event ''$b:a.org'' ''m.room.member'' ''@mod:a.org'' (Some ''@user:a.org'') ''ban'' []) example_state = Inr ()
   \<and> (\<exists>cs spl tpl. user_power_level example_ext AuthorizationRules_V10 (example_state ''m.room.power_levels'' []) ''@mod:a.org'' cs = Inr spl
        \<and> user_power_level example_ext AuthorizationRules_V10 (example_state ''m.room.power_levels'' []) ''@user:a.org'' cs = Inr tpl
        \<and> tpl < spl)"
proof -
  let ?e = "example_event ''$b:a.org'' ''m.room.member'' ''@mod:a.org'' (Some ''@user:a.org'') ''ban'' []"
  have ok: "check_state_dependent_auth_rules example_ext AuthorizationRules_V10 ?e example_state = Inr ()"
    by code_simp
  have e: "ev_event_type ?e = ''m.room.member''" "ev_state_key ?e = Some ''@user:a.org''"
      "ev_sender ?e = ''@mod:a.org''" "membership example_ext ?e = Inr MBan"
    by (simp_all add: example_event_def membership_def content_membership_def example_ext_def example_membership_def)
  from kick_ban_outranks [OF ok e(1,2)] e(3,4) ok show ?thesis by auto
qed

section \<open>The part of the state a check depends on\<close>

lemma rbind_cong:
  "m = m' \<Longrightarrow> (\<And>a. m' = Inr a \<Longrightarrow> h a = h' a) \<Longrightarrow> rbind m h = rbind m' h'"
  by (cases m') auto

lemma auth_types_base:
  assumes "auth_types_for_event X rules type sender key content = Inr types" "type \<noteq> ''m.room.create''"
  shows "(''m.room.power_levels'', []) \<in> set types" "(''m.room.member'', sender) \<in> set types"
  using assms
  by (auto simp: auth_types_for_event_def rbind_Inr_iff Let_def split: if_splits option.splits)

lemma auth_types_member:
  assumes "auth_types_for_event X rules ''m.room.member'' sender (Some key) content = Inr types"
    and "content_membership X content = Inr m"
  shows "(''m.room.member'', key) \<in> set types"
    and "m \<in> {MJoin, MInvite, MKnock} \<Longrightarrow> (''m.room.join_rules'', []) \<in> set types"
    and "m = MInvite \<Longrightarrow> content_third_party_invite X content = Inr (Some tpi) \<Longrightarrow> tpi_token tpi = Inr token \<Longrightarrow>
      (''m.room.third_party_invite'', token) \<in> set types"
    and "m = MJoin \<Longrightarrow> restricted_join_rule rules \<Longrightarrow>
      content_join_authorised_via_users_server X content = Inr (Some a) \<Longrightarrow> (''m.room.member'', a) \<in> set types"
  using assms
  by (auto simp: auth_types_for_event_def rbind_Inr_iff Let_def split: if_splits option.splits)

lemma fetch_cong:
  "f ''m.room.member'' u = g ''m.room.member'' u \<Longrightarrow> fetch_user_membership X f u = fetch_user_membership X g u"
  "f ''m.room.power_levels'' [] = g ''m.room.power_levels'' [] \<Longrightarrow>
     fetch_room_power_levels_event f = fetch_room_power_levels_event g"
  "f ''m.room.join_rules'' [] = g ''m.room.join_rules'' [] \<Longrightarrow> fetch_join_rule X f = fetch_join_rule X g"
  by (simp_all add: fetch_user_membership_def fetch_room_power_levels_event_def fetch_join_rule_def)

lemma check_room_member_join_cong:
  assumes "f ''m.room.member'' target = g ''m.room.member'' target"
    and "f ''m.room.power_levels'' [] = g ''m.room.power_levels'' []"
    and "f ''m.room.join_rules'' [] = g ''m.room.join_rules'' []"
    and "\<And>a. restricted_join_rule rules \<Longrightarrow> content_join_authorised_via_users_server X (ev_content e) = Inr (Some a) \<Longrightarrow>
           f ''m.room.member'' a = g ''m.room.member'' a"
    and "knock_restricted_join_rule rules \<Longrightarrow> restricted_join_rule rules"
  shows "check_room_member_join X rules e target create f = check_room_member_join X rules e target create g"
proof -
  note eqs = fetch_cong(1) [of f target g X, OF assms(1)] fetch_cong(2) [of f g, OF assms(2)]
    fetch_cong(3) [of f g X, OF assms(3)]
  show ?thesis
  proof (cases "restricted_join_rule rules")
    case True
    note auth = fetch_cong(1) [of f _ g X, OF assms(4) [OF True]]
    show ?thesis
      unfolding check_room_member_join_def eqs Let_def
      by (intro rbind_cong refl if_cong option.case_cong) (auto intro!: rbind_cong auth)
  next
    case False
    then have "\<not> knock_restricted_join_rule rules" using assms(5) by blast
    with False show ?thesis
      unfolding check_room_member_join_def eqs Let_def by (simp cong: if_cong)
  qed
qed

lemma check_room_member_invite_cong:
  assumes "f ''m.room.member'' target = g ''m.room.member'' target"
    and "f ''m.room.member'' (ev_sender e) = g ''m.room.member'' (ev_sender e)"
    and "f ''m.room.power_levels'' [] = g ''m.room.power_levels'' []"
    and "\<And>tpi token. content_third_party_invite X (ev_content e) = Inr (Some tpi) \<Longrightarrow> tpi_token tpi = Inr token \<Longrightarrow>
           f ''m.room.third_party_invite'' token = g ''m.room.third_party_invite'' token"
  shows "check_room_member_invite X rules e target create f = check_room_member_invite X rules e target create g"
proof -
  note eqs = fetch_cong(1) [of f target g X, OF assms(1)] fetch_cong(1) [of f "ev_sender e" g X, OF assms(2)]
    fetch_cong(2) [of f g, OF assms(3)]
  have "check_third_party_invite X e tpi target f = check_third_party_invite X e tpi target g"
    if "content_third_party_invite X (ev_content e) = Inr (Some tpi)" for tpi
    unfolding check_third_party_invite_def eqs fetch_room_third_party_invite_event_def
    using assms(4) [OF that] by (intro rbind_cong refl if_cong) (auto split: option.splits)
  then show ?thesis
    unfolding check_room_member_invite_def eqs
    by (intro rbind_cong refl) (auto split: option.splits)
qed

lemma check_room_member_others_cong:
  assumes "f ''m.room.member'' target = g ''m.room.member'' target"
    and "f ''m.room.member'' (ev_sender e) = g ''m.room.member'' (ev_sender e)"
    and "f ''m.room.power_levels'' [] = g ''m.room.power_levels'' []"
  shows "check_room_member_leave X rules e target create f = check_room_member_leave X rules e target create g"
    and "check_room_member_ban X rules e target create f = check_room_member_ban X rules e target create g"
    and "f ''m.room.join_rules'' [] = g ''m.room.join_rules'' [] \<Longrightarrow>
      check_room_member_knock X rules e target f = check_room_member_knock X rules e target g"
proof -
  note eqs = fetch_cong(1) [of f target g X, OF assms(1)] fetch_cong(1) [of f "ev_sender e" g X, OF assms(2)]
    fetch_cong(2) [of f g, OF assms(3)]
  show "check_room_member_leave X rules e target create f = check_room_member_leave X rules e target create g"
    unfolding check_room_member_leave_def eqs by (rule refl)
  show "check_room_member_ban X rules e target create f = check_room_member_ban X rules e target create g"
    unfolding check_room_member_ban_def eqs by (rule refl)
  assume "f ''m.room.join_rules'' [] = g ''m.room.join_rules'' []"
  then show "check_room_member_knock X rules e target f = check_room_member_knock X rules e target g"
    unfolding check_room_member_knock_def eqs fetch_cong(3) [of f g X, OF \<open>f ''m.room.join_rules'' [] = g ''m.room.join_rules'' []\<close>]
    by (intro refl)
qed

lemma check_room_member_cong:
  assumes types: "auth_types_for_event X rules ''m.room.member'' (ev_sender e) (ev_state_key e) (ev_content e) = Inr types"
    and same: "\<And>t k. (t, k) \<in> set types \<Longrightarrow> f t k = g t k"
    and rules: "knock_restricted_join_rule rules \<Longrightarrow> restricted_join_rule rules"
  shows "check_room_member X rules e create f = check_room_member X rules e create g"
proof (cases "ev_state_key e")
  case None
  then show ?thesis by (simp add: check_room_member_def)
next
  case (Some target)
  note types' = types [unfolded Some]
  have base: "f ''m.room.power_levels'' [] = g ''m.room.power_levels'' []"
      "f ''m.room.member'' (ev_sender e) = g ''m.room.member'' (ev_sender e)"
    using auth_types_base [OF types'] same by simp_all
  show ?thesis
  proof (cases "membership X e")
    case (Inl err)
    with Some show ?thesis by (simp add: check_room_member_def)
  next
    case (Inr m)
    then have m: "content_membership X (ev_content e) = Inr m" by (simp add: membership_def)
    note am = auth_types_member [OF types' m]
    have target: "f ''m.room.member'' target = g ''m.room.member'' target" using am(1) same by blast
    show ?thesis
    proof (cases m)
      case MJoin
      have "check_room_member_join X rules e target create f = check_room_member_join X rules e target create g"
        using am(2,4) MJoin same rules by (intro check_room_member_join_cong target base) blast+
      with Some Inr MJoin show ?thesis by (simp add: check_room_member_def)
    next
      case MInvite
      have "check_room_member_invite X rules e target create f = check_room_member_invite X rules e target create g"
        using am(3) MInvite same by (intro check_room_member_invite_cong target base) blast
      with Some Inr MInvite show ?thesis by (simp add: check_room_member_def)
    next
      case MKnock
      then have "f ''m.room.join_rules'' [] = g ''m.room.join_rules'' []" using am(2) same by blast
      with Some Inr MKnock check_room_member_others_cong(3) [OF target base(2,1)] show ?thesis
        by (simp add: check_room_member_def)
    qed (use Some Inr check_room_member_others_cong(1,2) [OF target base(2,1)] in
        \<open>simp_all add: check_room_member_def\<close>)
  qed
qed

text \<open>
  (C6) The selection of auth events is complete: the state-dependent checks of an event give the same
  result in any two states that agree on the create event and on the keys
  \<open>auth_types_for_event\<close> returns, in every room version where knock-restricted joins come with
  restricted joins.
\<close>

theorem auth_types_complete:
  assumes "auth_types_for_event X rules (ev_event_type e) (ev_sender e) (ev_state_key e) (ev_content e) = Inr types"
    and "\<forall>(t, k)\<in>insert (''m.room.create'', []) (set types). f t k = g t k"
    and "knock_restricted_join_rule rules \<longrightarrow> restricted_join_rule rules"
  shows "check_state_dependent_auth_rules X rules e f = check_state_dependent_auth_rules X rules e g"
proof (cases "ev_event_type e = ''m.room.create''")
  case True
  then show ?thesis by (simp add: check_state_dependent_auth_rules_def)
next
  case False
  have same: "f t k = g t k" if "(t, k) \<in> set types" for t k using assms(2) that by auto
  have create: "fetch_room_create_event f = fetch_room_create_event g"
    using assms(2) by (simp add: fetch_room_create_event_def)
  have other: "check_other_event X rules e create f = check_other_event X rules e create g" for create
    unfolding check_other_event_def
      fetch_cong(1) [of f "ev_sender e" g X, OF same [OF auth_types_base(2) [OF assms(1) False]]]
      fetch_cong(2) [of f g, OF same [OF auth_types_base(1) [OF assms(1) False]]]
    by (rule refl)
  show ?thesis
  proof (cases "ev_event_type e = ''m.room.member''")
    case True
    have "check_room_member X rules e create f = check_room_member X rules e create g" for create
      using assms(1,3) same unfolding True by (blast intro: check_room_member_cong)
    with create True show ?thesis by (simp add: check_state_dependent_auth_rules_def cong: if_cong)
  next
    case False
    with create other show ?thesis by (simp add: check_state_dependent_auth_rules_def cong: if_cong)
  qed
qed

theorem auth_types_complete_witness:
  "check_state_dependent_auth_rules example_ext AuthorizationRules_V10
     (example_event ''$t:a.org'' ''m.room.topic'' ''@mod:a.org'' (Some []) [] [])
     (\<lambda>t k. if t = ''m.room.topic'' then None else example_state t k) =
   check_state_dependent_auth_rules example_ext AuthorizationRules_V10
     (example_event ''$t:a.org'' ''m.room.topic'' ''@mod:a.org'' (Some []) [] []) example_state"
proof (rule auth_types_complete)
  show "auth_types_for_event example_ext AuthorizationRules_V10
      (ev_event_type (example_event ''$t:a.org'' ''m.room.topic'' ''@mod:a.org'' (Some []) [] []))
      (ev_sender (example_event ''$t:a.org'' ''m.room.topic'' ''@mod:a.org'' (Some []) [] []))
      (ev_state_key (example_event ''$t:a.org'' ''m.room.topic'' ''@mod:a.org'' (Some []) [] []))
      (ev_content (example_event ''$t:a.org'' ''m.room.topic'' ''@mod:a.org'' (Some []) [] [])) =
      Inr [(''m.room.power_levels'', []), (''m.room.member'', ''@mod:a.org''), (''m.room.create'', [])]"
    by code_simp
qed (simp_all add: rules_defs)

section \<open>The clients' checks agree with the servers'\<close>

fun content_field :: "room_power_levels_event_content \<Rightarrow> room_power_levels_int_field \<Rightarrow> int" where
  "content_field c UsersDefault = plc_users_default c"
| "content_field c EventsDefault = plc_events_default c"
| "content_field c StateDefault = plc_state_default c"
| "content_field c FieldBan = plc_ban c"
| "content_field c FieldRedact = plc_redact c"
| "content_field c FieldKick = plc_kick c"
| "content_field c FieldInvite = plc_invite c"

text \<open>
  Reading the event field by field, as the servers do, and deserializing its whole content, as the
  clients do, give the same levels. Without an event, both use the defaults.
\<close>

definition source_agrees :: "ext \<Rightarrow> authorization_rules \<Rightarrow> event option \<Rightarrow> room_power_levels_source \<Rightarrow> bool" where
  "source_agrees X rules eo src =
     (case (eo, src) of
        (Some e, Original c) \<Rightarrow>
          (\<forall>field. get_as_int_or_default X rules e field = Inr (content_field c field))
          \<and> (\<exists>m. pl_users X rules e = Inr m \<and> (\<forall>u. opt_get m u = map_of (plc_users c) u))
          \<and> (\<exists>m. pl_events X rules e = Inr m \<and> (\<forall>t. opt_get m t = map_of (plc_events c) t))
      | (None, NoSource) \<Rightarrow> True
      | _ \<Rightarrow> False)"

lemma hm_extend_const:
  "map_of (hm_extend m (map (\<lambda>u. (u, v)) us)) k = (if k \<in> set us then Some v else map_of m k)"
  unfolding hm_extend_def by (induction us arbitrary: m) auto

lemma source_agrees_cases:
  assumes "source_agrees X rules eo src"
  obtains (content) e c where "eo = Some e" "src = Original c"
      "\<And>field. get_as_int_or_default X rules e field = Inr (content_field c field)"
      "\<exists>m. pl_users X rules e = Inr m \<and> (\<forall>u. opt_get m u = map_of (plc_users c) u)"
      "\<exists>m. pl_events X rules e = Inr m \<and> (\<forall>t. opt_get m t = map_of (plc_events c) t)"
    | (none) "eo = None" "src = NoSource"
  using assms
  by (cases eo; cases src) (auto simp: source_agrees_def)

lemma user_power_level_agrees:
  assumes "source_agrees X rules eo src"
  shows "user_power_level X rules eo u cs = Inr (for_user (RoomPowerLevels_new src rules cs) u)"
  using assms
proof (cases rule: source_agrees_cases)
  case (content e c)
  from content(4) obtain m where m: "pl_users X rules e = Inr m" "\<And>u. opt_get m u = map_of (plc_users c) u"
    by blast
  show ?thesis
    by (cases "map_of (plc_users c) u")
      (auto simp: content(1,2,3) m user_power_level_def event_user_power_level_def for_user_def
        is_privileged_creator_def RoomPowerLevels_new_def RoomPowerLevelsRules_new_def)
next
  case none
  then show ?thesis
    by (auto simp: user_power_level_def for_user_def is_privileged_creator_def RoomPowerLevels_new_def
        RoomPowerLevelsRules_new_def hm_extend_const DEFAULT_CREATOR_POWER_LEVEL_def)
qed

lemma int_field_agrees:
  assumes "source_agrees X rules eo src"
  shows "option_get_as_int_or_default X rules eo FieldBan = Inr (rpl_ban (RoomPowerLevels_new src rules cs))"
    and "option_get_as_int_or_default X rules eo FieldKick = Inr (rpl_kick (RoomPowerLevels_new src rules cs))"
    and "option_get_as_int_or_default X rules eo FieldInvite = Inr (rpl_invite (RoomPowerLevels_new src rules cs))"
  using assms
  by (cases rule: source_agrees_cases;
      simp add: option_get_as_int_or_default_def RoomPowerLevels_new_def default_power_level_def)+

lemma event_power_level_agrees:
  assumes "source_agrees X rules eo src"
  shows "event_power_level X rules eo t key = Inr
    (if key = None then for_message (RoomPowerLevels_new src rules cs) t
     else for_state (RoomPowerLevels_new src rules cs) t)"
  using assms
proof (cases rule: source_agrees_cases)
  case (content e c)
  from content(5) obtain m where m: "pl_events X rules e = Inr m" "\<And>t. opt_get m t = map_of (plc_events c) t"
    by blast
  show ?thesis
    by (cases "map_of (plc_events c) t")
      (auto simp: content(1,2,3) m event_power_level_def event_event_power_level_def for_message_def
        for_state_def RoomPowerLevels_new_def default_event_field_def)
next
  case none
  then show ?thesis
    by (simp add: event_power_level_def for_message_def for_state_def RoomPowerLevels_new_def
        default_event_field_def default_power_level_def)
qed



section \<open>State-independent rules\<close>

definition auth_key :: "fetch_event \<Rightarrow> string \<Rightarrow> (string \<times> string) option" where
  "auth_key fetch i =
     (case fetch i of None \<Rightarrow> None | Some a \<Rightarrow> map_option (\<lambda>k. (ev_event_type a, k)) (ev_state_key a))"

definition good_auth_event :: "fetch_event \<Rightarrow> (string \<times> string) list \<Rightarrow> string \<Rightarrow> string \<Rightarrow> bool" where
  "good_auth_event fetch expected room i \<longleftrightarrow>
     (\<exists>a k. fetch i = Some a \<and> ev_room_id a = Some room \<and> ev_state_key a = Some k
        \<and> (ev_event_type a, k) \<in> set expected \<and> \<not> ev_rejected a)"

lemma check_auth_events_iff:
  "check_auth_events fetch expected room ids seen = Inr r \<longleftrightarrow>
     (\<forall>i \<in> set ids. good_auth_event fetch expected room i \<and> auth_key fetch i \<notin> Some ` set seen)
     \<and> distinct (map (auth_key fetch) ids)
     \<and> r = fold set_insert (map (\<lambda>i. the (auth_key fetch i)) ids) seen"
proof (induction ids arbitrary: seen)
  case (Cons i ids)
  show ?case
  proof (cases "good_auth_event fetch expected room i")
    case True
    then obtain a k where a: "fetch i = Some a" "ev_room_id a = Some room" "ev_state_key a = Some k"
      "(ev_event_type a, k) \<in> set expected" "\<not> ev_rejected a"
      by (auto simp: good_auth_event_def)
    then have key: "auth_key fetch i = Some (ev_event_type a, k)" by (simp add: auth_key_def)
    show ?thesis
      using True a by (auto simp: key Cons.IH Let_def) (metis image_eqI)
  next
    case False
    then show ?thesis by (auto simp: good_auth_event_def Let_def split: option.splits)
  qed
qed auto

text \<open>
  (C29) The first five steps of the authorization rules, in full. An event other than the creation of
  the room passes them exactly when every auth event of it exists, is a state event of the same room,
  is one that the selection algorithm asks for, and is not rejected; no two have the same type
  and state key; and the creation of the room is among them or, where its event ID is the room ID,
  exists and is not rejected. A create event passes when \<open>check_room_create\<close> does.
\<close>

theorem state_independent_rules_iff:
  "(check_state_independent_auth_rules X rules e fetch = Inr ()) =
     (if ev_event_type e = ''m.room.create'' then check_room_create X rules e = Inr ()
      else \<exists>expected room.
        auth_types_for_event X rules (ev_event_type e) (ev_sender e) (ev_state_key e) (ev_content e) = Inr expected
        \<and> ev_room_id e = Some room
        \<and> list_all (good_auth_event fetch expected room) (ev_auth_events e)
        \<and> distinct (map (auth_key fetch) (ev_auth_events e))
        \<and> (if room_create_event_id_as_room_id rules
            then \<exists>i create. room_create_event_id X room = Inr i \<and> fetch i = Some create \<and> \<not> ev_rejected create
            else \<exists>k. Some (''m.room.create'', k) \<in> auth_key fetch ` set (ev_auth_events e)))"
proof -
  have created: "list_ex (\<lambda>(t, _). t = ''m.room.create'') (fold set_insert (map (\<lambda>i. the (auth_key fetch i)) ids) [])
      \<longleftrightarrow> (\<exists>k. Some (''m.room.create'', k) \<in> auth_key fetch ` set ids)"
    if "\<forall>i \<in> set ids. good_auth_event fetch expected room i" for ids expected room
  proof -
    have "\<exists>key. auth_key fetch i = Some key" if "i \<in> set ids" for i
      using that \<open>\<forall>i \<in> set ids. good_auth_event fetch expected room i\<close>
      by (fastforce simp: good_auth_event_def auth_key_def)
    then show ?thesis
      by (force simp: list_ex_iff image_iff)
  qed
  show ?thesis
    by (cases "room_create_event_id_as_room_id rules")
      (auto simp: check_state_independent_auth_rules_def rbind_Inr_iff ok_or_Inr_iff ensure_Inr_iff
        check_auth_events_iff list_all_iff created, metis imageI)
qed

section \<open>Panics\<close>

lemma rbind_Panic_iff: "rbind m f = Inl Panic \<longleftrightarrow> m = Inl Panic \<or> (\<exists>a. m = Inr a \<and> f a = Inl Panic)"
  by (auto simp: rbind_Inl_iff)

lemma ok_or_Err_not_Panic [simp]: "ok_or x (Err e) \<noteq> Inl Panic"
  by (cases x) (simp_all add: ok_or_def)

definition panicking_key_id :: "string \<Rightarrow> bool" where
  "panicking_key_id key_id \<longleftrightarrow>
     (\<exists>i. str_find CHR '':'' key_id = Some i \<and> i mod 256 \<noteq> 0 \<and> \<not> is_char_boundary key_id (i mod 256 + 1))"

lemma unat_of_nat_8: "unat (of_nat i :: 8 word) = i mod 256"
  by (simp add: unsigned_of_nat take_bit_eq_mod)

lemma of_nat_8_eq_0: "(of_nat i :: 8 word) = 0 \<longleftrightarrow> i mod 256 = 0"
  by (metis unat_of_nat_8 unat_0 unat_eq_zero)

lemma key_id_validate_Panic: "key_id_validate (\<lambda>_. Inr ()) key_id = Inl Panic \<longleftrightarrow> panicking_key_id key_id"
  by (auto simp: key_id_validate_def panicking_key_id_def rbind_Panic_iff ok_or_def Let_def slice_from_def
      unat_of_nat_8 of_nat_8_eq_0 map_err_def split: option.splits if_splits)

lemma key_id_algorithm_Panic:
  "key_id_validate K key_id = Inr c \<Longrightarrow> key_id_algorithm key_id \<noteq> Inl Panic"
  by (cases "str_find CHR '':'' key_id")
    (simp_all add: key_id_validate_def key_id_algorithm_def colon_idx_def ok_or_def)

lemma check_entity_signatures_Panic:
  "check_entity_signatures X keys json_text es = Inl Panic \<Longrightarrow> \<exists>k \<in> fst ` set es. panicking_key_id k"
proof (induction es)
  case (Cons x es)
  obtain k v where x: "x = (k, v)" by fastforce
  show ?case
  proof (cases "panicking_key_id k")
    case False
    then have "check_entity_signatures X keys json_text es = Inl Panic"
      using Cons.prems key_id_algorithm_Panic [of "\<lambda>_. Inr ()" k]
      by (cases v; cases "case v of CString s \<Rightarrow> x_base64_standard X s | _ \<Rightarrow> Inl ()")
        (auto simp: x key_id_validate_Panic rbind_Panic_iff
          split: sum.split_asm fail.split_asm if_split_asm)
    with Cons.IH show ?thesis by auto
  qed (simp add: x)
qed simp

lemma check_signatures_Panic:
  "check_signatures X keys json_text vs = Inl Panic \<Longrightarrow>
     \<exists>es. CObject es \<in> set vs \<and> (\<exists>k \<in> fst ` set es. panicking_key_id k)"
proof (induction vs)
  case (Cons v vs)
  from Cons.prems obtain es where v: "v = CObject es"
    by (auto split: canonical_json.splits)
  from Cons.prems have "check_entity_signatures X keys json_text es = Inl Panic
      \<or> check_signatures X keys json_text vs = Inl Panic"
    by (auto simp: v rbind_Panic_iff split: if_splits)
  then show ?case
    using Cons.IH check_entity_signatures_Panic [of X keys json_text es] v by auto
qed simp

lemma check_room_member_Panic:
  assumes "check_room_member X rules e create f = Inl Panic"
  shows "\<exists>target. check_room_member_invite X rules e target create f = Inl Panic"
proof -
  from assms obtain target m where "(case m of
       MJoin \<Rightarrow> lift (check_room_member_join X rules e target create f)
     | MInvite \<Rightarrow> check_room_member_invite X rules e target create f
     | MLeave \<Rightarrow> lift (check_room_member_leave X rules e target create f)
     | MBan \<Rightarrow> lift (check_room_member_ban X rules e target create f)
     | MKnock \<Rightarrow>
         if knocking rules then lift (check_room_member_knock X rules e target f)
         else reject (Message ''unknown membership'')
     | MCustom _ \<Rightarrow> reject (Message ''unknown membership'')) = Inl Panic"
    unfolding check_room_member_def rbind_Panic_iff by auto
  then show ?thesis by (cases m) (auto split: if_splits)
qed

text \<open>
  (C33) The rules can panic in one place only: on a membership event with a third-party invite whose
  signatures have a key ID that the truncated colon index of \<open>key_id::validate\<close> splits inside
  of a character. Every other event is allowed or rejected with an error.
\<close>

theorem panic_only_third_party_key_id:
  assumes "check_state_dependent_auth_rules X rules e f = Inl Panic"
  shows "\<exists>tpi sigs entity es key_id v.
    ev_event_type e = ''m.room.member''
    \<and> content_third_party_invite X (ev_content e) = Inr (Some tpi) \<and> tpi_signatures tpi = Inr sigs
    \<and> (entity, CObject es) \<in> set sigs \<and> (key_id, v) \<in> set es \<and> panicking_key_id key_id"
proof -
  from assms obtain create where type: "ev_event_type e = ''m.room.member''"
    and "check_room_member X rules e create f = Inl Panic"
    by (auto simp: check_state_dependent_auth_rules_def rbind_Panic_iff split: if_splits)
  then obtain target where "check_room_member_invite X rules e target create f = Inl Panic"
    using check_room_member_Panic by blast
  then obtain tpi where tpi: "content_third_party_invite X (ev_content e) = Inr (Some tpi)"
    and "check_third_party_invite X e tpi target f = Inl Panic"
    by (auto simp: check_room_member_invite_def rbind_Panic_iff split: option.splits)
  then obtain keys json_text sigs where sigs: "tpi_signatures tpi = Inr sigs"
    and "check_signatures X keys json_text (map snd sigs) = Inl Panic"
    by (auto simp: check_third_party_invite_def rbind_Panic_iff split: option.splits if_splits)
  then obtain es k where es: "CObject es \<in> snd ` set sigs" "k \<in> fst ` set es" "panicking_key_id k"
    using check_signatures_Panic by fastforce
  then obtain entity v where "(entity, CObject es) \<in> set sigs" "(k, v) \<in> set es" by force
  with type tpi sigs es(3) show ?thesis by blast
qed

definition panicking_invite :: third_party_invite where
  "panicking_invite = \<lparr>tpi_signed =
     [(''mxid'', CString ''@guest:b.org''), (''token'', CString ''tok''),
      (''signatures'', CObject [(''id.org'', CObject
         [(''aa'' @ [CHR 0xC3, CHR 0xA9] @ replicate 254 CHR ''a'' @ '':x'', CString ''sig'')])])]\<rparr>"

definition panicking_state :: fetch_state where
  "panicking_state type key =
     (if type = ''m.room.third_party_invite'' \<and> key = ''tok'' then
        Some (example_event ''$tpi:a.org'' type ''@admin:a.org'' (Some key) [] [])
      else example_state type key)"

theorem panic_only_third_party_key_id_witness:
  "let X = example_ext\<lparr>x_third_party_invite := \<lambda>_. Inr (Some panicking_invite)\<rparr>;
       e = example_event ''$i:a.org'' ''m.room.member'' ''@admin:a.org'' (Some ''@guest:b.org'') ''invite'' []
   in check_state_dependent_auth_rules X AuthorizationRules_V10 e panicking_state = Inl Panic
      \<and> (\<exists>tpi. content_third_party_invite X (ev_content e) = Inr (Some tpi))"
proof -
  let ?X = "example_ext\<lparr>x_third_party_invite := \<lambda>_. Inr (Some panicking_invite)\<rparr>"
  let ?e = "example_event ''$i:a.org'' ''m.room.member'' ''@admin:a.org'' (Some ''@guest:b.org'') ''invite'' []"
  have "check_state_dependent_auth_rules ?X AuthorizationRules_V10 ?e panicking_state = Inl Panic"
    by code_simp
  then show ?thesis
    using panic_only_third_party_key_id [of ?X AuthorizationRules_V10 ?e panicking_state] unfolding Let_def by blast
qed

end
