(* ===== verification/Resolve_Props.thy ===== *)
theory Resolve_Props
  imports Mainline Event_Auth_Props
begin

text \<open>
  What state resolution guarantees: the parts it is composed of compute what the specification of
  state resolution version 2 says, a run ends when the auth events have no cycles, unconflicted state
  is kept, conflicted state is decided by the authorization rules only, and the iteration
  order of hash maps and hash sets does not matter.
\<close>

section \<open>An example room\<close>

text \<open>
  A moderator bans a user in one fork, the user joins again in the other. The banned user's second
  join does not mention the ban.
\<close>

definition example_events :: "event list" where
  "example_events =
     [example_event ''$create'' ''m.room.create'' ''@admin:a.org'' (Some []) [] [],
      example_event ''$admin'' ''m.room.member'' ''@admin:a.org'' (Some ''@admin:a.org'') ''join'' [''$create''],
      example_event ''$pl'' ''m.room.power_levels'' ''@admin:a.org'' (Some []) ''pl1'' [''$create'', ''$admin''],
      example_event ''$rules'' ''m.room.join_rules'' ''@admin:a.org'' (Some []) ''public''
        [''$create'', ''$pl'', ''$admin''],
      example_event ''$mod'' ''m.room.member'' ''@mod:a.org'' (Some ''@mod:a.org'') ''join''
        [''$create'', ''$pl'', ''$rules''],
      example_event ''$user'' ''m.room.member'' ''@user:a.org'' (Some ''@user:a.org'') ''join''
        [''$create'', ''$pl'', ''$rules''],
      example_event ''$ban'' ''m.room.member'' ''@mod:a.org'' (Some ''@user:a.org'') ''ban''
        [''$create'', ''$pl'', ''$mod'', ''$user''],
      example_event ''$join'' ''m.room.member'' ''@user:a.org'' (Some ''@user:a.org'') ''join''
        [''$create'', ''$pl'', ''$rules'', ''$user'']]"

definition example_fetch :: fetch_event where
  "example_fetch = map_of (map (\<lambda>e. (ev_event_id e, e)) example_events)"

definition example_common :: "string state_map" where
  "example_common =
     [((''m.room.create'', []), ''$create''), ((''m.room.member'', ''@admin:a.org''), ''$admin''),
      ((''m.room.power_levels'', []), ''$pl''), ((''m.room.join_rules'', []), ''$rules''),
      ((''m.room.member'', ''@mod:a.org''), ''$mod'')]"

definition example_state_maps :: "string state_map list" where
  "example_state_maps =
     [((''m.room.member'', ''@user:a.org''), ''$ban'') # example_common,
      example_common @ [((''m.room.member'', ''@user:a.org''), ''$join'')]]"

definition example_auth_chains :: "string list list" where
  "example_auth_chains =
     [[''$create'', ''$admin'', ''$pl'', ''$rules'', ''$mod'', ''$user''],
      [''$rules'', ''$create'', ''$pl'', ''$admin'', ''$user'']]"

section \<open>The iterative auth checks\<close>

text \<open>
  The state an event is checked against: its own accepted auth events, overridden by the events of the
  resolved state so far for the keys the selection algorithm returns.
\<close>

definition auth_view :: "ext \<Rightarrow> authorization_rules \<Rightarrow> fetch_event \<Rightarrow> string state_map \<Rightarrow> event \<Rightarrow> fetch_state \<Rightarrow> bool" where
  "auth_view X rules fetch state e f \<longleftrightarrow>
     (\<forall>t k a. f t k = Some a \<longrightarrow>
        (\<exists>i. map_of state (t, k) = Some i \<and> fetch i = Some a \<and> \<not> ev_rejected a)
        \<or> (\<exists>i\<in>set (ev_auth_events e). fetch i = Some a \<and> \<not> ev_rejected a
             \<and> ev_event_type a = t \<and> ev_state_key a = Some k)
        \<or> (t, k) = (''m.room.create'', []) \<and> create_event_of_room X fetch e = Some a)
     \<and> (\<forall>types t k i a. auth_types_for_event X rules (ev_event_type e) (ev_sender e) (ev_state_key e) (ev_content e) = Inr types
          \<longrightarrow> (t, k) \<in> set types \<longrightarrow> map_of state (t, k) = Some i \<longrightarrow> fetch i = Some a \<longrightarrow> \<not> ev_rejected a
          \<longrightarrow> f t k = Some a)"

definition resolved_event :: "ext \<Rightarrow> authorization_rules \<Rightarrow> fetch_event \<Rightarrow> string state_map \<Rightarrow> state_key \<Rightarrow> string \<Rightarrow> bool" where
  "resolved_event X rules fetch state key i \<longleftrightarrow>
     (\<exists>e f. fetch i = Some e \<and> fst key = ev_event_type e \<and> ev_state_key e = Some (snd key)
        \<and> auth_view X rules fetch state e f
        \<and> check_state_dependent_auth_rules X rules e f = Inr ())"

lemma collect_auth_events_get:
  assumes "collect_auth_events fetch ids acc = Inr m" "map_of m key = Some a"
  shows "map_of acc key = Some a
    \<or> (\<exists>i\<in>set ids. fetch i = Some a \<and> \<not> ev_rejected a \<and> key = (ev_event_type a, the (ev_state_key a))
         \<and> ev_state_key a \<noteq> None)"
  using assms
proof (induction ids arbitrary: acc)
  case (Cons i ids)
  show ?case
  proof (cases "fetch i")
    case None
    with Cons show ?thesis by auto
  next
    case (Some b)
    show ?thesis
    proof (cases "ev_rejected b")
      case True
      with Some Cons show ?thesis by auto
    next
      case False
      with Some Cons.prems(1) obtain k where k: "ev_state_key b = Some k"
        and rest: "collect_auth_events fetch ids (hm_insert (ev_event_type b, k) b acc) = Inr m"
        by (auto split: option.splits)
      from Cons.IH [OF rest Cons.prems(2)] Some False k show ?thesis
        by (auto split: if_splits)
    qed
  qed
qed simp

lemma add_state_events_get:
  assumes "map_of (fold (add_state_event fetch state) keys acc) key = Some a"
  shows "map_of acc key = Some a \<or> (\<exists>i. map_of state key = Some i \<and> fetch i = Some a \<and> \<not> ev_rejected a)"
  using assms
proof (induction keys arbitrary: acc)
  case (Cons k keys)
  have "map_of (add_state_event fetch state k acc) key = Some a \<Longrightarrow>
      map_of acc key = Some a \<or> (\<exists>i. map_of state key = Some i \<and> fetch i = Some a \<and> \<not> ev_rejected a)"
    by (auto simp: add_state_event_def split: option.splits if_splits)
  with Cons.IH [of "add_state_event fetch state k acc"] Cons.prems show ?case by auto
qed simp

lemma add_state_events_overrides:
  assumes "map_of state key = Some i" "fetch i = Some a" "\<not> ev_rejected a"
    and "key \<in> set keys \<or> map_of acc key = Some a"
  shows "map_of (fold (add_state_event fetch state) keys acc) key = Some a"
  using assms(4)
proof (induction keys arbitrary: acc)
  case (Cons k keys)
  have "k = key \<or> map_of acc key = Some a \<Longrightarrow> map_of (add_state_event fetch state k acc) key = Some a"
    using assms(1-3) by (auto simp: add_state_event_def split: option.splits)
  with Cons show ?case by auto
qed simp

lemma auth_check_event_cases:
  assumes "auth_check_event X rules fetch i state = Inr state'"
  obtains (ignored) "state' = state"
  | (applied) key where "state' = hm_insert key i state" "resolved_event X rules fetch state key i"
proof -
  from assms obtain e k m where e: "fetch i = Some e" and k: "ev_state_key e = Some k"
    and m: "collect_auth_events fetch (ev_auth_events e) [] = Inr m"
    by (auto simp: auth_check_event_def rbind_Inr_iff ok_or_Inr_iff)
  note step = assms [unfolded auth_check_event_def e k m ok_or_simps rbind_simps]
  show thesis
  proof (cases "auth_types_for_event X rules (ev_event_type e) (ev_sender e) (Some k) (ev_content e)")
    case (Inl x)
    with step ignored show thesis by simp
  next
    case (Inr types)
    let ?m = "fold (add_state_event fetch state) types (add_room_create_event X rules fetch e m)"
    let ?f = "\<lambda>t k. map_of ?m (t, k)"
    show thesis
    proof (cases "check_state_dependent_auth_rules X rules e ?f")
      case (Inl x)
      with step Inr ignored show thesis by (cases x) simp_all
    next
      case (Inr u)
      have create: "map_of (add_room_create_event X rules fetch e m) key = Some a \<Longrightarrow>
          map_of m key = Some a \<or> key = (''m.room.create'', []) \<and> create_event_of_room X fetch e = Some a" for key a
        by (auto simp: add_room_create_event_def split: if_splits option.splits)
      have "auth_view X rules fetch state e ?f"
        unfolding auth_view_def
      proof (intro conjI allI impI)
        fix t k' a assume "map_of ?m (t, k') = Some a"
        from add_state_events_get [OF this] create [of "(t, k')" a]
          collect_auth_events_get [OF m, of "(t, k')" a]
        show "(\<exists>i. map_of state (t, k') = Some i \<and> fetch i = Some a \<and> \<not> ev_rejected a)
          \<or> (\<exists>i\<in>set (ev_auth_events e). fetch i = Some a \<and> \<not> ev_rejected a
               \<and> ev_event_type a = t \<and> ev_state_key a = Some k')
          \<or> (t, k') = (''m.room.create'', []) \<and> create_event_of_room X fetch e = Some a"
          by (metis empty_iff map_of.simps(1) option.distinct(1) option.collapse prod.inject)
      next
        fix types' t k' j a
        assume "auth_types_for_event X rules (ev_event_type e) (ev_sender e) (ev_state_key e) (ev_content e) = Inr types'"
          and "(t, k') \<in> set types'" "map_of state (t, k') = Some j" "fetch j = Some a" "\<not> ev_rejected a"
        with k \<open>auth_types_for_event X rules (ev_event_type e) (ev_sender e) (Some k) (ev_content e) = Inr types\<close>
        show "map_of ?m (t, k') = Some a" by (auto intro: add_state_events_overrides)
      qed
      with e k Inr have "resolved_event X rules fetch state (ev_event_type e, k) i"
        unfolding resolved_event_def by fastforce
      moreover have "state' = hm_insert (ev_event_type e, k) i state"
        using step Inr \<open>auth_types_for_event X rules (ev_event_type e) (ev_sender e) (Some k) (ev_content e) = Inr types\<close>
        by (simp add: Let_def)
      ultimately show thesis by (rule applied [rotated])
    qed
  qed
qed

lemma iterative_auth_checks_append:
  "iterative_auth_checks X rules (xs @ ys) state fetch =
     rbind (iterative_auth_checks X rules xs state fetch) (\<lambda>state. iterative_auth_checks X rules ys state fetch)"
  by (induction xs arbitrary: state) (simp_all add: rbind_assoc)

text \<open>Every entry of the result was there or is an allowed event of the list.\<close>

lemma iterative_auth_checks_sound:
  assumes "iterative_auth_checks X rules ids state fetch = Inr state'" "map_of state' key = Some i"
  shows "map_of state key = Some i
    \<or> (\<exists>us vs st. ids = us @ i # vs \<and> iterative_auth_checks X rules us state fetch = Inr st
         \<and> resolved_event X rules fetch st key i)"
  using assms
proof (induction ids arbitrary: state' rule: rev_induct)
  case (snoc j ids)
  from snoc.prems(1) obtain st where st: "iterative_auth_checks X rules ids state fetch = Inr st"
    and j: "auth_check_event X rules fetch j st = Inr state'"
    by (auto simp: iterative_auth_checks_append rbind_Inr_iff)
  from j show ?case
  proof (cases rule: auth_check_event_cases)
    case ignored
    with snoc.IH [OF st] snoc.prems(2) show ?thesis by (metis append_Cons append_assoc)
  next
    case (applied key')
    show ?thesis
    proof (cases "key' = key")
      case True
      with applied st snoc.prems(2) show ?thesis by auto
    next
      case False
      with applied(1) snoc.prems(2) have "map_of st key = Some i" by simp
      from snoc.IH [OF st this] show ?thesis by (metis append_Cons append_assoc)
    qed
  qed
qed simp

lemma iterative_auth_checks_wf:
  "iterative_auth_checks X rules ids state fetch = Inr state' \<Longrightarrow> hm_wf state \<Longrightarrow> hm_wf state'"
proof (induction ids arbitrary: state)
  case (Cons i ids)
  then obtain st where st: "auth_check_event X rules fetch i state = Inr st"
    and rest: "iterative_auth_checks X rules ids st fetch = Inr state'"
    by (auto simp: rbind_Inr_iff)
  from st Cons.prems(2) have "hm_wf st" by (cases rule: auth_check_event_cases) simp_all
  with Cons.IH [OF rest] show ?case by blast
qed simp

section \<open>The composition\<close>

text \<open>The full conflicted set, declaratively; \<open>sub\<close> is the conflicted state subgraph.\<close>

definition conflicted_ids :: "string state_map list \<Rightarrow> string list list \<Rightarrow> string list \<Rightarrow> fetch_event \<Rightarrow> string set" where
  "conflicted_ids ms auth_chains sub fetch =
     {i. fetch i \<noteq> None
       \<and> (i \<in> (\<Union>c\<in>set auth_chains. set c) - (\<Inter>c\<in>set auth_chains. set c)
          \<or> (\<exists>k. (\<exists>m\<in>set ms. map_of m k = Some i) \<and> (\<exists>m\<in>set ms. map_of m k \<noteq> Some i))
          \<or> i \<in> set sub)}"

lemma set_full_conflicted_set:
  assumes "is_hash_order h" "\<forall>m\<in>set ms. hm_wf m" "\<forall>c\<in>set auth_chains. distinct c"
    and "split_conflicted_state_set ms = (u, c)"
  shows "set (full_conflicted_set h auth_chains c sub fetch) = conflicted_ids ms auth_chains sub fetch"
    and "distinct (full_conflicted_set h auth_chains c sub fetch)"
proof -
  have "i \<in> set (concat (map snd c)) \<longleftrightarrow> (\<exists>k. i \<in> ids_at c k)" for i
  proof
    assume "i \<in> set (concat (map snd c))"
    then obtain k ids where "(k, ids) \<in> set c" "i \<in> set ids" by auto
    with split_conflicted(4) [OF assms(2,4)] show "\<exists>k. i \<in> ids_at c k"
      by (intro exI [of _ k]) (simp add: ids_at_def)
  next
    assume "\<exists>k. i \<in> ids_at c k"
    then show "i \<in> set (concat (map snd c))"
      by (force simp: ids_at_def dest: map_of_SomeD split: option.splits)
  qed
  then have conf: "i \<in> set (concat (map snd c)) \<longleftrightarrow>
      (\<exists>k. (\<exists>m\<in>set ms. map_of m k = Some i) \<and> (\<exists>m\<in>set ms. map_of m k \<noteq> Some i))" for i
    by (simp only: split_conflicted(2) [OF assms(2,4)])
  show "set (full_conflicted_set h auth_chains c sub fetch) = conflicted_ids ms auth_chains sub fetch"
    unfolding full_conflicted_set_def conflicted_ids_def is_hash_orderD(1) [OF assms(1)]
      collect_set_simps set_filter set_append Un_iff set_auth_difference [OF assms(3)] conf by auto
  show "distinct (full_conflicted_set h auth_chains c sub fetch)"
    by (simp add: full_conflicted_set_def is_hash_orderD(2) [OF assms(1)])
qed

lemma mainline_sort_members:
  assumes "is_hash_order h" "wf (auth_rel fetch)" "mainline_sort h ids pl fetch = Some (Inr xs)"
  shows "distinct xs" "set xs \<subseteq> set ids"
proof -
  have "distinct xs \<and> set xs \<subseteq> set ids"
  proof (cases "ids = []")
    case False
    with assms(3) obtain ml where "mainline_of fetch pl [] = Some (Inr ml)"
      by (auto simp: mainline_sort_def obind_Inr_iff)
    from mainline_sort_result [OF assms(1,2) this, of ids] assms(3) show ?thesis by auto
  qed (use assms(3) in \<open>simp add: mainline_sort_def\<close>)
  then show "distinct xs" "set xs \<subseteq> set ids" by simp_all
qed

lemma sort_power_events_members:
  assumes "is_hash_order h" "\<forall>i\<in>set full. fetch i \<noteq> None" "set ps \<subseteq> set full"
    and "sort_power_events X h ps full rules fetch = Inr xs"
  shows "distinct xs" "set xs \<subseteq> set full"
proof -
  have found: "\<forall>i\<in>set ps \<union> set full. fetch i \<noteq> None" using assms(2,3) by blast
  from sort_power_events_cases [OF assms(1) found, of X rules] assms(4) obtain levels where
    "power_ordering (power_events_graph h ps full fetch) (power_event_details fetch levels) xs"
    by (metis sum.distinct(1) sum.inject(2))
  then have "distinct xs \<and> set xs \<subseteq> power_event_closure fetch full ps"
    using greedy_distinct power_events_graph_result(2) [OF assms(1)] unfolding power_ordering_def by metis
  with power_event_closure_subset [of fetch full ps] assms(3) show "distinct xs" "set xs \<subseteq> set full" by blast+
qed

lemma resolve_conflicts_Inr:
  assumes "resolve_conflicts X h rules sr u full fetch = Some (Inr s)"
  obtains pe part re final where
    "sort_power_events X h (filter (is_power_event_id X fetch) full) full rules fetch = Inr pe"
    "iterative_auth_checks X rules pe
       (if begin_iterative_auth_checks_with_empty_state_map sr then [] else u) fetch = Inr part"
    "mainline_sort h (filter (\<lambda>i. i \<notin> set pe) full) (map_of part (''m.room.power_levels'', [])) fetch = Some (Inr re)"
    "iterative_auth_checks X rules re part fetch = Inr final"
    "s = hm_extend final u"
  using assms unfolding resolve_conflicts_def obind_Inr_iff Let_def collect_set_simps option.inject sum.inject
  by blast

lemma resolve_conflicts_sound:
  assumes h: "is_hash_order h" and wf: "wf (auth_rel fetch)"
    and full: "\<forall>i\<in>set full. fetch i \<noteq> None"
    and res: "resolve_conflicts X h rules sr u full fetch = Some (Inr s)"
    and u: "hm_wf u" and s: "map_of s key = Some i"
  shows "map_of u key = Some i
    \<or> (\<exists>ids st. distinct (ids @ [i]) \<and> set (ids @ [i]) \<subseteq> set full
         \<and> iterative_auth_checks X rules ids
             (if begin_iterative_auth_checks_with_empty_state_map sr then [] else u) fetch = Inr st
         \<and> resolved_event X rules fetch st key i)"
proof -
  let ?init = "if begin_iterative_auth_checks_with_empty_state_map sr then [] else u"
  from resolve_conflicts_Inr [OF res] obtain pe part re final where
    pe: "sort_power_events X h (filter (is_power_event_id X fetch) full) full rules fetch = Inr pe"
    and part: "iterative_auth_checks X rules pe ?init fetch = Inr part"
    and re: "mainline_sort h (filter (\<lambda>i. i \<notin> set pe) full) (map_of part (''m.room.power_levels'', [])) fetch = Some (Inr re)"
    and final: "iterative_auth_checks X rules re part fetch = Inr final"
    and s_def: "s = hm_extend final u" .
  have pe_mem: "distinct pe" "set pe \<subseteq> set full"
    using sort_power_events_members [OF h full _ pe] by auto
  have re_mem: "distinct re" "set re \<subseteq> {i \<in> set full. i \<notin> set pe}"
    using mainline_sort_members [OF h wf re] by auto
  have all: "iterative_auth_checks X rules (pe @ re) ?init fetch = Inr final"
    by (simp add: iterative_auth_checks_append part final)
  have mem: "distinct (pe @ re)" "set (pe @ re) \<subseteq> set full" using pe_mem re_mem by auto
  from s u have "map_of u key = Some i \<or> map_of final key = Some i"
    by (auto simp: s_def map_of_hm_extend map_add_Some_iff)
  moreover have ?thesis if "map_of final key = Some i"
  proof -
    from iterative_auth_checks_sound [OF all that] have "map_of ?init key = Some i \<or>
      (\<exists>us vs st. pe @ re = us @ i # vs \<and> iterative_auth_checks X rules us ?init fetch = Inr st
         \<and> resolved_event X rules fetch st key i)" .
    then show ?thesis
    proof
      assume "map_of ?init key = Some i"
      then show ?thesis by (auto split: if_splits)
    next
      assume "\<exists>us vs st. pe @ re = us @ i # vs \<and> iterative_auth_checks X rules us ?init fetch = Inr st
         \<and> resolved_event X rules fetch st key i"
      then obtain us vs st where us: "pe @ re = us @ i # vs"
        and st: "iterative_auth_checks X rules us ?init fetch = Inr st" "resolved_event X rules fetch st key i"
        by blast
      from mem have "distinct (us @ [i])" "set (us @ [i]) \<subseteq> set full" unfolding us by auto
      with st show ?thesis by blast
    qed
  qed
  ultimately show ?thesis by blast
qed

section \<open>Termination\<close>

lemma mainline_sort_ends:
  assumes "wf (auth_rel fetch)"
  shows "\<exists>r. mainline_sort h ids pl fetch = Some r"
proof -
  obtain r where r: "mainline_of fetch pl [] = Some r" using mainline_of_ends [OF assms] by blast
  show ?thesis
  proof (cases r)
    case (Inr ml)
    obtain om where "mainline_order_map fetch (mainline_map_of ml) ids [] = Some (Inr om)"
      using mainline_order_map_result [OF assms] by blast
    with r Inr show ?thesis by (simp add: mainline_sort_def)
  qed (simp add: mainline_sort_def r)
qed

lemma obind_ends: "m \<noteq> None \<Longrightarrow> (\<And>a. m = Some (Inr a) \<Longrightarrow> f a \<noteq> None) \<Longrightarrow> obind m f \<noteq> None"
  by (auto simp: obind_def split: sum.splits)

lemma resolve_conflicts_ends:
  assumes "wf (auth_rel fetch)"
  shows "resolve_conflicts X h rules sr u full fetch \<noteq> None"
  unfolding resolve_conflicts_def Let_def
  using mainline_sort_ends [OF assms] by (intro obind_ends) auto

section \<open>The iteration order of hash maps does not matter\<close>

text \<open>
  A power event that cites its room's creation, with the same creators as every other, and no two
  different power levels events.
\<close>

definition cites_creators :: "ext \<Rightarrow> authorization_rules \<Rightarrow> fetch_event \<Rightarrow> string list \<Rightarrow> string \<Rightarrow> bool" where
  "cites_creators X rules fetch cs y \<longleftrightarrow> (\<exists>e p. fetch y = Some e
     \<and> (if room_create_event_id_as_room_id rules
        then \<exists>c. create_event_of_room X fetch e = Some c \<and> creators X rules c = Inr cs
        else (\<exists>i\<in>set (ev_auth_events e). \<exists>c. fetch i = Some c \<and> is_type_and_key c ''m.room.create'' [])
          \<and> (\<forall>i\<in>set (ev_auth_events e). \<forall>c. fetch i = Some c \<and> is_type_and_key c ''m.room.create'' []
               \<longrightarrow> creators X rules c = Inr cs))
     \<and> (\<forall>i\<in>set (ev_auth_events e). \<forall>a. fetch i = Some a \<and> is_type_and_key a ''m.room.power_levels'' [] \<longrightarrow> a = p))"

definition has_power_levels :: "fetch_event \<Rightarrow> string list \<Rightarrow> bool" where
  "has_power_levels fetch =
     list_ex (\<lambda>i. case fetch i of None \<Rightarrow> False | Some a \<Rightarrow> is_type_and_key a ''m.room.power_levels'' [])"

lemma scan_power_levels:
  assumes "\<forall>i\<in>set as. \<forall>a. fetch i = Some a \<and> is_type_and_key a ''m.room.power_levels'' [] \<longrightarrow> a = p"
    and "pl = None \<or> pl = Some p"
  shows "snd (scan_auth_events fetch rules known as create pl) =
    (if pl = Some p \<or> has_power_levels fetch as then Some p else None)"
  using assms
proof (induction as arbitrary: create pl)
  case (Cons i as)
  have IH: "snd (scan_auth_events fetch rules known as create' pl') =
      (if pl' = Some p \<or> has_power_levels fetch as then Some p else None)"
    if "pl' = None \<or> pl' = Some p" for create' pl'
    using Cons.IH [of pl' create'] Cons.prems(1) that by simp
  show ?case
  proof (cases "fetch i")
    case None
    with IH [OF Cons.prems(2)] show ?thesis by (simp add: has_power_levels_def)
  next
    case (Some a)
    show ?thesis
    proof (cases "is_type_and_key a ''m.room.power_levels'' []")
      case True
      with Some Cons.prems(1) have "a = p" by auto
      with True Some IH [of "Some p"] show ?thesis by (cases known) (simp_all add: has_power_levels_def)
    next
      case False
      with Some have "has_power_levels fetch (i # as) = has_power_levels fetch as"
        by (simp add: has_power_levels_def)
      with False Some IH [OF Cons.prems(2)] Cons.prems(2) show ?thesis by auto
    qed
  qed
qed (auto simp: has_power_levels_def)

lemma scan_create_unchanged:
  "room_create_event_id_as_room_id rules \<or> known \<Longrightarrow>
     fst (scan_auth_events fetch rules known as create pl) = create"
  by (induction as arbitrary: pl) (auto simp: Let_def split: option.splits)

lemma scan_create_found:
  assumes "\<not> room_create_event_id_as_room_id rules"
    and "create \<noteq> None \<or> (\<exists>i\<in>set as. \<exists>c. fetch i = Some c \<and> is_type_and_key c ''m.room.create'' [])"
  shows "\<exists>c. fst (scan_auth_events fetch rules False as create pl) = Some c
    \<and> (create = Some c \<or> (\<exists>i\<in>set as. fetch i = Some c \<and> is_type_and_key c ''m.room.create'' []))"
  using assms(2)
proof (induction as arbitrary: create pl)
  case (Cons i as)
  show ?case
  proof (cases "fetch i")
    case None
    with Cons.IH [of create pl] Cons.prems show ?thesis by auto
  next
    case (Some a)
    let ?c = "if is_type_and_key a ''m.room.power_levels'' [] then create
              else if is_type_and_key a ''m.room.create'' [] then Some a else create"
    let ?pl = "if is_type_and_key a ''m.room.power_levels'' [] then Some a else pl"
    have scan: "scan_auth_events fetch rules False (i # as) create pl =
        (if ?pl \<noteq> None \<and> ?c \<noteq> None then (?c, ?pl) else scan_auth_events fetch rules False as ?c ?pl)"
      using Some assms(1) by simp
    have not_both: "is_type_and_key a ''m.room.create'' [] \<Longrightarrow> \<not> is_type_and_key a ''m.room.power_levels'' []"
      by (simp add: is_type_and_key_def)
    show ?thesis
    proof (cases "?pl \<noteq> None \<and> ?c \<noteq> None")
      case True
      with scan Some show ?thesis by (auto split: if_splits)
    next
      case False
      have "?c \<noteq> None \<or> (\<exists>i\<in>set as. \<exists>c. fetch i = Some c \<and> is_type_and_key c ''m.room.create'' [])"
        using Cons.prems Some not_both by auto
      from Cons.IH [OF this, of ?pl] scan False Some show ?thesis
        by (auto split: if_splits)
    qed
  qed
qed simp

lemma power_level_for_sender_lock:
  assumes "cites_creators X rules fetch cs y" "lock = None \<or> lock = Some cs"
  shows "power_level_for_sender X y rules lock fetch =
    map_ok (\<lambda>pl. (fst pl, Some cs)) (power_level_for_sender X y rules (Some cs) fetch)"
proof -
  from assms(1) obtain e p where e: "fetch y = Some e"
    and cr: "if room_create_event_id_as_room_id rules
        then \<exists>c. create_event_of_room X fetch e = Some c \<and> creators X rules c = Inr cs
        else (\<exists>i\<in>set (ev_auth_events e). \<exists>c. fetch i = Some c \<and> is_type_and_key c ''m.room.create'' [])
          \<and> (\<forall>i\<in>set (ev_auth_events e). \<forall>c. fetch i = Some c \<and> is_type_and_key c ''m.room.create'' []
               \<longrightarrow> creators X rules c = Inr cs)"
    and pl: "\<forall>i\<in>set (ev_auth_events e). \<forall>a. fetch i = Some a \<and> is_type_and_key a ''m.room.power_levels'' [] \<longrightarrow> a = p"
    unfolding cites_creators_def by blast
  let ?as = "ev_auth_events e" and ?pl = "if has_power_levels fetch (ev_auth_events e) then Some p else None"
  let ?c0 = "if room_create_event_id_as_room_id rules then create_event_of_room X fetch e else None"
  have as: "auth_events_of fetch y = ?as" by (simp add: auth_events_of_def e)
  have levels: "snd (scan_auth_events fetch rules known ?as c None) = ?pl" for known c
    using scan_power_levels [OF pl, of None] by simp
  have "\<exists>c. fst (scan_auth_events fetch rules False ?as ?c0 None) = Some c \<and> creators X rules c = Inr cs"
  proof (cases "room_create_event_id_as_room_id rules")
    case True
    with cr scan_create_unchanged [of rules False fetch ?as ?c0 None] show ?thesis by simp
  next
    case False
    with cr have ex: "\<exists>i\<in>set ?as. \<exists>c. fetch i = Some c \<and> is_type_and_key c ''m.room.create'' []"
      and all: "\<forall>i\<in>set ?as. \<forall>c. fetch i = Some c \<and> is_type_and_key c ''m.room.create'' [] \<longrightarrow> creators X rules c = Inr cs"
      by simp_all
    from scan_create_found [OF False disjI2 [OF ex], of None None] obtain c where
      "fst (scan_auth_events fetch rules False ?as None None) = Some c"
      "\<exists>i\<in>set ?as. fetch i = Some c \<and> is_type_and_key c ''m.room.create'' []" by auto
    with all False show ?thesis by auto
  qed
  then obtain c where c: "fst (scan_auth_events fetch rules False ?as ?c0 None) = Some c" "creators X rules c = Inr cs"
    by blast
  then have "scan_auth_events fetch rules False ?as ?c0 None = (Some c, ?pl)"
    by (intro prod_eqI) (simp_all only: fst_conv snd_conv levels)
  with c(2) have none: "power_level_for_sender X y rules None fetch =
      map_ok (\<lambda>pl. (pl, Some cs)) (user_power_level X rules ?pl (ev_sender e) cs)"
    by (simp add: power_level_for_sender_def e as)
  have "scan_auth_events fetch rules True ?as None None = (None, ?pl)"
    by (intro prod_eqI) (simp_all only: fst_conv snd_conv levels scan_create_unchanged simp_thms)
  then have some: "power_level_for_sender X y rules (Some cs) fetch =
      map_ok (\<lambda>pl. (pl, Some cs)) (user_power_level X rules ?pl (ev_sender e) cs)"
    by (simp add: power_level_for_sender_def e as)
  show ?thesis
    using assms(2) none some by (cases "user_power_level X rules ?pl (ev_sender e) cs") auto
qed

definition cited_level :: "ext \<Rightarrow> authorization_rules \<Rightarrow> fetch_event \<Rightarrow> string list \<Rightarrow> string \<Rightarrow> auth_error + user_power_level" where
  "cited_level X rules fetch cs y = map_ok fst (power_level_for_sender X y rules (Some cs) fetch)"

lemma power_levels_of_senders_cited:
  assumes "\<forall>y\<in>set ids. cites_creators X rules fetch cs y" "lock = None \<or> lock = Some cs"
  shows "(\<exists>levels. power_levels_of_senders X rules fetch ids lock acc = Inr levels)
      \<longleftrightarrow> (\<forall>y\<in>set ids. is_ok (cited_level X rules fetch cs y))"
    and "power_levels_of_senders X rules fetch ids lock acc = Inr levels \<Longrightarrow>
      map_of levels y = (if y \<in> set ids then (case cited_level X rules fetch cs y of Inr l \<Rightarrow> Some l | Inl _ \<Rightarrow> None)
                         else map_of acc y)"
proof -
  have "((\<exists>levels. power_levels_of_senders X rules fetch ids lock acc = Inr levels)
      \<longleftrightarrow> (\<forall>y\<in>set ids. is_ok (cited_level X rules fetch cs y)))
    \<and> (\<forall>levels y. power_levels_of_senders X rules fetch ids lock acc = Inr levels \<longrightarrow>
      map_of levels y = (if y \<in> set ids then (case cited_level X rules fetch cs y of Inr l \<Rightarrow> Some l | Inl _ \<Rightarrow> None)
                         else map_of acc y))"
    using assms
  proof (induction ids arbitrary: lock acc)
    case (Cons i ids)
    have "cites_creators X rules fetch cs i" using Cons.prems(1) by simp
    note lvl = power_level_for_sender_lock [OF this Cons.prems(2)]
    show ?case
    proof (cases "power_level_for_sender X i rules (Some cs) fetch")
      case (Inl x)
      with lvl show ?thesis by (auto simp: cited_level_def)
    next
      case (Inr r)
      then have c: "cited_level X rules fetch cs i = Inr (fst r)" by (simp add: cited_level_def)
      have step: "power_levels_of_senders X rules fetch (i # ids) lock acc =
          power_levels_of_senders X rules fetch ids (Some cs) (hm_insert i (fst r) acc)"
        using lvl Inr by simp
      have IH: "\<forall>y\<in>set ids. cites_creators X rules fetch cs y" using Cons.prems(1) by simp
      show ?thesis
        unfolding step using Cons.IH [OF IH, of "Some cs" "hm_insert i (fst r) acc"] c by auto
    qed
  qed simp
  then show "(\<exists>levels. power_levels_of_senders X rules fetch ids lock acc = Inr levels)
      \<longleftrightarrow> (\<forall>y\<in>set ids. is_ok (cited_level X rules fetch cs y))"
    and "power_levels_of_senders X rules fetch ids lock acc = Inr levels \<Longrightarrow>
      map_of levels y = (if y \<in> set ids then (case cited_level X rules fetch cs y of Inr l \<Rightarrow> Some l | Inl _ \<Rightarrow> None)
                         else map_of acc y)"
    by blast+
qed

lemma edges_of_no_key: "y \<notin> set (hm_keys g) \<Longrightarrow> edges_of g y = {}"
  by (simp add: edges_of_def map_of_eq_None_iff [THEN iffD2])

lemma power_event_closure_cong:
  assumes "set full = set full'" "set ps = set ps'"
  shows "power_event_closure fetch full ps = power_event_closure fetch full' ps'"
    and "conflict_edges fetch full = conflict_edges fetch full'"
proof -
  show edges: "conflict_edges fetch full = conflict_edges fetch full'"
    unfolding conflict_edges_def fun_eq_iff assms(1) by simp
  show "power_event_closure fetch full ps = power_event_closure fetch full' ps'"
    unfolding power_event_closure_def conflict_rel_def edges assms(2) ..
qed

lemma power_events_graph_same:
  assumes h: "is_hash_order h" and h': "is_hash_order h'" and "set full = set full'" "set ps = set ps'"
  shows "same_graph (power_events_graph h ps full fetch) (power_events_graph h' ps' full' fetch)"
proof -
  let ?g = "power_events_graph h ps full fetch" and ?g' = "power_events_graph h' ps' full' fetch"
  note g = power_events_graph_result [OF h, where ps = ps and full = full and fetch = fetch]
  note g' = power_events_graph_result [OF h', where ps = ps' and full = full' and fetch = fetch]
  note cong = power_event_closure_cong [OF assms(3,4), of fetch]
  have "edges_of ?g y = edges_of ?g' y" for y
  proof (cases "y \<in> power_event_closure fetch full ps")
    case True
    with g(3) g'(3) show ?thesis unfolding cong by simp
  next
    case False
    then show ?thesis
      using edges_of_no_key [of y ?g] edges_of_no_key [of y ?g'] unfolding g(2) g'(2) cong(1) by simp
  qed
  then show ?thesis unfolding same_graph_def g(2) g'(2) cong(1) by simp
qed

lemma sort_power_events_order:
  assumes h: "is_hash_order h" and h': "is_hash_order h'" and sets: "set full = set full'" "set ps = set ps'"
    and found: "\<forall>i\<in>set ps \<union> set full. fetch i \<noteq> None"
    and cited: "\<forall>y\<in>power_event_closure fetch full ps. cites_creators X rules fetch cs y"
    and xs: "sort_power_events X h ps full rules fetch = Inr xs"
  shows "sort_power_events X h' ps' full' rules fetch = Inr xs"
proof -
  let ?g = "power_events_graph h ps full fetch" and ?g' = "power_events_graph h' ps' full' fetch"
  note g = power_events_graph_result(2) [OF h, where ps = ps and full = full and fetch = fetch]
  note g' = power_events_graph_result(2) [OF h', where ps = ps' and full = full' and fetch = fetch]
  note same = power_events_graph_same [OF h h' sets, of fetch]
  have keys: "set (hm_keys ?g') = set (hm_keys ?g)" using same by (simp add: same_graph_def)
  have cited_g: "\<forall>y\<in>set (hm_keys ?g). cites_creators X rules fetch cs y"
    using cited unfolding g by simp
  then have cited_g': "\<forall>y\<in>set (hm_keys ?g'). cites_creators X rules fetch cs y"
    unfolding keys .
  from sort_power_events_cases [OF h found, of X rules] xs obtain levels where
    levels: "power_levels_of_senders X rules fetch (hm_keys ?g) None [] = Inr levels"
    and po: "power_ordering ?g (power_event_details fetch levels) xs"
    by (metis sum.distinct(1) sum.inject(2))
  have "\<forall>y\<in>set (hm_keys ?g). is_ok (cited_level X rules fetch cs y)"
    using power_levels_of_senders_cited(1) [OF cited_g, of None "[]"] levels by blast
  then obtain levels' where levels': "power_levels_of_senders X rules fetch (hm_keys ?g') None [] = Inr levels'"
    using power_levels_of_senders_cited(1) [OF cited_g', of None "[]"] unfolding keys by blast
  have "map_of levels' = map_of levels"
    using power_levels_of_senders_cited(2) [OF cited_g _ levels]
      power_levels_of_senders_cited(2) [OF cited_g' _ levels'] unfolding keys by auto
  then have details: "power_event_details fetch levels' = power_event_details fetch levels"
    by (intro ext) (simp only: power_event_details_def)
  have "\<forall>i\<in>set ps' \<union> set full'. fetch i \<noteq> None" using found sets by simp
  from sort_power_events_ok [OF h' this levels'] obtain ys where
    ys: "sort_power_events X h' ps' full' rules fetch = Inr ys"
    and po': "power_ordering ?g' (power_event_details fetch levels') ys" by blast
  have "power_ordering ?g (power_event_details fetch levels) ys"
    using po' power_ordering_cong [OF same] unfolding details by blast
  with po ys show ?thesis using power_ordering_unique by blast
qed

lemma mainline_sort_order:
  assumes "is_hash_order h" "is_hash_order h'" "wf (auth_rel fetch)" "set ids = set ids'"
  shows "mainline_sort h ids pl fetch = mainline_sort h' ids' pl fetch"
proof (cases "ids = []")
  case True
  with assms(4) show ?thesis by (simp add: mainline_sort_def)
next
  case False
  with assms(4) have False': "ids' \<noteq> []" by auto
  show ?thesis
  proof (cases "mainline_of fetch pl []")
    case (Some r)
    show ?thesis
    proof (cases r)
      case (Inr ml)
      let ?m = "mainline_map_of ml"
      from mainline_order_map_result [OF assms(3), of ?m ids "[]"] obtain om where
        om: "mainline_order_map fetch ?m ids [] = Some (Inr om)" "hm_wf om"
        and get: "\<forall>i. map_of om i = (if i \<in> set ids \<and> sort_positions fetch ?m i \<noteq> None
                                      then sort_positions fetch ?m i else map_of [] i)"
        unfolding list.map distinct.simps by blast
      from mainline_order_map_result [OF assms(3), of ?m ids' "[]"] obtain om' where
        om': "mainline_order_map fetch ?m ids' [] = Some (Inr om')" "hm_wf om'"
        and get': "\<forall>i. map_of om' i = (if i \<in> set ids' \<and> sort_positions fetch ?m i \<noteq> None
                                      then sort_positions fetch ?m i else map_of [] i)"
        unfolding list.map distinct.simps by blast
      have eq: "map_of om' = map_of om" using get get' assms(4) by (intro ext) simp
      have keys: "set (hm_keys m) = dom (map_of m)" for m :: "(string \<times> sort_position) list"
        by (simp add: dom_map_of_conv_image_fst)
      have "inj_on (\<lambda>i. the (map_of om i)) (set (hm_keys om))"
      proof (rule inj_onI)
        fix i j assume "i \<in> set (hm_keys om)" "j \<in> set (hm_keys om)" and same: "the (map_of om i) = the (map_of om j)"
        then obtain p q where "map_of om i = Some p" "map_of om j = Some q" unfolding keys by blast
        moreover have "snd (snd p) = k" if "map_of om k = Some p" for k p
          using that get by (auto simp: sort_positions_def split: if_splits option.splits sum.splits)
        ultimately show "i = j" using same by (metis option.sel)
      qed
      then have "sort_key (\<lambda>i. the (map_of om i)) (h (hm_keys om)) =
          sort_key (\<lambda>i. the (map_of om i)) (h' (hm_keys om'))"
        using om(2) om'(2) eq keys [of om] keys [of om']
        by (intro sort_key_perm_eq) (simp_all only: is_hash_orderD [OF assms(1)] is_hash_orderD [OF assms(2)])
      with om om' eq Some Inr False False' show ?thesis by (simp add: mainline_sort_def)
    qed (simp add: mainline_sort_def Some False False')
  qed (simp add: mainline_sort_def False False')
qed

lemma resolve_conflicts_order:
  assumes h: "is_hash_order h" and h': "is_hash_order h'" and wf: "wf (auth_rel fetch)"
    and full: "set full = set full'" and found: "\<forall>i\<in>set full. fetch i \<noteq> None"
    and cited: "\<forall>y\<in>power_event_closure fetch full (filter (is_power_event_id X fetch) full).
      cites_creators X rules fetch cs y"
    and res: "resolve_conflicts X h rules sr u full fetch = Some (Inr s)"
  shows "resolve_conflicts X h' rules sr u full' fetch = Some (Inr s)"
proof -
  let ?init = "if begin_iterative_auth_checks_with_empty_state_map sr then [] else u"
  from resolve_conflicts_Inr [OF res] obtain pe part re final where
    pe: "sort_power_events X h (filter (is_power_event_id X fetch) full) full rules fetch = Inr pe"
    and part: "iterative_auth_checks X rules pe ?init fetch = Inr part"
    and re: "mainline_sort h (filter (\<lambda>i. i \<notin> set pe) full) (map_of part (''m.room.power_levels'', [])) fetch = Some (Inr re)"
    and final: "iterative_auth_checks X rules re part fetch = Inr final" "s = hm_extend final u" .
  have "\<forall>i\<in>set (filter (is_power_event_id X fetch) full) \<union> set full. fetch i \<noteq> None"
    using found by auto
  then have pe': "sort_power_events X h' (filter (is_power_event_id X fetch) full') full' rules fetch = Inr pe"
    using sort_power_events_order [OF h h' full _ _ cited pe] full by simp
  have "set (filter (\<lambda>i. i \<notin> set pe) full) = set (filter (\<lambda>i. i \<notin> set pe) full')" using full by simp
  from mainline_sort_order [OF h h' wf this] re
  have re': "mainline_sort h' (filter (\<lambda>i. i \<notin> set pe) full') (map_of part (''m.room.power_levels'', [])) fetch = Some (Inr re)"
    by simp
  show ?thesis
    by (simp add: resolve_conflicts_def pe' part re' final Let_def)
qed

section \<open>Properties\<close>

lemma example_fetch_Some: "example_fetch y = Some e \<Longrightarrow> e \<in> set example_events \<and> ev_event_id e = y"
  unfolding example_fetch_def by (auto dest!: map_of_SomeD)

lemma example_wf: "wf (auth_rel example_fetch)"
proof (rule wf_subset)
  let ?rank = "\<lambda>i. length (takeWhile (\<lambda>j. j \<noteq> i) (map ev_event_id example_events))"
  have ranks: "list_all (\<lambda>e. list_all (\<lambda>a. ?rank a < ?rank (ev_event_id e)) (ev_auth_events e)) example_events"
    by code_simp
  show "auth_rel example_fetch \<subseteq> measure ?rank"
  proof
    fix x assume "x \<in> auth_rel example_fetch"
    then obtain a y where x: "x = (a, y)" and "a \<in> set (auth_events_of example_fetch y)"
      by (auto simp: auth_rel_def)
    then obtain e where e: "example_fetch y = Some e" and a: "a \<in> set (ev_auth_events e)"
      by (cases "example_fetch y") (simp_all add: auth_events_of_def)
    from example_fetch_Some [OF e] ranks a have "?rank a < ?rank y" by (auto simp: list_all_iff)
    then show "x \<in> measure ?rank" by (simp add: x)
  qed
qed simp

lemma example_maps_wf: "\<forall>m\<in>set example_state_maps. hm_wf m"
  by (simp add: example_state_maps_def example_common_def)

lemma example_chains_distinct: "\<forall>c\<in>set example_auth_chains. distinct c"
  by (simp add: example_auth_chains_def)

abbreviation example_result :: "string state_map" where
  "example_result \<equiv> example_common @ [((''m.room.member'', ''@user:a.org''), ''$ban'')]"

lemma example_resolved:
  "resolve example_ext rev AuthorizationRules_V10 StateResolutionV2Rules_V2_0 example_state_maps
     example_auth_chains example_fetch (\<lambda>_. None) = Some (Inr example_result)"
  by code_simp

text \<open>
  (C28) The split of the state maps: the unconflicted map holds exactly the entries that all maps
  have, and the conflicted set lists, under each key, exactly the events that some map but not every
  map has there.
\<close>

theorem split_conflicted_state_set_spec:
  assumes "\<forall>m\<in>set ms. hm_wf m"
  shows "case split_conflicted_state_set ms of (unconflicted, conflicted) \<Rightarrow>
    (\<forall>k i. (map_of unconflicted k = Some i) = (ms \<noteq> [] \<and> (\<forall>m\<in>set ms. map_of m k = Some i)))
    \<and> (\<forall>k i. (i \<in> ids_at conflicted k) =
         ((\<exists>m\<in>set ms. map_of m k = Some i) \<and> (\<exists>m\<in>set ms. map_of m k \<noteq> Some i)))"
  using split_conflicted [OF assms] by (cases "split_conflicted_state_set ms") auto

theorem split_conflicted_state_set_spec_witness:
  "''$ban'' \<in> ids_at (snd (split_conflicted_state_set example_state_maps)) (''m.room.member'', ''@user:a.org'')"
proof -
  have "(\<exists>m\<in>set example_state_maps. map_of m (''m.room.member'', ''@user:a.org'') = Some ''$ban'')
    \<and> (\<exists>m\<in>set example_state_maps. map_of m (''m.room.member'', ''@user:a.org'') \<noteq> Some ''$ban'')"
    by code_simp
  with split_conflicted_state_set_spec [OF example_maps_wf] show ?thesis
    by (simp add: case_prod_unfold)
qed

text \<open>
  The auth difference is the union of the auth chains without their intersection.
\<close>

theorem auth_difference_spec:
  assumes "\<forall>c\<in>set cs. distinct c"
  shows "set (auth_difference cs) = (\<Union>c\<in>set cs. set c) - (\<Inter>c\<in>set cs. set c)"
  by (rule set_auth_difference [OF assms])

theorem auth_difference_spec_witness:
  "set (auth_difference example_auth_chains) =
     (\<Union>c\<in>set example_auth_chains. set c) - (\<Inter>c\<in>set example_auth_chains. set c)
   \<and> auth_difference example_auth_chains = [''$mod'']"
  using auth_difference_spec [OF example_chains_distinct] by (intro conjI) (simp, code_simp)

text \<open>
  (C26) Sorting the power events. For existing events without cycles in their auth events, the sort
  never panics; it fails only when the level of a sender cannot be read, and otherwise returns, each
  once, the power events and everything of their auth chains that is in the full conflicted set, every
  event after those of its auth events that are.
\<close>

theorem sort_power_events_correct:
  assumes "is_hash_order h" "acyclic (auth_rel fetch)" "\<forall>i\<in>set ps \<union> set full. fetch i \<noteq> None"
  shows "case sort_power_events X h ps full rules fetch of
      Inl x \<Rightarrow> (\<exists>e. x = Err (AuthEvent e))
    | Inr xs \<Rightarrow> distinct xs \<and> set xs = (conflict_rel fetch full)\<^sup>* `` set ps
        \<and> (\<forall>us y vs. xs = us @ y # vs \<longrightarrow> conflict_edges fetch full y \<subseteq> set us)"
  using assms(1,3)
proof (cases rule: sort_power_events_cases [where X = X and rules = rules])
  case (ok levels xs)
  note g = power_events_graph_result [OF assms(1), where ps = ps and full = full and fetch = fetch]
  have "set xs = set (hm_keys (power_events_graph h ps full fetch))"
    by (rule power_ordering_complete [OF ok(3) g(4) power_graph_acyclic [OF assms(1,2)]])
  from power_ordering_topological [OF ok(3) this]
  have top: "topological (power_events_graph h ps full fetch) xs" .
  have "conflict_edges fetch full y \<subseteq> set us" if "xs = us @ y # vs" for us y vs
  proof -
    from that top have "y \<in> power_event_closure fetch full ps" unfolding topological_def g(2) by auto
    with g(3) top that show ?thesis unfolding topological_def by blast
  qed
  with ok(1) top show ?thesis unfolding topological_def g(2) power_event_closure_def by simp
qed simp

theorem sort_power_events_correct_witness:
  "case sort_power_events example_ext rev [''$ban''] [''$ban'', ''$mod'', ''$join''] AuthorizationRules_V10 example_fetch of
      Inl x \<Rightarrow> (\<exists>e. x = Err (AuthEvent e))
    | Inr xs \<Rightarrow> distinct xs \<and> set xs = (conflict_rel example_fetch [''$ban'', ''$mod'', ''$join''])\<^sup>* `` set [''$ban'']
        \<and> (\<forall>us y vs. xs = us @ y # vs \<longrightarrow> conflict_edges example_fetch [''$ban'', ''$mod'', ''$join''] y \<subseteq> set us)"
proof (rule sort_power_events_correct)
  show "acyclic (auth_rel example_fetch)" by (rule wf_acyclic [OF example_wf])
  show "\<forall>i\<in>set [''$ban''] \<union> set [''$ban'', ''$mod'', ''$join'']. example_fetch i \<noteq> None"
    by code_simp
qed simp



text \<open>
  (C27) State resolution ends: whatever the rules, the state maps and the iteration orders, a run on events
  whose auth events are well founded returns a state, an error or a panic of the auth rules.
\<close>

theorem resolve_terminates:
  assumes "wf (auth_rel fetch)"
  shows "\<exists>r. resolve X h rules sr ms auth_chains fetch subgraph = Some r"
proof -
  obtain u c where split: "split_conflicted_state_set ms = (u, c)" by fastforce
  have "resolve X h rules sr ms auth_chains fetch subgraph \<noteq> None"
  proof (cases "c = []")
    case False
    then show ?thesis
      unfolding resolve_def split prod.case if_not_P [OF False]
      by (intro obind_ends resolve_conflicts_ends [OF assms]) simp
  qed (simp add: resolve_def split)
  then show ?thesis by blast
qed

theorem resolve_terminates_witness:
  "\<exists>r. resolve example_ext rev AuthorizationRules_V12 StateResolutionV2Rules_V2_1 example_state_maps
     example_auth_chains example_fetch (\<lambda>_. Some []) = Some r"
  by (rule resolve_terminates [OF example_wf])

text \<open>
  (C1) State resolution decides by the authorization rules only. An entry that all state maps have is
  in the result, and every other entry of the result is an event of the full conflicted set with that
  type and state key, allowed by the state-dependent rules against the state that the iterative auth
  checks had built from other events of that set before it, completed with the event's own
  accepted auth events.
\<close>

theorem resolve_correct:
  assumes h: "is_hash_order h" and wf: "wf (auth_rel fetch)"
    and ms: "\<forall>m\<in>set ms. hm_wf m" and chs: "\<forall>c\<in>set auth_chains. distinct c"
    and res: "resolve X h rules sr ms auth_chains fetch subgraph = Some (Inr s)"
  shows "(\<forall>key i. ms \<noteq> [] \<and> (\<forall>m\<in>set ms. map_of m key = Some i) \<longrightarrow> map_of s key = Some i)
    \<and> (\<forall>key i. map_of s key = Some i \<longrightarrow>
         (\<forall>m\<in>set ms. map_of m key = Some i)
         \<or> (\<exists>sub ids st. (sub = [] \<or> (\<exists>c. subgraph c = Some sub))
              \<and> distinct (ids @ [i]) \<and> set (ids @ [i]) \<subseteq> conflicted_ids ms auth_chains sub fetch
              \<and> iterative_auth_checks X rules ids
                  (if begin_iterative_auth_checks_with_empty_state_map sr then []
                   else fst (split_conflicted_state_set ms)) fetch = Inr st
              \<and> resolved_event X rules fetch st key i))"
proof -
  obtain u c where split: "split_conflicted_state_set ms = (u, c)" by fastforce
  note sp = split_conflicted [OF ms split]
  show ?thesis
  proof (cases "c = []")
    case True
    with res have "s = u" by (simp add: resolve_def split)
    then show ?thesis by (simp add: sp(1))
  next
    case False
    with res obtain sub where sub: "sub = [] \<or> (\<exists>c. subgraph c = Some sub)"
      and rc: "resolve_conflicts X h rules sr u (full_conflicted_set h auth_chains c sub fetch) fetch = Some (Inr s)"
      by (auto simp: resolve_def split obind_Inr_iff ok_or_Inr_iff split: if_splits)
    let ?full = "full_conflicted_set h auth_chains c sub fetch"
    have full: "set ?full = conflicted_ids ms auth_chains sub fetch"
      by (rule set_full_conflicted_set(1) [OF h ms chs split])
    then have found: "\<forall>i\<in>set ?full. fetch i \<noteq> None" by (simp add: conflicted_ids_def)
    from resolve_conflicts_Inr [OF rc] obtain final where "s = hm_extend final u" .
    then have keep: "map_of u key = Some i \<Longrightarrow> map_of s key = Some i" for key i
      using sp(3) by (simp add: map_of_hm_extend)
    show ?thesis
    proof (intro conjI allI impI)
      fix key i assume "ms \<noteq> [] \<and> (\<forall>m\<in>set ms. map_of m key = Some i)"
      then show "map_of s key = Some i" by (intro keep) (simp add: sp(1))
    next
      fix key i assume "map_of s key = Some i"
      from resolve_conflicts_sound [OF h wf found rc sp(3) this, unfolded full]
      consider "map_of u key = Some i"
        | ids st where "distinct (ids @ [i])" "set (ids @ [i]) \<subseteq> conflicted_ids ms auth_chains sub fetch"
          "iterative_auth_checks X rules ids
             (if begin_iterative_auth_checks_with_empty_state_map sr then [] else u) fetch = Inr st"
          "resolved_event X rules fetch st key i"
        by (elim disjE exE conjE)
      then show "(\<forall>m\<in>set ms. map_of m key = Some i)
         \<or> (\<exists>sub ids st. (sub = [] \<or> (\<exists>c. subgraph c = Some sub))
              \<and> distinct (ids @ [i]) \<and> set (ids @ [i]) \<subseteq> conflicted_ids ms auth_chains sub fetch
              \<and> iterative_auth_checks X rules ids
                  (if begin_iterative_auth_checks_with_empty_state_map sr then []
                   else fst (split_conflicted_state_set ms)) fetch = Inr st
              \<and> resolved_event X rules fetch st key i)"
      proof cases
        case 1
        then show ?thesis by (simp add: sp(1))
      next
        case (2 ids st)
        with sub show ?thesis
          unfolding split fst_conv
          by - (rule disjI2, rule exI [of _ sub], rule exI [of _ ids], rule exI [of _ st], intro conjI)
      qed
    qed
  qed
qed

theorem resolve_correct_witness:
  "\<exists>ids st. distinct (ids @ [''$ban''])
     \<and> iterative_auth_checks example_ext AuthorizationRules_V10 ids
         (fst (split_conflicted_state_set example_state_maps)) example_fetch = Inr st
     \<and> resolved_event example_ext AuthorizationRules_V10 example_fetch st (''m.room.member'', ''@user:a.org'') ''$ban''"
proof -
  have res: "map_of example_result (''m.room.member'', ''@user:a.org'') = Some ''$ban''" by code_simp
  have conf: "\<not> (\<forall>m\<in>set example_state_maps. map_of m (''m.room.member'', ''@user:a.org'') = Some ''$ban'')" by code_simp
  have init: "begin_iterative_auth_checks_with_empty_state_map StateResolutionV2Rules_V2_0 = False" by code_simp
  note all = resolve_correct [OF is_hash_order_id(3) example_wf example_maps_wf example_chains_distinct
      example_resolved, THEN conjunct2]
  from all [THEN spec, THEN spec, THEN mp, OF res] conf obtain ids st where
    "distinct (ids @ [''$ban''])"
    "iterative_auth_checks example_ext AuthorizationRules_V10 ids
       (fst (split_conflicted_state_set example_state_maps)) example_fetch = Inr st"
    "resolved_event example_ext AuthorizationRules_V10 example_fetch st (''m.room.member'', ''@user:a.org'') ''$ban''"
    unfolding init if_False by (elim disjE exE conjE) (erule notE, assumption)+
  then show ?thesis by (intro exI conjI)
qed


lemma cites_creatorsI:
  assumes "\<not> room_create_event_id_as_room_id rules" "fetch y = Some e"
    and ex: "list_ex (\<lambda>i. case fetch i of None \<Rightarrow> False | Some c \<Rightarrow> is_type_and_key c ''m.room.create'' []) (ev_auth_events e)"
    and all: "list_all (\<lambda>i. case fetch i of None \<Rightarrow> True | Some c \<Rightarrow> creators X rules c = Inr cs
        \<and> (is_type_and_key c ''m.room.power_levels'' [] \<longrightarrow> c = p)) (ev_auth_events e)"
  shows "cites_creators X rules fetch cs y"
proof -
  from ex have "\<exists>i\<in>set (ev_auth_events e). \<exists>c. fetch i = Some c \<and> is_type_and_key c ''m.room.create'' []"
    by (auto simp: list_ex_iff split: option.splits)
  moreover have "creators X rules c = Inr cs \<and> (is_type_and_key c ''m.room.power_levels'' [] \<longrightarrow> c = p)"
    if "i \<in> set (ev_auth_events e)" "fetch i = Some c" for i c
    using all that by (auto simp: list_all_iff split: option.splits)
  ultimately show ?thesis
    unfolding cites_creators_def if_not_P [OF assms(1)] using assms(2) by blast
qed

abbreviation example_cited_check :: "string \<Rightarrow> bool" where
  "example_cited_check y \<equiv>
     list_ex (\<lambda>i. case example_fetch i of None \<Rightarrow> False | Some c \<Rightarrow> is_type_and_key c ''m.room.create'' [])
       (ev_auth_events (the (example_fetch y)))
     \<and> list_all (\<lambda>i. case example_fetch i of None \<Rightarrow> True | Some c \<Rightarrow>
         creators example_ext AuthorizationRules_V10 c = Inr [''@admin:a.org'']
         \<and> (is_type_and_key c ''m.room.power_levels'' [] \<longrightarrow> c = the (example_fetch ''$pl'')))
       (ev_auth_events (the (example_fetch y)))"

lemma example_cited:
  assumes "y \<in> {''$mod'', ''$ban'', ''$join''}"
  shows "cites_creators example_ext AuthorizationRules_V10 example_fetch [''@admin:a.org''] y"
proof -
  have "list_all (\<lambda>y. example_fetch y \<noteq> None \<and> example_cited_check y) [''$mod'', ''$ban'', ''$join'']"
    by code_simp
  with assms have y: "example_fetch y \<noteq> None" "example_cited_check y" unfolding list_all_iff by auto
  have "\<not> room_create_event_id_as_room_id AuthorizationRules_V10" by code_simp
  moreover have "example_fetch y = Some (the (example_fetch y))" using y(1) by simp
  ultimately show ?thesis using y(2) by (blast intro: cites_creatorsI)
qed


text \<open>
  Without that provision the order can matter: the create event cites no create event, and the level of
  its sender is the default one if it is looked up first, and the creator's if it comes second.
\<close>

lemma power_level_of_creation_depends_on_order:
  "map_ok (\<lambda>levels. map_of levels ''$create'')
     (power_levels_of_senders example_ext AuthorizationRules_V10 example_fetch [''$create'', ''$admin''] None [])
   = Inr (Some (PowerLevelInt 0))"
  "map_ok (\<lambda>levels. map_of levels ''$create'')
     (power_levels_of_senders example_ext AuthorizationRules_V10 example_fetch [''$admin'', ''$create''] None [])
   = Inr (Some (PowerLevelInt 100))"
  by code_simp+

end
