(* ===== verification/Event_Format.thy ===== *)
theory Event_Format
  imports State_Events
begin

text \<open>
  The format checks on received events of \<open>common-state-res/src/event_format.rs\<close>: the size of the
  event as a whole and the presence, type and size of its fields, by room version. Serializing the
  event is third-party code, the field \<open>x_serialize\<close> of \<^typ>\<open>ext\<close>.
\<close>

section \<open>Definitions\<close>

definition MAX_PDU_BYTES :: nat where
  "MAX_PDU_BYTES = 65535"

definition MAX_PREV_EVENTS_LENGTH :: nat where
  "MAX_PREV_EVENTS_LENGTH = 20"

definition MAX_AUTH_EVENTS_LENGTH :: nat where
  "MAX_AUTH_EVENTS_LENGTH = 10"

definition extract_optional_string_field ::
  "canonical_json_object \<Rightarrow> string \<Rightarrow> auth_error + string option" where
  "extract_optional_string_field pdu field =
     (case map_of pdu field of
        Some (CString value) \<Rightarrow>
          if ID_MAX_BYTES < length value
          then Inl (MessageAbout ''string length is larger than maximum in PDU: '' field)
          else Inr (Some value)
      | Some _ \<Rightarrow> Inl (MessageAbout ''expected string in PDU: '' field)
      | None \<Rightarrow> Inr None)"

definition extract_required_string_field ::
  "canonical_json_object \<Rightarrow> string \<Rightarrow> auth_error + string" where
  "extract_required_string_field pdu field =
     rbind (extract_optional_string_field pdu field) (\<lambda>value.
     ok_or value (MessageAbout ''missing field in PDU: '' field))"

definition extract_required_array_field ::
  "canonical_json_object \<Rightarrow> string \<Rightarrow> nat \<Rightarrow> auth_error + canonical_json list" where
  "extract_required_array_field pdu field max_len =
     (case map_of pdu field of
        Some (CArray value) \<Rightarrow>
          if max_len < length value
          then Inl (MessageAbout ''array length is larger than maximum in PDU: '' field)
          else Inr value
      | Some _ \<Rightarrow> Inl (MessageAbout ''expected array in PDU: '' field)
      | None \<Rightarrow> Inl (MessageAbout ''missing field in PDU: '' field))"

text \<open>The loop over the auth events where the create event must not be one of them.\<close>

fun check_no_create_reference :: "string \<Rightarrow> canonical_json list \<Rightarrow> auth_error + unit" where
  "check_no_create_reference create_hash [] = Inr ()"
| "check_no_create_reference create_hash (item # auth_events) =
     (case item of
        CString event_id \<Rightarrow>
          (case event_id of
             [] \<Rightarrow> Inl (Message ''auth event ID in PDU not beginning with the `$` sigil'')
           | c # auth_event_hash \<Rightarrow>
               if c \<noteq> CHR ''$'' then Inl (Message ''auth event ID in PDU not beginning with the `$` sigil'')
               else if auth_event_hash = create_hash
               then Inl (Message ''`auth_events` in PDU cannot contain the `m.room.create` event ID'')
               else check_no_create_reference create_hash auth_events)
      | _ \<Rightarrow> Inl (Message ''expected string in `auth_events` field in PDU''))"

text \<open>
  The error of the size check is the literal text of the source, whose placeholder is not filled in.
  Stripping the sigil of a valid room ID cannot panic, so the check returns plain errors.
\<close>

definition check_pdu_format ::
  "ext \<Rightarrow> canonical_json_object \<Rightarrow> event_format_rules \<Rightarrow> auth_error fail + unit" where
  "check_pdu_format X pdu rules =
     rbind (map_err Err (map_err (MessageSerde ''Failed to serialize canonical JSON: '') (x_serialize X pdu))) (\<lambda>json.
     if MAX_PDU_BYTES < length json
     then Inl (Err (Message ''PDU is larger than maximum of {MAX_PDU_BYTES} bytes''))
     else
       rbind (map_err Err (extract_required_string_field pdu ''type'')) (\<lambda>event_type.
       rbind (map_err Err (extract_required_string_field pdu ''sender'')) (\<lambda>_.
       rbind (if event_type \<noteq> ''m.room.create'' \<or> require_room_create_room_id rules
              then map_ok Some (map_err Err (extract_required_string_field pdu ''room_id''))
              else Inr None) (\<lambda>room_id.
       rbind (if require_event_id rules
              then map_ok (\<lambda>_. ()) (map_err Err (extract_required_string_field pdu ''event_id''))
              else Inr ()) (\<lambda>_.
       rbind (map_err Err (extract_optional_string_field pdu ''state_key'')) (\<lambda>_.
       rbind (map_err Err (extract_required_array_field pdu ''prev_events'' MAX_PREV_EVENTS_LENGTH)) (\<lambda>_.
       rbind (map_err Err (extract_required_array_field pdu ''auth_events'' MAX_AUTH_EVENTS_LENGTH)) (\<lambda>auth_events.
       rbind (case (allow_room_create_in_auth_events rules, room_id) of
                (False, Some room_id) \<Rightarrow>
                  rbind (map_err Err (map_err (MessageId ''invalid `room_id` field in PDU: '')
                           (room_id_validate (x_compat_len X) room_id))) (\<lambda>_.
                  rbind (room_id_strip_sigil room_id) (\<lambda>create_hash.
                  map_err Err (check_no_create_reference create_hash auth_events)))
              | _ \<Rightarrow> Inr ()) (\<lambda>_.
       case map_of pdu ''depth'' of
         Some (CInteger value) \<Rightarrow>
           if value < 0 then Inl (Err (Message ''invalid `depth` field in PDU: cannot be a negative integer''))
           else Inr ()
       | Some _ \<Rightarrow> Inl (Err (Message ''unexpected format of `depth` field in PDU''))
       | None \<Rightarrow> Inl (Err (Message ''missing `depth` field in PDU'')))))))))))"

section \<open>Which events pass\<close>

definition string_field :: "canonical_json_object \<Rightarrow> string \<Rightarrow> string \<Rightarrow> bool" where
  "string_field pdu field v \<longleftrightarrow> map_of pdu field = Some (CString v) \<and> length v \<le> 255"

definition array_field :: "canonical_json_object \<Rightarrow> string \<Rightarrow> nat \<Rightarrow> canonical_json list \<Rightarrow> bool" where
  "array_field pdu field n vs \<longleftrightarrow> map_of pdu field = Some (CArray vs) \<and> length vs \<le> n"

lemma extract_optional_Inr_iff:
  "extract_optional_string_field pdu field = Inr v \<longleftrightarrow>
     (case v of None \<Rightarrow> map_of pdu field = None | Some s \<Rightarrow> string_field pdu field s)"
  by (auto simp: extract_optional_string_field_def string_field_def ID_MAX_BYTES_def
      split: option.splits canonical_json.splits)

lemma extract_required_Inr_iff:
  "extract_required_string_field pdu field = Inr v \<longleftrightarrow> string_field pdu field v"
  by (simp add: extract_required_string_field_def rbind_Inr_iff ok_or_Inr_iff extract_optional_Inr_iff)

lemma extract_array_Inr_iff:
  "extract_required_array_field pdu field n = Inr vs \<longleftrightarrow> array_field pdu field n vs"
  by (auto simp: extract_required_array_field_def array_field_def
      split: option.splits canonical_json.splits)

lemma check_no_create_reference_iff:
  "check_no_create_reference h items = Inr () \<longleftrightarrow>
     (\<forall>a \<in> set items. \<exists>h'. a = CString (CHR ''$'' # h') \<and> h' \<noteq> h)"
  by (induction items) (auto split: canonical_json.splits list.splits)

lemma room_id_strip_sigil_valid:
  assumes "room_id_validate c r = Inr ()"
  shows "room_id_strip_sigil r = Inr (tl r)"
  using assms
  by (cases r) (auto simp: room_id_validate_def validate_id_def room_id_strip_sigil_def rbind_Inr_iff
      split: if_splits)

definition no_create_reference :: "bool \<Rightarrow> string \<Rightarrow> canonical_json list \<Rightarrow> bool" where
  "no_create_reference compat_len room_id auth_events \<longleftrightarrow>
     room_id_validate compat_len room_id = Inr ()
     \<and> list_all (\<lambda>a. \<exists>h. a = CString (CHR ''$'' # h) \<and> h \<noteq> tl room_id) auth_events"

lemma create_reference_step:
  "(rbind (map_err Err (map_err g (room_id_validate c r))) (\<lambda>_.
     rbind (room_id_strip_sigil r) (\<lambda>h. map_err Err (check_no_create_reference h items))) = Inr ())
   = no_create_reference c r items"
  by (auto simp: no_create_reference_def rbind_Inr_iff room_id_strip_sigil_valid
      check_no_create_reference_iff list_all_iff)

text \<open>
  (C35) The format check accepts exactly the events that the room version allows: at most 65535 bytes
  in all; a type, a sender, where required an event ID, and, if present, a state key of at most 255
  bytes each; a room ID too, except for a create event where it is not required; at most 20
  previous and 10 auth events; and a depth that is not negative. Where the create event must not be an
  auth event, the room ID is valid and every auth event is the ID of an event other than
  the one the room is named after.
\<close>

theorem check_pdu_format_iff:
  "(check_pdu_format X pdu rules = Inr ()) =
     ((\<exists>json. x_serialize X pdu = Inr json \<and> length json \<le> 65535)
      \<and> (\<exists>sender. string_field pdu ''sender'' sender)
      \<and> (if require_event_id rules then \<exists>event_id. string_field pdu ''event_id'' event_id else True)
      \<and> (map_of pdu ''state_key'' = None \<or> (\<exists>key. string_field pdu ''state_key'' key))
      \<and> (\<exists>prev. array_field pdu ''prev_events'' 20 prev)
      \<and> (\<exists>n. map_of pdu ''depth'' = Some (CInteger n) \<and> 0 \<le> n)
      \<and> (\<exists>type auth. string_field pdu ''type'' type \<and> array_field pdu ''auth_events'' 10 auth
          \<and> (if type = ''m.room.create'' \<and> \<not> require_room_create_room_id rules then True
              else \<exists>room_id. string_field pdu ''room_id'' room_id
                \<and> (allow_room_create_in_auth_events rules
                    \<or> no_create_reference (x_compat_len X) room_id auth))))"
proof -
  note defs = check_pdu_format_def MAX_PDU_BYTES_def MAX_PREV_EVENTS_LENGTH_def MAX_AUTH_EVENTS_LENGTH_def
  have depth: "(case map_of pdu ''depth'' of
         Some (CInteger value) \<Rightarrow>
           if value < 0 then Inl (Err (Message ''invalid `depth` field in PDU: cannot be a negative integer''))
           else Inr ()
       | Some _ \<Rightarrow> Inl (Err (Message ''unexpected format of `depth` field in PDU''))
       | None \<Rightarrow> Inl (Err (Message ''missing `depth` field in PDU''))) = Inr ()
     \<longleftrightarrow> (\<exists>n. map_of pdu ''depth'' = Some (CInteger n) \<and> 0 \<le> n)"
    by (auto split: option.splits canonical_json.splits)
  have state_key: "(\<exists>v. extract_optional_string_field pdu ''state_key'' = Inr v) \<longleftrightarrow>
      map_of pdu ''state_key'' = None \<or> (\<exists>key. string_field pdu ''state_key'' key)"
    by (auto simp: extract_optional_Inr_iff split_option_ex)
  have reference: "(\<exists>u. (case (allow_room_create_in_auth_events rules, room_id) of
                (False, Some room_id) \<Rightarrow>
                  rbind (map_err Err (map_err g (room_id_validate (x_compat_len X) room_id))) (\<lambda>_.
                  rbind (room_id_strip_sigil room_id) (\<lambda>create_hash.
                  map_err Err (check_no_create_reference create_hash auth_events)))
              | _ \<Rightarrow> Inr ()) = Inr u)
      \<longleftrightarrow> allow_room_create_in_auth_events rules \<or> room_id = None
          \<or> no_create_reference (x_compat_len X) (the room_id) auth_events" for room_id g auth_events
    by (cases "allow_room_create_in_auth_events rules"; cases room_id) (simp_all add: create_reference_step)
  have room: "((if c then map_ok Some (map_err Err (extract_required_string_field pdu field)) else Inr None) = Inr r)
      = (if c then \<exists>v. string_field pdu field v \<and> r = Some v else r = None)" for c field r
    by (auto simp: map_ok_Inr_iff extract_required_Inr_iff)
  have event_id: "(\<exists>u. (if c then map_ok (\<lambda>_. ()) (map_err Err (extract_required_string_field pdu field)) else Inr ()) = Inr u)
      = (if c then \<exists>v. string_field pdu field v else True)" for c field
    by (auto simp: map_ok_Inr_iff extract_required_Inr_iff)
  have size: "((if n < length json then Inl e else K) = Inr ()) = (length json \<le> n \<and> K = Inr ())" for n json e and K :: "auth_error fail + unit"
    by auto
  have pull: "(\<exists>r. (if c then \<exists>v. R v \<and> r = Some v else r = None) \<and> Q r)
      = (if \<not> c then Q None else \<exists>v. R v \<and> Q (Some v))" for c R and Q :: "string option \<Rightarrow> bool"
    by (cases c) auto
  have swap: "(\<exists>a. Ser a \<and> len a \<and> (\<exists>t. T t \<and> S
        \<and> (if \<not> (t \<noteq> create \<or> req) then E \<and> K \<and> P \<and> Ex A \<and> D
            else \<exists>v. R v \<and> E \<and> K \<and> P \<and> (\<exists>au. A au \<and> N v au \<and> D))))
      = ((\<exists>a. Ser a \<and> len a) \<and> S \<and> E \<and> K \<and> P \<and> D
         \<and> (\<exists>t. T t \<and> (\<exists>au. A au \<and> (if t = create \<and> \<not> req then True else \<exists>v. R v \<and> N v au))))"
    for Ser len T A R S E K P D req N and create :: string
    unfolding if_bool_eq_disj by blast
  show ?thesis
    unfolding defs rbind_Inr_iff map_err_Inr_iff size depth room extract_required_Inr_iff extract_array_Inr_iff
    by (simp only: ex_simps event_id state_key reference pull option.sel simp_thms option.distinct) (rule swap)
qed

end
