(* ===== verification/Signatures_Props.thy ===== *)
theory Signatures_Props
  imports Signatures
begin

text \<open>
  Properties of hashes and signatures of events: the reference hash, which is the event ID in all
  rooms but the oldest, does not depend on redaction and signatures; a signed event verifies; and
  signatures stay valid when the event is redacted.
\<close>

section \<open>What is serialized\<close>

lemma canonical_object_bt_wf: "canonical_object m \<Longrightarrow> bt_wf m"
  by simp

lemmas canonical_object_rules = canonical_object_bt_wf canonical_object_insert canonical_retained_entries

declare canonical.simps(3) [simp del]

lemma map_of_without_fields: "map_of (without_fields names m) k = (if k \<in> set names then None else map_of m k)"
  by (induction m) (auto simp: without_fields_def)

lemma without_fields_cong:
  assumes "bt_wf m" "bt_wf m'" "\<And>k. k \<notin> set names \<Longrightarrow> map_of m k = map_of m' k"
  shows "without_fields names m = without_fields names m'"
proof (rule bt_eqI)
  show "bt_wf (without_fields names m)" "bt_wf (without_fields names m')"
    using assms(1,2) by (simp_all add: without_fields_def bt_wf_filter)
  show "map_of (without_fields names m) = map_of (without_fields names m')"
    using assms(3) by (auto simp: map_of_without_fields)
qed

lemma get_as_required_string_cong:
  "map_of m k = map_of m' k \<Longrightarrow> get_as_required_string m k p = get_as_required_string m' k p"
  by (simp add: get_as_required_string_def get_as_string_def)

lemma get_as_required_object_cong:
  "map_of m k = map_of m' k \<Longrightarrow> get_as_required_object m k p = get_as_required_object m' k p"
  by (simp add: get_as_required_object_def get_as_object_def)

text \<open>Two objects that differ only in fields that are left out have the same serialization.\<close>

lemma redacting_serialize_cong:
  assumes "canonical_object m" "canonical_object m'" "''type'' \<notin> set names"
    and "\<And>k. k \<notin> set names \<Longrightarrow> map_of m k = map_of m' k"
  shows "redacting_serialize X \<lparr>rs_rules = r, custom_redacted_root_fields = names\<rparr> m =
    redacting_serialize X \<lparr>rs_rules = r, custom_redacted_root_fields = names\<rparr> m'"
proof (cases r)
  case None
  with assms show ?thesis
    by (simp add: redacting_serialize_def redacting_entries_without_rules canonical_object_bt_wf
        without_fields_cong [of m m' names])
next
  case (Some rules)
  have type: "get_as_required_string m ''type'' ''type'' = get_as_required_string m' ''type'' ''type''"
    using assms(3,4) by (intro get_as_required_string_cong)
  have "without_fields names (retained_entries rules keys m) = without_fields names (retained_entries rules keys m')"
    for keys
    using assms by (intro without_fields_cong)
      (simp_all add: map_of_retained_entries bt_wf_retained_entries canonical_object_bt_wf)
  with Some assms(1,2) type show ?thesis
    by (simp add: redacting_serialize_redact redact_entries map_ok_def split: sum.splits)
qed

lemma content_hash_cong:
  assumes "canonical_object m" "canonical_object m'"
    and "\<And>k. k \<notin> {''hashes'', ''signatures'', ''unsigned''} \<Longrightarrow> map_of m k = map_of m' k"
  shows "content_hash X m = content_hash X m'"
  unfolding content_hash_def
  by (subst redacting_serialize_cong [OF assms(1,2)])
    (use assms(3) in \<open>auto simp: CONTENT_HASH_FIELDS_TO_REMOVE_def\<close>)

lemma signing_serialize_cong:
  assumes "canonical_object m" "canonical_object m'"
    and "\<And>k. k \<notin> {''signatures'', ''unsigned''} \<Longrightarrow> map_of m k = map_of m' k"
  shows "redacting_serialize X \<lparr>rs_rules = r, custom_redacted_root_fields = FIELDS_TO_REMOVE_FOR_SIGNING\<rparr> m =
    redacting_serialize X \<lparr>rs_rules = r, custom_redacted_root_fields = FIELDS_TO_REMOVE_FOR_SIGNING\<rparr> m'"
  by (rule redacting_serialize_cong [OF assms(1,2)])
    (use assms(3) in \<open>auto simp: FIELDS_TO_REMOVE_FOR_SIGNING_def\<close>)

lemma fields_to_remove_eq: "REFERENCE_HASH_FIELDS_TO_REMOVE = FIELDS_TO_REMOVE_FOR_SIGNING"
  by (simp add: REFERENCE_HASH_FIELDS_TO_REMOVE_def FIELDS_TO_REMOVE_FOR_SIGNING_def)

lemma reference_hash_cong:
  assumes "canonical_object m" "canonical_object m'"
    and "\<And>k. k \<notin> {''signatures'', ''unsigned''} \<Longrightarrow> map_of m k = map_of m' k"
  shows "reference_hash X m rules = reference_hash X m' rules"
  unfolding reference_hash_def fields_to_remove_eq
  by (subst signing_serialize_cong [OF assms(1,2)]) (use assms(3) in auto)

section \<open>What signing changes\<close>

lemma get_as_object_or_insert_default_cases:
  assumes "get_as_object_or_insert_default m k p = (r, m')" "canonical_object m"
  shows "canonical_object m' \<and> (\<forall>k'. k' \<noteq> k \<longrightarrow> map_of m' k' = map_of m k')
    \<and> (\<forall>o'. r = Inr o' \<longrightarrow> canonical_object o' \<and> map_of m' k = Some (CObject o')
          \<and> (map_of m k = Some (CObject o') \<or> map_of m k = None \<and> o' = []))"
  using assms canonical_object_lookup [OF assms(2), of k]
  by (auto simp: get_as_object_or_insert_default_def map_of_bt_insert canonical_object_bt_wf
      split: option.splits canonical_json.splits intro: canonical_object_insert)

lemma insert_signature_effect:
  assumes "insert_signature X m entity sig = (Inr (), m')" "canonical_object m"
  obtains sigs keys where "canonical_object m'" and "\<And>k. k \<noteq> ''signatures'' \<Longrightarrow> map_of m' k = map_of m k"
    and "map_of m' ''signatures'' = Some (CObject sigs)" and "map_of sigs entity = Some (CObject keys)"
    and "map_of keys (sig_key_id sig) = Some (CString (x_base64_encode X (sig_bytes sig)))"
    and "bt_wf keys" and "map_of m ''signatures'' = None \<Longrightarrow> map fst sigs = [entity]"
proof -
  obtain sigs m1 where 1: "get_as_object_or_insert_default m ''signatures'' ''signatures'' = (Inr sigs, m1)"
    using assms(1) by (auto simp: insert_signature_def split: prod.splits sum.splits)
  obtain keys sigs1 where 2: "get_as_object_or_insert_default sigs entity (''signatures.'' @ entity) = (Inr keys, sigs1)"
    using assms(1) 1 by (auto simp: insert_signature_def split: prod.splits sum.splits)
  define keys' where "keys' = bt_insert (sig_key_id sig) (CString (x_base64_encode X (sig_bytes sig))) keys"
  define sigs' where "sigs' = bt_insert entity (CObject keys') sigs1"
  have m': "m' = bt_insert ''signatures'' (CObject sigs') m1"
    using assms(1) 1 2 by (simp add: insert_signature_def sigs'_def keys'_def)
  note e1 = get_as_object_or_insert_default_cases [OF 1 assms(2)]
  then have sigs: "canonical_object sigs" by simp
  note e2 = get_as_object_or_insert_default_cases [OF 2 sigs]
  have keys': "canonical_object keys'"
    unfolding keys'_def using e2 by (simp add: canonical_object_insert)
  have sigs': "canonical_object sigs'"
    unfolding sigs'_def using e2 keys' by (simp add: canonical_object_insert)
  show thesis
  proof (rule that)
    show "canonical_object m'" unfolding m' using e1 sigs' by (simp add: canonical_object_insert)
    show "map_of m' k = map_of m k" if "k \<noteq> ''signatures''" for k
      unfolding m' using e1 that by (simp add: map_of_bt_insert canonical_object_bt_wf)
    show "map_of m' ''signatures'' = Some (CObject sigs')"
      unfolding m' using e1 by (simp add: map_of_bt_insert canonical_object_bt_wf)
    show "map_of sigs' entity = Some (CObject keys')"
      unfolding sigs'_def using e2 by (simp add: map_of_bt_insert canonical_object_bt_wf)
    show "map_of keys' (sig_key_id sig) = Some (CString (x_base64_encode X (sig_bytes sig)))"
      unfolding keys'_def using e2 by (simp add: map_of_bt_insert canonical_object_bt_wf)
    show "bt_wf keys'" using keys' by (rule canonical_object_bt_wf)
    show "map fst sigs' = [entity]" if "map_of m ''signatures'' = None"
    proof -
      from e1 that have "sigs = []" by simp
      with 2 show ?thesis by (auto simp: sigs'_def get_as_object_or_insert_default_def)
    qed
  qed
qed

lemma add_content_hash_effect:
  assumes "add_content_hash_to_event X m = (Inr (), m')" "canonical_object m"
  obtains hash hashes where "canonical_object m'" and "\<And>k. k \<noteq> ''hashes'' \<Longrightarrow> map_of m' k = map_of m k"
    and "content_hash X m = Inr hash" and "map_of m' ''hashes'' = Some (CObject hashes)"
    and "map_of hashes ''sha256'' = Some (CString (x_base64_encode X hash))"
proof -
  obtain hash where hash: "content_hash X m = Inr hash"
    using assms(1) by (auto simp: add_content_hash_to_event_def split: sum.splits)
  obtain hashes m1 where 1: "get_as_object_or_insert_default m ''hashes'' ''hashes'' = (Inr hashes, m1)"
    using assms(1) hash by (auto simp: add_content_hash_to_event_def split: prod.splits sum.splits)
  define hashes' where "hashes' = bt_insert ''sha256'' (CString (x_base64_encode X hash)) hashes"
  have m': "m' = bt_insert ''hashes'' (CObject hashes') m1"
    using assms(1) 1 hash by (simp add: add_content_hash_to_event_def hashes'_def)
  note e1 = get_as_object_or_insert_default_cases [OF 1 assms(2)]
  have hashes': "canonical_object hashes'"
    unfolding hashes'_def using e1 by (simp add: canonical_object_insert)
  show thesis
  proof (rule that [OF _ _ hash])
    show "canonical_object m'" unfolding m' using e1 hashes' by (simp add: canonical_object_insert)
    show "map_of m' k = map_of m k" if "k \<noteq> ''hashes''" for k
      unfolding m' using e1 that by (simp add: map_of_bt_insert canonical_object_bt_wf)
    show "map_of m' ''hashes'' = Some (CObject hashes')"
      unfolding m' using e1 by (simp add: map_of_bt_insert canonical_object_bt_wf)
    show "map_of hashes' ''sha256'' = Some (CString (x_base64_encode X hash))"
      unfolding hashes'_def using e1 by (simp add: map_of_bt_insert canonical_object_bt_wf)
  qed
qed

lemma sign_event_InrE:
  assumes "sign_event X entity kp m rules = (Inr (), m')"
  obtains json where "redacting_serialize X
      \<lparr>rs_rules = Some rules, custom_redacted_root_fields = FIELDS_TO_REMOVE_FOR_SIGNING\<rparr> m = Inr json"
    and "insert_signature X m entity (kp json) = (Inr (), m')"
  using assms
  by (cases "redacting_serialize X
      \<lparr>rs_rules = Some rules, custom_redacted_root_fields = FIELDS_TO_REMOVE_FOR_SIGNING\<rparr> m")
    (auto simp: sign_event_def map_err_def apfst_def map_prod_def split: prod.splits sum.splits)

section \<open>Verification of one entity\<close>

text \<open>A \<open>str\<close> does not start in the middle of a character.\<close>

definition starts_with_char :: "string \<Rightarrow> bool" where
  "starts_with_char s \<longleftrightarrow> s = [] \<or> byte (hd s) < 128 \<or> 192 \<le> byte (hd s)"

lemma ed25519_key_id:
  "starts_with_char version \<Longrightarrow> key_id_validate (\<lambda>_. Inr ()) (''ed25519:'' @ version) = Inr 7"
  "key_id_algorithm (''ed25519:'' @ version) = Inr ''ed25519''"
  by (auto simp: key_id_validate_def key_id_algorithm_def colon_idx_def ok_or_def slice_from_def
      is_char_boundary_def starts_with_char_def map_err_def hd_conv_nth)

lemma verify_entities_iff:
  "verify_entities X fetch sigs json es = Inr () \<longleftrightarrow>
     (\<forall>e\<in>set es. verify_canonical_json_for_entity X e fetch sigs json = Inr ())"
  by (induction es) (auto simp: rbind_Inr_iff)

text \<open>
  With one public key for the entity, the signature with that key decides, whatever other
  signatures the entity has.
\<close>

lemma verify_signature_set_single:
  assumes "map_of keys kid = Some (CString encoded)" "hm_wf keys"
    and "\<And>k. fetch entity k = Inr (if k = kid then Some pk else None)"
    and "key_id_validate (\<lambda>_. Inr ()) kid = Inr i" "(key_id_algorithm kid :: verification_error fail + string) = Inr ''ed25519''"
    and "x_base64_standard X encoded = Inr bytes" "ed25519_verify_json X pk bytes json = Inr ()"
  shows "verify_signature_set X entity fetch json keys checked = Inr True"
proof -
  have skip: "verify_signature_set X entity fetch json ks c = Inr c" if "kid \<notin> fst ` set ks" for ks c
    using that assms(3) by (induction ks arbitrary: c) (auto simp: map_err_def)
  show ?thesis
    using assms(1,2)
  proof (induction keys arbitrary: checked)
    case (Cons kv keys)
    obtain k v where kv: "kv = (k, v)" by (cases kv)
    show ?case
    proof (cases "k = kid")
      case True
      with Cons.prems kv assms(3-7) skip show ?thesis
        by (simp add: map_err_def verifier_from_algorithm_def)
    next
      case False
      with Cons kv assms(3) show ?thesis by (simp add: map_err_def)
    qed
  qed simp
qed

section \<open>The reference hash\<close>

lemma redact_because:
  assumes "redact event rules because = Inr redacted" "canonical_object event"
    and "\<forall>b. because = Some b \<longrightarrow> canonical_object b"
  obtains plain where "redact event rules None = Inr plain" and "canonical_object redacted"
    and "\<And>k. k \<noteq> ''unsigned'' \<Longrightarrow> map_of redacted k = map_of plain k"
proof -
  obtain plain where plain: "redact event rules None = Inr plain"
    and redacted: "redacted = (case because of None \<Rightarrow> plain
      | Some b \<Rightarrow> bt_insert ''unsigned'' (CObject (bt_insert ''redacted_because'' (CObject b) [])) plain)"
    using assms(1) by (auto simp: redact_def rbind_Inr_iff Let_def)
  note can = redact_canonical [OF plain assms(2)]
  have "canonical_object (bt_insert ''redacted_because'' (CObject b) [])" if "because = Some b" for b
    using assms(3) that by (simp add: canonical.simps(3))
  with can have "canonical_object redacted"
    unfolding redacted by (cases because) (simp_all add: canonical_object_insert)
  moreover from can have "map_of redacted k = map_of plain k" if "k \<noteq> ''unsigned''" for k
    unfolding redacted using that
    by (cases because) (simp_all add: map_of_bt_insert canonical_object_bt_wf)
  ultimately show thesis using that plain by blast
qed

lemma redacting_serialize_of_redacted:
  assumes "redact event rules None = Inr redacted" "canonical_object event"
  shows "redacting_serialize X \<lparr>rs_rules = Some rules, custom_redacted_root_fields = names\<rparr> redacted =
    redacting_serialize X \<lparr>rs_rules = Some rules, custom_redacted_root_fields = names\<rparr> event"
  using assms redact_canonical [OF assms] redact_redact [OF assms]
  by (simp add: redacting_serialize_redact)

text \<open>
  (C22) The reference hash of an event, from which its ID is made, does not change when the event is
  redacted, with or without a \<open>redacted_because\<close>, or when a server signs it.
\<close>

theorem reference_hash_stable:
  assumes "canonical_object event" "\<forall>b. because = Some b \<longrightarrow> canonical_object b"
  shows "(redact event (redaction rules) because = Inr redacted \<longrightarrow>
      reference_hash X redacted rules = reference_hash X event rules)
    \<and> (sign_event X entity kp event (redaction rules) = (Inr (), signed_event) \<longrightarrow>
      reference_hash X signed_event rules = reference_hash X event rules)"
proof safe
  assume "redact event (redaction rules) because = Inr redacted"
  then obtain plain where plain: "redact event (redaction rules) None = Inr plain"
    and "canonical_object redacted" "\<And>k. k \<noteq> ''unsigned'' \<Longrightarrow> map_of redacted k = map_of plain k"
    using redact_because [OF _ assms] by blast
  then have "reference_hash X redacted rules = reference_hash X plain rules"
    using redact_canonical [OF plain assms(1)] by (intro reference_hash_cong) auto
  also have "\<dots> = reference_hash X event rules"
    by (simp add: reference_hash_def redacting_serialize_of_redacted [OF plain assms(1)])
  finally show "reference_hash X redacted rules = reference_hash X event rules" .
next
  assume "sign_event X entity kp event (redaction rules) = (Inr (), signed_event)"
  then obtain json where "insert_signature X event entity (kp json) = (Inr (), signed_event)"
    by (rule sign_event_InrE)
  then have "canonical_object signed_event" "\<And>k. k \<noteq> ''signatures'' \<Longrightarrow> map_of signed_event k = map_of event k"
    using insert_signature_effect [OF _ assms(1)] by blast+
  with assms(1) show "reference_hash X signed_event rules = reference_hash X event rules"
    by (intro reference_hash_cong) auto
qed

section \<open>Signed events verify\<close>

lemma required_servers_cong:
  assumes "\<And>k. k \<in> {''type'', ''content'', ''sender'', ''event_id''} \<Longrightarrow> map_of m k = map_of m' k"
  shows "required_server_signatures_to_verify_event X m rules =
    required_server_signatures_to_verify_event X m' rules"
proof -
  have eqs: "map_of m ''type'' = map_of m' ''type''" "map_of m ''content'' = map_of m' ''content''"
    "map_of m ''sender'' = map_of m' ''sender''" "map_of m ''event_id'' = map_of m' ''event_id''"
    by (simp_all add: assms)
  show ?thesis
    unfolding required_server_signatures_to_verify_event_def is_invite_via_third_party_id_def
      authorised_via_users_server_def eqs get_as_required_string_cong [OF eqs(1)]
      get_as_required_object_cong [OF eqs(2)] get_as_required_string_cong [OF eqs(3)]
      get_as_required_string_cong [OF eqs(4)] ..
qed

text \<open>
  What Ed25519 and base64 promise: a signature of the secret key has 64 bytes and verifies with the
  public key, and decoding inverts encoding.
\<close>

definition key_pair_law :: "'a codec_scheme \<Rightarrow> (string \<Rightarrow> string) \<Rightarrow> string \<Rightarrow> bool" where
  "key_pair_law X signing_key public_key \<longleftrightarrow> x_ed25519_key X public_key
     \<and> (\<forall>m. length (signing_key m) = 64 \<and> x_ed25519_verify X public_key (signing_key m) m)"

definition base64_law :: "'a codec_scheme \<Rightarrow> bool" where
  "base64_law X \<longleftrightarrow> (\<forall>b. x_base64_standard X (x_base64_encode X b) = Inr b)"

lemma inserted_signature_verifies:
  assumes "insert_signature X m entity (ed25519_sign sk version json) = (Inr (), m')" "canonical_object m"
    and "key_pair_law X sk pk" "base64_law X" "starts_with_char version"
    and "map_of m' ''signatures'' = Some (CObject sigs)"
  shows "verify_canonical_json_for_entity X entity
    (public_key_map_signing_key [(entity, [(''ed25519:'' @ version, pk)])]) sigs json = Inr ()"
proof -
  let ?sig = "ed25519_sign sk version json"
  obtain keys where keys: "map_of sigs entity = Some (CObject keys)" "bt_wf keys"
    "map_of keys (sig_key_id ?sig) = Some (CString (x_base64_encode X (sig_bytes ?sig)))"
    by (rule insert_signature_effect [OF assms(1,2)]) (use assms(6) in auto)
  have "ed25519_verify_json X pk (sk json) json = Inr ()"
    using assms(3) by (simp add: ed25519_verify_json_def key_pair_law_def)
  then have "verify_signature_set X entity
      (public_key_map_signing_key [(entity, [(''ed25519:'' @ version, pk)])]) json keys False = Inr True"
    using keys(2,3) assms(4,5) ed25519_key_id [of version]
    by (intro verify_signature_set_single [where kid = "''ed25519:'' @ version" and bytes = "sk json"
          and encoded = "x_base64_encode X (sk json)"])
      (auto simp: ed25519_sign_def bt_wf_distinct public_key_map_signing_key_def ok_or_def base64_law_def)
  with keys(1) show ?thesis
    by (simp add: verify_canonical_json_for_entity_def get_as_object_def map_err_def ok_or_def)
qed

text \<open>
  (C7) An event that a server has hashed and signed verifies with the public key of that server, hash
  included, when no other server has to sign it. The event may have had signatures before.
\<close>

theorem hash_and_sign_event_verifies:
  assumes "hash_and_sign_event X entity (ed25519_sign sk version) event (redaction rules) = (Inr (), signed_event)"
    and "canonical_object event" "key_pair_law X sk pk" "base64_law X" "starts_with_char version"
    and "required_server_signatures_to_verify_event X event (signatures_of rules) = Inr servers"
    and "set servers \<subseteq> {entity}"
  shows "verify_event X [(entity, [(''ed25519:'' @ version, pk)])] signed_event rules = Inr VerifiedAll"
proof -
  obtain hashed where "add_content_hash_to_event X event = (Inr (), hashed)"
    and sign: "sign_event X entity (ed25519_sign sk version) hashed (redaction rules) = (Inr (), signed_event)"
    using assms(1) by (auto simp: hash_and_sign_event_def split: prod.splits sum.splits)
  then obtain hash hashes where hashed: "canonical_object hashed"
    "\<And>k. k \<noteq> ''hashes'' \<Longrightarrow> map_of hashed k = map_of event k" "content_hash X event = Inr hash"
    "map_of hashed ''hashes'' = Some (CObject hashes)"
    "map_of hashes ''sha256'' = Some (CString (x_base64_encode X hash))"
    using add_content_hash_effect [OF _ assms(2)] by metis
  obtain json where json: "redacting_serialize X \<lparr>rs_rules = Some (redaction rules),
      custom_redacted_root_fields = FIELDS_TO_REMOVE_FOR_SIGNING\<rparr> hashed = Inr json"
    and ins: "insert_signature X hashed entity (ed25519_sign sk version json) = (Inr (), signed_event)"
    using sign by (rule sign_event_InrE)
  obtain sigs where signed: "canonical_object signed_event"
    "\<And>k. k \<noteq> ''signatures'' \<Longrightarrow> map_of signed_event k = map_of hashed k"
    "map_of signed_event ''signatures'' = Some (CObject sigs)"
    using insert_signature_effect [OF ins hashed(1)] by metis
  have same: "map_of signed_event k = map_of event k" if "k \<notin> {''hashes'', ''signatures''}" for k
    using that signed(2) hashed(2) by simp
  have "redacting_serialize X \<lparr>rs_rules = Some (redaction rules),
      custom_redacted_root_fields = FIELDS_TO_REMOVE_FOR_SIGNING\<rparr> signed_event = Inr json"
    using json signing_serialize_cong [OF signed(1) hashed(1), of X "Some (redaction rules)"] signed(2) by simp
  moreover have "required_server_signatures_to_verify_event X signed_event (signatures_of rules) = Inr servers"
    by (subst required_servers_cong [of _ event]) (rule same, auto simp: assms(6))
  moreover have "content_hash X signed_event = Inr hash"
    using content_hash_cong [OF signed(1) assms(2), of X] same hashed(3) by simp
  moreover have "verify_entities X (public_key_map_signing_key [(entity, [(''ed25519:'' @ version, pk)])])
      sigs json servers = Inr ()"
    using inserted_signature_verifies [OF ins hashed(1) assms(3-5) signed(3)] assms(7)
    by (auto simp: verify_entities_iff)
  ultimately show ?thesis
    using hashed(4,5) signed(2,3) assms(4)
    by (simp add: verify_event_def get_as_required_object_def get_as_object_def get_as_required_string_def
        get_as_string_def ok_or_def map_err_def base64_law_def)
qed

section \<open>Signatures survive redaction\<close>

text \<open>
  An object with some entries left out, at any depth. The printer of \<open>serde_json\<close> writes the entries
  one after the other, so that leaving some out never makes it fail or the text longer.
\<close>

inductive sub_json :: "canonical_json \<Rightarrow> canonical_json \<Rightarrow> bool" where
  same: "sub_json v v"
| drop: "sub_json (CObject m') (CObject m) \<Longrightarrow> sub_json (CObject m') (CObject ((k, v) # m))"
| keep: "sub_json v' v \<Longrightarrow> sub_json (CObject m') (CObject m) \<Longrightarrow>
    sub_json (CObject ((k, v') # m')) (CObject ((k, v) # m))"

definition printer_law :: "'a codec_scheme \<Rightarrow> bool" where
  "printer_law X \<longleftrightarrow>
     (\<forall>m m' json. sub_json (CObject m') (CObject m) \<longrightarrow> x_serialize X m = Inr json \<longrightarrow>
        (\<exists>json'. x_serialize X m' = Inr json' \<and> length json' \<le> length json))"

lemma sub_json_retained_value: "sub_json (retained_value rules child v) v"
proof (induction v arbitrary: child)
  case (CObject m)
  have "sub_json (CObject (retained_entries rules keys m)) (CObject m)" for keys
    using CObject
  proof (induction m)
    case (Cons kv m)
    obtain k v where kv: "kv = (k, v)" by (cases kv)
    have "sub_json (retained_value rules child v) v" for child
      by (rule Cons.prems [of "(k, v)" v]) (auto simp: kv snds.simps)
    moreover have "sub_json (CObject (retained_entries rules keys m)) (CObject m)"
      using Cons by (auto simp: snds.simps)
    ultimately show ?case
      by (auto simp: kv split: retain_key.splits intro: sub_json.intros)
  qed (simp add: sub_json.same)
  then show ?case by (cases child) (auto intro: sub_json.same)
qed (simp_all add: sub_json.same)

lemma sub_json_redacting_entries:
  "sub_json (CObject (redacting_entries (Some (keys, rules)) names m)) (CObject (without_fields names m))"
  by (induction m)
    (auto simp: without_fields_def split: retain_key.splits
      intro: sub_json.same sub_json.drop sub_json.keep [OF sub_json_retained_value])

lemma content_hash_redacted:
  assumes "redact event rules None = Inr redacted" "canonical_object event" "printer_law X"
    and "content_hash X event = Inr hash"
  shows "\<exists>hash'. content_hash X redacted = Inr hash'"
proof -
  let ?names = CONTENT_HASH_FIELDS_TO_REMOVE
  obtain t where "redacted = retained_entries rules (RetainSome (event_key_retained t)) event"
    using redact_InrE [OF assms(1,2)] by blast
  then have sub: "sub_json (CObject (without_fields ?names redacted)) (CObject (without_fields ?names event))"
    using sub_json_redacting_entries [of "RetainSome (event_key_retained t)" rules ?names event]
    by (simp add: redacting_entries_fields [of _ _ ?names])
  have hash: "content_hash X m = rbind (map_err JsonSerde (x_serialize X (without_fields ?names m)))
      (\<lambda>json. if length json > MAX_PDU_BYTES_hash then Inl PduTooLarge else Inr (x_sha256 X json))" for m
    by (simp add: content_hash_def redacting_serialize_def redacting_entries_without_rules)
  obtain json where json: "x_serialize X (without_fields ?names event) = Inr json" "length json \<le> MAX_PDU_BYTES_hash"
    using assms(4) by (auto simp: hash rbind_Inr_iff map_err_def split: sum.splits if_splits)
  obtain json' where "x_serialize X (without_fields ?names redacted) = Inr json'" "length json' \<le> length json"
    using assms(3) sub json(1) unfolding printer_law_def by blast
  with json(2) show ?thesis by (simp add: hash map_err_def)
qed

lemma redact_contentE:
  assumes "redact event rules None = Inr redacted" "canonical_object event"
  obtains t where "map_of event ''type'' = Some (CString t)" "map_of redacted ''type'' = Some (CString t)"
    and "map_of redacted ''content'' =
      map_option (retained_value rules (Some (retained_event_content_keys t rules))) (map_of event ''content'')"
proof -
  obtain t where t: "map_of event ''type'' = Some (CString t)"
    "redacted = retained_entries rules (RetainSome (event_key_retained t)) event"
    using redact_InrE [OF assms] by blast
  have "map_of redacted ''content'' =
      map_option (retained_value rules (Some (retained_event_content_keys t rules))) (map_of event ''content'')"
    unfolding t(2) using canonical_object_bt_wf [OF assms(2)]
    by (simp add: map_of_retained_entries event_key_retained_def split: option.splits)
  moreover have "map_of redacted ''type'' = Some (CString t)"
    using redact_keeps [OF assms] t(1) by (simp add: retained_event_fields_def)
  ultimately show thesis using that t(1) by blast
qed

lemma is_invite_redacted:
  assumes "redact event rules None = Inr redacted" "canonical_object event"
    and "is_invite_via_third_party_id event = Inr b" "b \<longrightarrow> keep_room_member_third_party_invite_signed rules"
  shows "is_invite_via_third_party_id redacted = Inr b"
proof -
  obtain t where t: "map_of event ''type'' = Some (CString t)" "map_of redacted ''type'' = Some (CString t)"
    "map_of redacted ''content'' =
      map_option (retained_value rules (Some (retained_event_content_keys t rules))) (map_of event ''content'')"
    by (rule redact_contentE [OF assms(1,2)])
  note gets = get_as_required_string_def get_as_string_def get_as_required_object_def get_as_object_def ok_or_def
  show ?thesis
  proof (cases "t = ''m.room.member''")
    case True
    with assms(3) t(1) obtain c mem where c: "map_of event ''content'' = Some (CObject c)"
      and mem: "map_of c ''membership'' = Some (CString mem)"
      by (auto simp: is_invite_via_third_party_id_def gets rbind_Inr_iff
          split: option.splits canonical_json.splits)
    let ?c = "retained_entries rules (RetainSome is_room_member_content_key_retained) c"
    have wf: "bt_wf c" using canonical_object_lookup [OF assms(2) c] by (rule canonical_object_bt_wf)
    have rc: "map_of redacted ''content'' = Some (CObject ?c)"
      using t(3) c True by (simp add: retained_event_content_keys_def)
    have rm: "map_of ?c ''membership'' = Some (CString mem)"
      using mem wf by (simp add: map_of_retained_entries is_room_member_content_key_retained_def)
    have "map_of ?c ''third_party_invite'' =
        (if keep_room_member_third_party_invite_signed rules
         then map_option (retained_value rules (Some (RetainSome (\<lambda>_ key. retain_key_from (key = ''signed'')))))
                (map_of c ''third_party_invite'') else None)"
      using wf by (simp add: map_of_retained_entries is_room_member_content_key_retained_def split: option.splits)
    with assms(3,4) t(1,2) c mem rc rm True show ?thesis
      by (auto simp: is_invite_via_third_party_id_def gets map_ok_def split: option.splits canonical_json.splits if_splits)
  next
    case False
    with assms(3) t(1,2) show ?thesis by (simp add: is_invite_via_third_party_id_def gets)
  qed
qed

lemma authorised_redacted:
  assumes "redact event rules None = Inr redacted" "canonical_object event"
    and "authorised_via_users_server event = Inr user"
  shows "authorised_via_users_server redacted \<in> {Inr user, Inr None}"
proof -
  obtain t where t: "map_of redacted ''content'' =
      map_option (retained_value rules (Some (retained_event_content_keys t rules))) (map_of event ''content'')"
    by (rule redact_contentE [OF assms(1,2)])
  have "get_as_string (retained_entries rules keys c) k p \<in> {Inr a, Inr None}"
    if "get_as_string c k p = Inr a" "bt_wf c" for keys c k p a
    using that by (auto simp: get_as_string_def map_of_retained_entries
        split: option.splits canonical_json.splits retain_key.splits)
  moreover have "bt_wf c" if "map_of event ''content'' = Some (CObject c)" for c
    using canonical_object_lookup [OF assms(2) that] by (rule canonical_object_bt_wf)
  ultimately show ?thesis
    using assms(3) t
    by (cases "map_of event ''content''")
      (auto simp: authorised_via_users_server_def split: canonical_json.splits)
qed

lemma required_servers_redacted:
  assumes "redact event rules None = Inr redacted" "canonical_object event"
    and "required_server_signatures_to_verify_event X event srules = Inr servers"
    and "is_invite_via_third_party_id event = Inr True \<longrightarrow> keep_room_member_third_party_invite_signed rules"
  shows "\<exists>servers'. required_server_signatures_to_verify_event X redacted srules = Inr servers'
    \<and> set servers' \<subseteq> set servers"
proof -
  note keep = redact_keeps [OF assms(1,2)]
  have s: "get_as_required_string redacted k p = get_as_required_string event k p"
    if "k \<in> {''sender'', ''event_id''}" for k p
    using that keep by (intro get_as_required_string_cong) (auto simp: retained_event_fields_def)
  obtain b where b: "is_invite_via_third_party_id event = Inr b"
    using assms(3) by (auto simp: required_server_signatures_to_verify_event_def rbind_Inr_iff map_err_def
        split: sum.splits)
  with assms have rb: "is_invite_via_third_party_id redacted = Inr b"
    using is_invite_redacted by (metis (full_types))
  define before where "before =
    rbind (if b then Inr []
           else rbind (map_err (Err \<circ> VJson \<circ> JsonField) (get_as_required_string event ''sender'' ''sender''))
             (\<lambda>sender. map_ok (\<lambda>server. insort_insert server []) (user_id_server (x_compat_len X) sender)))
      (\<lambda>servers. if \<not> check_event_id_server srules then Inr servers
           else rbind (map_err (Err \<circ> VJson \<circ> JsonField) (get_as_required_string event ''event_id'' ''event_id''))
             (\<lambda>event_id.
             rbind (map_err (Err \<circ> ParseIdentifier ''event ID'') (event_id_validate (x_compat_len X) event_id))
             (\<lambda>_. rbind (ok_or (event_id_server_name event_id) (Err (ParseIdentifier ''event ID'' InvalidServerName)))
             (\<lambda>server_name. Inr (insort_insert server_name servers)))))"
  define after where "after m servers =
    (if \<not> check_join_authorised_via_users_server srules then Inr servers
     else rbind (map_err (Err \<circ> VJson \<circ> JsonField) (authorised_via_users_server m)) (\<lambda>user.
       case user of None \<Rightarrow> Inr servers
       | Some user \<Rightarrow> map_ok (\<lambda>server. insort_insert server servers) (user_id_server (x_compat_len X) user)))"
    for m servers
  have "required_server_signatures_to_verify_event X m srules = rbind before (after m)"
    if "m \<in> {event, redacted}" for m
    using that b rb s unfolding required_server_signatures_to_verify_event_def before_def after_def rbind_assoc
    by (auto simp: map_err_def)
  then have req: "required_server_signatures_to_verify_event X event srules = rbind before (after event)"
    "required_server_signatures_to_verify_event X redacted srules = rbind before (after redacted)" by simp_all
  then obtain first where first: "before = Inr first" "after event first = Inr servers"
    using assms(3) by (metis rbind_Inr_iff)
  have "\<exists>servers'. after redacted first = Inr servers' \<and> set servers' \<subseteq> set servers"
  proof (cases "check_join_authorised_via_users_server srules")
    case True
    then obtain user where user: "authorised_via_users_server event = Inr user"
      using first(2) by (auto simp: after_def rbind_Inr_iff map_err_def split: sum.splits)
    from authorised_redacted [OF assms(1,2) user] True user first(2) show ?thesis
      by (auto simp: after_def map_err_def set_insort_insert split: option.splits)
  qed (use first(2) in \<open>auto simp: after_def\<close>)
  with req(2) first(1) show ?thesis by simp
qed


section \<open>An example\<close>

definition example_signing_key :: "string \<Rightarrow> string" where
  "example_signing_key m = take 64 (m @ replicate 64 CHR ''x'')"

definition example_pdu :: canonical_json_object where
  "example_pdu =
     [(''content'', CObject [(''body'', CString ''hello'')]), (''sender'', CString ''@a:d''),
      (''type'', CString ''m.room.message'')]"

definition example_room :: room_version_rules where
  "example_room = RoomVersionRules_V11"

definition example_signed :: canonical_json_object where
  "example_signed =
     snd (hash_and_sign_event example_codec ''d'' (ed25519_sign example_signing_key ''1'') example_pdu
       (redaction example_room))"

lemma print_json_sub: "sub_json v' v \<Longrightarrow> length (print_json v') \<le> length (print_json v)"
  by (induction rule: sub_json.induct) auto

lemma example_laws:
  "printer_law example_codec" "base64_law example_codec"
  "key_pair_law example_codec example_signing_key ''key''" "starts_with_char ''1''"
proof -
  show "printer_law example_codec"
    using print_json_sub by (fastforce simp: printer_law_def example_codec_def)
qed (simp_all add: base64_law_def key_pair_law_def example_codec_def example_signing_key_def
    starts_with_char_def byte_def min_def)

lemma example_canonical: "canonical_object example_pdu" "canonical_object example_signed"
  by code_simp+

lemma example_signing:
  "hash_and_sign_event example_codec ''d'' (ed25519_sign example_signing_key ''1'') example_pdu
     (redaction example_room) = (Inr (), example_signed)"
  "required_server_signatures_to_verify_event example_codec example_pdu (signatures_of example_room) = Inr [''d'']"
  by code_simp+

lemma example_redaction:
  "is_ok (redact example_signed (redaction example_room) (Some []))"
  "is_ok (redact example_signed (redaction example_room) None)"
  "is_invite_via_third_party_id example_signed = Inr False"
  by code_simp+

theorem reference_hash_stable_witness:
  "\<exists>redacted. redact example_signed (redaction example_room) (Some []) = Inr redacted
     \<and> reference_hash example_codec redacted example_room = reference_hash example_codec example_signed example_room"
proof -
  obtain redacted where "redact example_signed (redaction example_room) (Some []) = Inr redacted"
    using example_redaction(1) by (auto simp: is_ok_def split: sum.splits)
  with reference_hash_stable [OF example_canonical(2), of "Some []" example_room redacted example_codec] show ?thesis
    by simp
qed

theorem hash_and_sign_event_verifies_witness:
  "verify_event example_codec [(''d'', [(''ed25519:1'', ''key'')])] example_signed example_room = Inr VerifiedAll"
  using hash_and_sign_event_verifies [OF example_signing(1) example_canonical(1) example_laws(3,2,4) example_signing(2)]
  by simp


end
