(* ===== verification/Canonical_Serializer.thy ===== *)
theory Canonical_Serializer
  imports Canonical_Json
begin

text \<open>
  The serializer to canonical JSON, \<open>common-types/src/canonical_json/serializer.rs\<close>. A value that
  implements \<open>Serialize\<close> is the call it makes of the serializer, in the data model of \<open>serde\<close>: one
  constructor for each method, with the values it passes on. The payload of the integers is the
  integer; floats carry none, since the serializers never look at it.
\<close>

section \<open>The data model of serde\<close>

datatype ser =
  SBool bool
| SI8 int | SI16 int | SI32 int | SI64 int | SI128 int
| SU8 nat | SU16 nat | SU32 nat | SU64 nat | SU128 nat
| SF32 | SF64
| SChar string | SStr string | SBytes string
| SUnit | SUnitStruct string | SUnitVariant string string
| SNewtypeStruct string ser | SNewtypeVariant string string ser
| SNone | SSome ser
| SSeq "ser list" | STuple "ser list" | STupleStruct string "ser list"
| STupleVariant string string "ser list"
| SMap "(ser \<times> ser) list" | SStruct string "(string \<times> ser) list"
| SStructVariant string string "(string \<times> ser) list"
| SCollectStr string

section \<open>Object keys\<close>

fun serialize_object_key :: "ser \<Rightarrow> canonical_json_error + string" where
  "serialize_object_key (SUnitVariant name variant) = Inr variant"
| "serialize_object_key (SNewtypeStruct name value) = serialize_object_key value"
| "serialize_object_key (SBool _) = Inl (InvalidObjectKeyType ''bool'')"
| "serialize_object_key (SI8 _) = Inl (InvalidObjectKeyType ''integer'')"
| "serialize_object_key (SI16 _) = Inl (InvalidObjectKeyType ''integer'')"
| "serialize_object_key (SI32 _) = Inl (InvalidObjectKeyType ''integer'')"
| "serialize_object_key (SI64 _) = Inl (InvalidObjectKeyType ''integer'')"
| "serialize_object_key (SI128 _) = Inl (InvalidObjectKeyType ''integer'')"
| "serialize_object_key (SU8 _) = Inl (InvalidObjectKeyType ''integer'')"
| "serialize_object_key (SU16 _) = Inl (InvalidObjectKeyType ''integer'')"
| "serialize_object_key (SU32 _) = Inl (InvalidObjectKeyType ''integer'')"
| "serialize_object_key (SU64 _) = Inl (InvalidObjectKeyType ''integer'')"
| "serialize_object_key (SU128 _) = Inl (InvalidObjectKeyType ''integer'')"
| "serialize_object_key SF32 = Inl (CInvalidType ''float'')"
| "serialize_object_key SF64 = Inl (CInvalidType ''integer'')"
| "serialize_object_key (SChar value) = Inr value"
| "serialize_object_key (SStr value) = Inr value"
| "serialize_object_key (SBytes _) = Inl (CInvalidType ''bytes'')"
| "serialize_object_key SUnit = Inl (InvalidObjectKeyType ''()'')"
| "serialize_object_key (SUnitStruct name) = Inl (InvalidObjectKeyType name)"
| "serialize_object_key (SNewtypeVariant name variant _) =
     Inl (InvalidObjectKeyType (name @ ''::'' @ variant))"
| "serialize_object_key SNone = Inl (InvalidObjectKeyType ''Option'')"
| "serialize_object_key (SSome _) = Inl (InvalidObjectKeyType ''Option'')"
| "serialize_object_key (SSeq _) = Inl (InvalidObjectKeyType ''sequence'')"
| "serialize_object_key (STuple _) = Inl (InvalidObjectKeyType ''tuple'')"
| "serialize_object_key (STupleStruct name _) = Inl (InvalidObjectKeyType name)"
| "serialize_object_key (STupleVariant name variant _) =
     Inl (InvalidObjectKeyType (name @ ''::'' @ variant))"
| "serialize_object_key (SMap _) = Inl (InvalidObjectKeyType ''map'')"
| "serialize_object_key (SStruct name _) = Inl (InvalidObjectKeyType name)"
| "serialize_object_key (SStructVariant name variant _) =
     Inl (InvalidObjectKeyType (name @ ''::'' @ variant))"
| "serialize_object_key (SCollectStr value) = Inr value"

section \<open>Raw values\<close>

definition RAW_VALUE_FIELD_NAME :: string where
  "RAW_VALUE_FIELD_NAME = ''$serde_json::private::RawValue''"

text \<open>
  \<open>serde_json::from_str\<close> at \<open>CanonicalJsonValue\<close> parses a \<open>JsonValue\<close> and converts it. The serializer
  has no method of its own for 128-bit integers: the default ones of \<open>serde\<close> fail.
\<close>

definition canonical_error_to_string :: "'a codec_scheme \<Rightarrow> canonical_json_error \<Rightarrow> string" where
  "canonical_error_to_string X e =
     (case e of
        IntegerOutOfRange \<Rightarrow> ''integer is out of the range of `js_int::Int`''
      | CInvalidType ty \<Rightarrow> ty @ '' cannot be serialized as canonical JSON''
      | InvalidObjectKeyType ty \<Rightarrow> ty @ '' cannot be used as an object key, expected a string type''
      | InvalidRawValue error \<Rightarrow> ''invalid raw value: '' @ x_serde_error X error
      | DuplicateObjectKey key \<Rightarrow> ''duplicate object key `'' @ key @ ''`''
      | COther msg \<Rightarrow> msg)"

definition canonical_from_str :: "'a codec_scheme \<Rightarrow> string \<Rightarrow> serde_error + canonical_json" where
  "canonical_from_str X value =
     rbind (x_from_str X value) (\<lambda>v.
     map_err (\<lambda>e. SerdeCustom (canonical_error_to_string X e)) (canonical_try_from X v))"

fun serialize_raw_value :: "'a codec_scheme \<Rightarrow> ser \<Rightarrow> canonical_json_error + canonical_json" where
  "serialize_raw_value X (SStr value) = map_err InvalidRawValue (canonical_from_str X value)"
| "serialize_raw_value X (SCollectStr value) = map_err InvalidRawValue (canonical_from_str X value)"
| "serialize_raw_value X (SI128 _) = Inl (COther ''i128 is not supported'')"
| "serialize_raw_value X (SU128 _) = Inl (COther ''u128 is not supported'')"
| "serialize_raw_value X _ = Inl (InvalidRawValue InvalidType)"

section \<open>Values\<close>

definition serialize_int :: "'a codec_scheme \<Rightarrow> int \<Rightarrow> canonical_json_error + canonical_json" where
  "serialize_int X value =
     map_ok CInteger (map_err (\<lambda>_. IntegerOutOfRange) (x_int_try_from X value))"

text \<open>
  \<open>to_canonical_value\<close>. The entries of a map and the fields of a struct go through
  \<open>SerializeObject\<close>, which serializes the key, looks it up in the object built so far, and only then
  serializes the value. A struct named like a raw value keeps its last field; without one the
  serializer panics.
\<close>

function (sequential) to_canonical_value :: "'a codec_scheme \<Rightarrow> ser \<Rightarrow> canonical_json_error fail + canonical_json"
  and serialize_elements :: "'a codec_scheme \<Rightarrow> ser list \<Rightarrow> canonical_json list
    \<Rightarrow> canonical_json_error fail + canonical_json list"
  and serialize_entries :: "'a codec_scheme \<Rightarrow> (ser \<times> ser) list \<Rightarrow> canonical_json_object
    \<Rightarrow> canonical_json_error fail + canonical_json_object"
  and serialize_fields :: "'a codec_scheme \<Rightarrow> (string \<times> ser) list \<Rightarrow> canonical_json_object
    \<Rightarrow> canonical_json_error fail + canonical_json_object" where
  "to_canonical_value X (SBool value) = Inr (CBool value)"
| "to_canonical_value X (SI8 value) = Inr (CInteger value)"
| "to_canonical_value X (SI16 value) = Inr (CInteger value)"
| "to_canonical_value X (SI32 value) = Inr (CInteger value)"
| "to_canonical_value X (SI64 value) = map_err Err (serialize_int X value)"
| "to_canonical_value X (SI128 value) = map_err Err (serialize_int X value)"
| "to_canonical_value X (SU8 value) = Inr (CInteger (int value))"
| "to_canonical_value X (SU16 value) = Inr (CInteger (int value))"
| "to_canonical_value X (SU32 value) = Inr (CInteger (int value))"
| "to_canonical_value X (SU64 value) = map_err Err (serialize_int X (int value))"
| "to_canonical_value X (SU128 value) = map_err Err (serialize_int X (int value))"
| "to_canonical_value X SF32 = Inl (Err (CInvalidType ''float''))"
| "to_canonical_value X SF64 = Inl (Err (CInvalidType ''float''))"
| "to_canonical_value X (SChar value) = Inr (CString value)"
| "to_canonical_value X (SStr value) = Inr (CString value)"
| "to_canonical_value X (SBytes value) = Inl (Err (CInvalidType ''bytes''))"
| "to_canonical_value X SUnit = Inr CNull"
| "to_canonical_value X (SUnitStruct name) = Inr CNull"
| "to_canonical_value X (SUnitVariant name variant) = Inr (CString variant)"
| "to_canonical_value X (SNewtypeStruct name value) = to_canonical_value X value"
| "to_canonical_value X (SNewtypeVariant name variant value) =
     map_ok (\<lambda>v. CObject (bt_insert variant v [])) (to_canonical_value X value)"
| "to_canonical_value X SNone = Inr CNull"
| "to_canonical_value X (SSome value) = to_canonical_value X value"
| "to_canonical_value X (SSeq vs) = map_ok CArray (serialize_elements X vs [])"
| "to_canonical_value X (STuple vs) = map_ok CArray (serialize_elements X vs [])"
| "to_canonical_value X (STupleStruct name vs) = map_ok CArray (serialize_elements X vs [])"
| "to_canonical_value X (STupleVariant name variant vs) =
     map_ok (\<lambda>vs. CObject (bt_insert variant (CArray vs) [])) (serialize_elements X vs [])"
| "to_canonical_value X (SMap entries) = map_ok CObject (serialize_entries X entries [])"
| "to_canonical_value X (SStruct name entries) =
     (if name = RAW_VALUE_FIELD_NAME
      then (if entries = [] then Inl Panic
            else rbind (fold (\<lambda>(key, value) res. rbind res (\<lambda>_. map_err Err (serialize_raw_value X value)))
                   entries (Inr CNull)) Inr)
      else map_ok CObject (serialize_fields X entries []))"
| "to_canonical_value X (SStructVariant name variant entries) =
     map_ok (\<lambda>m. CObject (bt_insert variant (CObject m) [])) (serialize_fields X entries [])"
| "to_canonical_value X (SCollectStr value) = Inr (CString value)"
| "serialize_elements X [] res = Inr res"
| "serialize_elements X (v # vs) res =
     rbind (to_canonical_value X v) (\<lambda>v. serialize_elements X vs (res @ [v]))"
| "serialize_entries X [] object = Inr object"
| "serialize_entries X ((key, value) # entries) object =
     rbind (map_err Err (serialize_object_key key)) (\<lambda>key.
     if hm_contains object key then Inl (Err (DuplicateObjectKey key))
     else rbind (to_canonical_value X value) (\<lambda>v. serialize_entries X entries (bt_insert key v object)))"
| "serialize_fields X [] object = Inr object"
| "serialize_fields X ((key, value) # entries) object =
     rbind (map_err Err (serialize_object_key (SStr key))) (\<lambda>key.
     if hm_contains object key then Inl (Err (DuplicateObjectKey key))
     else rbind (to_canonical_value X value) (\<lambda>v. serialize_fields X entries (bt_insert key v object)))"
  by pat_completeness auto
termination
  by (relation "measure (\<lambda>p. case p of
          Inl (Inl (_, v)) \<Rightarrow> 2 * size v + 1
        | Inl (Inr (_, vs, _)) \<Rightarrow> 2 * size_list size vs
        | Inr (Inl (_, es, _)) \<Rightarrow> 2 * size_list (size_prod size size) es
        | Inr (Inr (_, fs, _)) \<Rightarrow> 2 * size_list (size_prod (\<lambda>_. 0) size) fs)") auto

section \<open>Canonical values serialize to themselves\<close>

text \<open>\<open>Serialize for CanonicalJsonValue\<close>; \<open>js_int::Int\<close> serializes as an \<open>i64\<close>.\<close>

fun canonical_serialize :: "canonical_json \<Rightarrow> ser" where
  "canonical_serialize CNull = SUnit"
| "canonical_serialize (CBool b) = SBool b"
| "canonical_serialize (CInteger n) = SI64 n"
| "canonical_serialize (CString s) = SStr s"
| "canonical_serialize (CArray v) = SSeq (map canonical_serialize v)"
| "canonical_serialize (CObject m) = SMap (map (\<lambda>(k, v). (SStr k, canonical_serialize v)) m)"

lemma serialize_elements_map:
  "\<forall>v\<in>set vs. to_canonical_value X (canonical_serialize v) = Inr v \<Longrightarrow>
     serialize_elements X (map canonical_serialize vs) res = Inr (res @ vs)"
  by (induction vs arbitrary: res) auto

lemma serialize_entries_map:
  assumes "\<forall>kv\<in>set m. to_canonical_value X (canonical_serialize (snd kv)) = Inr (snd kv)" "bt_wf (acc @ m)"
  shows "serialize_entries X (map (\<lambda>(k, v). (SStr k, canonical_serialize v)) m) acc = Inr (acc @ m)"
  using assms
proof (induction m arbitrary: acc)
  case (Cons kv m)
  obtain k v where kv: "kv = (k, v)" by (cases kv)
  from Cons.prems kv have "bt_insert k v acc = acc @ [(k, v)]"
    by (intro bt_insert_last) (auto simp: bt_wf_append)
  moreover from Cons.prems kv have "k \<notin> fst ` set acc" by (auto simp: bt_wf_append)
  ultimately show ?case using Cons kv by (simp add: map_err_def)
qed simp

lemma canonical_serialize_roundtrip:
  "js_int X \<Longrightarrow> canonical v \<Longrightarrow> to_canonical_value X (canonical_serialize v) = Inr v"
proof (induction v)
  case (CArray vs)
  then show ?case by (auto simp: serialize_elements_map map_ok_def)
next
  case (CObject m)
  then have "\<forall>kv\<in>set m. to_canonical_value X (canonical_serialize (snd kv)) = Inr (snd kv)"
    by (auto simp: snds.simps)
  with CObject.prems serialize_entries_map [of m X "[]"] show ?case by (simp add: map_ok_def)
qed (auto simp: serialize_int_def map_ok_def map_err_def)

section \<open>Everything serialized is canonical\<close>

text \<open>The integers of the data model are in the range of their types.\<close>

fun ser_wf :: "ser \<Rightarrow> bool" where
  "ser_wf (SI8 i) \<longleftrightarrow> - (2 ^ 7) \<le> i \<and> i < 2 ^ 7"
| "ser_wf (SI16 i) \<longleftrightarrow> - (2 ^ 15) \<le> i \<and> i < 2 ^ 15"
| "ser_wf (SI32 i) \<longleftrightarrow> - (2 ^ 31) \<le> i \<and> i < 2 ^ 31"
| "ser_wf (SU8 n) \<longleftrightarrow> n < 2 ^ 8"
| "ser_wf (SU16 n) \<longleftrightarrow> n < 2 ^ 16"
| "ser_wf (SU32 n) \<longleftrightarrow> n < 2 ^ 32"
| "ser_wf (SNewtypeStruct _ v) \<longleftrightarrow> ser_wf v"
| "ser_wf (SNewtypeVariant _ _ v) \<longleftrightarrow> ser_wf v"
| "ser_wf (SSome v) \<longleftrightarrow> ser_wf v"
| "ser_wf (SSeq vs) \<longleftrightarrow> (\<forall>v\<in>set vs. ser_wf v)"
| "ser_wf (STuple vs) \<longleftrightarrow> (\<forall>v\<in>set vs. ser_wf v)"
| "ser_wf (STupleStruct _ vs) \<longleftrightarrow> (\<forall>v\<in>set vs. ser_wf v)"
| "ser_wf (STupleVariant _ _ vs) \<longleftrightarrow> (\<forall>v\<in>set vs. ser_wf v)"
| "ser_wf (SMap es) \<longleftrightarrow> (\<forall>e\<in>set es. ser_wf (snd e))"
| "ser_wf (SStruct _ fs) \<longleftrightarrow> (\<forall>f\<in>set fs. ser_wf (snd f))"
| "ser_wf (SStructVariant _ _ fs) \<longleftrightarrow> (\<forall>f\<in>set fs. ser_wf (snd f))"
| "ser_wf _ \<longleftrightarrow> True"

lemma serialize_raw_value_canonical:
  "serialize_raw_value X s = Inr v \<Longrightarrow> js_int X \<Longrightarrow> canonical v"
  by (cases s) (auto simp: canonical_from_str_def rbind_Inr_iff dest: canonical_try_from_canonical(1))

lemma serialize_raw_fields_canonical:
  assumes "fold (\<lambda>(key, value) res. rbind res (\<lambda>_. map_err Err (serialize_raw_value X value))) fs res = Inr v"
    and "js_int X" "\<forall>w. res = Inr w \<longrightarrow> canonical w"
  shows "canonical v"
  using assms
proof (induction fs arbitrary: res)
  case (Cons f fs)
  obtain k s where f: "f = (k, s)" by (cases f)
  show ?case
    using Cons.prems(1,2) serialize_raw_value_canonical
    by (intro Cons.IH) (auto simp: f rbind_Inr_iff)
qed simp

lemma to_canonical_value_canonical:
  shows "to_canonical_value X s = Inr v \<Longrightarrow> js_int X \<Longrightarrow> ser_wf s \<Longrightarrow> canonical v"
    and "serialize_elements X ss res = Inr vs \<Longrightarrow> js_int X \<Longrightarrow> \<forall>s\<in>set ss. ser_wf s \<Longrightarrow>
      \<forall>v\<in>set res. canonical v \<Longrightarrow> \<forall>v\<in>set vs. canonical v"
    and "serialize_entries X es m = Inr m1 \<Longrightarrow> js_int X \<Longrightarrow> \<forall>e\<in>set es. ser_wf (snd e) \<Longrightarrow>
      canonical_object m \<Longrightarrow> canonical_object m1"
    and "serialize_fields X fs m' = Inr m2 \<Longrightarrow> js_int X \<Longrightarrow> \<forall>f\<in>set fs. ser_wf (snd f) \<Longrightarrow>
      canonical_object m' \<Longrightarrow> canonical_object m2"
proof (induction X s and X ss res and X es m and X fs m' arbitrary: v and vs and m1 and m2
    rule: to_canonical_value_serialize_elements_serialize_entries_serialize_fields.induct)
qed (auto simp: rbind_Inr_iff int_in_range_def serialize_int_def js_int_Inr serialize_raw_fields_canonical
    simp del: canonical.simps(3) split: if_splits)



text \<open>
  (C37) Canonical values survive the way through \<open>serde_json::Value\<close> and through their own \<open>Serialize\<close>
  implementation: converting back gives the same value.
\<close>

theorem canonical_value_roundtrip:
  assumes "js_int X" "canonical v"
  shows "canonical_try_from X (json_from v) = Inr v \<and> to_canonical_value X (canonical_serialize v) = Inr v"
  using canonical_roundtrip [OF assms] canonical_serialize_roundtrip [OF assms] by simp

theorem canonical_value_roundtrip_witness:
  "canonical_try_from example_codec (json_from (CObject [(''a'', CArray [CInteger (- 5)]), (''b'', CNull)]))
     = Inr (CObject [(''a'', CArray [CInteger (- 5)]), (''b'', CNull)])"
  using canonical_value_roundtrip [OF example_codec_js_int,
      of "CObject [(''a'', CArray [CInteger (- 5)]), (''b'', CNull)]"]
  by (simp add: int_in_range_def)

end
