(* ===== verification/Olm_Crypto.thy ===== *)
theory Olm_Crypto
  imports Prelude
begin

text \<open>
  What the ratchets of \<open>common-olm\<close> are built from: the ciphers of \<open>cipher/mod.rs\<close> and \<open>cipher/key.rs\<close>,
  the keys of \<open>types/ed25519.rs\<close> and \<open>types/curve25519.rs\<close>, and the integer encoding of
  \<open>utilities/mod.rs\<close>. Byte arrays and vectors are strings; where the source copies a slice of another
  length into an array it panics, and so does the model.

  The cryptographic primitives, base64 and the protocol buffer decoders are third-party code: one
  field each of the record \<open>olm_crypto\<close>. The results that need something of them name it as a law.
\<close>

unbundle bit_operations_syntax

section \<open>Primitives\<close>

text \<open>
  HMAC-SHA-256 with key and message; HKDF-SHA-256 with salt, key, info and length; AES-256-CBC with
  PKCS7 padding, with key, initialization vector and text; Ed25519 and X25519 on bytes; base64 without
  padding or with any (\<open>base64\<close>), strictly without and strictly with padding (\<open>base64ct\<close>).
\<close>

record olm_crypto =
  k_hmac :: "string \<Rightarrow> string \<Rightarrow> string"
  k_hkdf :: "string \<Rightarrow> string \<Rightarrow> string \<Rightarrow> nat \<Rightarrow> string"
  k_aes_encrypt :: "string \<Rightarrow> string \<Rightarrow> string \<Rightarrow> string"
  k_aes_decrypt :: "string \<Rightarrow> string \<Rightarrow> string \<Rightarrow> string option"
  k_ed25519_key :: "string \<Rightarrow> bool"
  k_ed25519_signature :: "string \<Rightarrow> bool"
  k_ed25519_verify :: "string \<Rightarrow> string \<Rightarrow> string \<Rightarrow> bool"
  k_ed25519_public :: "string \<Rightarrow> string"
  k_ed25519_sign :: "string \<Rightarrow> string \<Rightarrow> string"
  k_x25519_public :: "string \<Rightarrow> string"
  k_x25519 :: "string \<Rightarrow> string \<Rightarrow> string"
  k_x25519_contributory :: "string \<Rightarrow> bool"
  k_base64_encode :: "string \<Rightarrow> string"
  k_base64_decode :: "string \<Rightarrow> string option"
  k_base64ct_unpadded_encode :: "string \<Rightarrow> string"
  k_base64ct_unpadded_decode :: "string \<Rightarrow> string option"
  k_base64ct_padded_decode :: "string \<Rightarrow> string option"
  k_decoded_len_estimate :: "nat \<Rightarrow> nat"
  k_protobuf_megolm :: "string \<Rightarrow> (32 word \<times> string) option"
  k_protobuf_olm :: "string \<Rightarrow> (string \<times> 64 word \<times> string) option"
  k_protobuf_pre_key :: "string \<Rightarrow> (string \<times> string \<times> string \<times> string) option"
  k_protobuf_pre_key_encode :: "string \<times> string \<times> string \<times> string \<Rightarrow> string"
  k_sha256 :: "string \<Rightarrow> string"

section \<open>Ciphers\<close>

definition MAC_LENGTH :: nat where
  "MAC_LENGTH = 32"

definition MAC_TRUNCATED_LEN :: nat where
  "MAC_TRUNCATED_LEN = 8"

datatype message_mac = Truncated string | Full string

fun mac_as_bytes :: "message_mac \<Rightarrow> string" where
  "mac_as_bytes (Truncated m) = m"
| "mac_as_bytes (Full m) = m"

definition mac_truncate :: "string \<Rightarrow> string" where
  "mac_truncate mac = take MAC_TRUNCATED_LEN mac"

record cipher_keys =
  aes_key :: string
  aes_iv :: string
  mac_key :: string

definition expanded_keys :: "'a olm_crypto_scheme \<Rightarrow> string \<Rightarrow> string \<Rightarrow> string" where
  "expanded_keys K message_key info = k_hkdf K [char_of (0 :: nat)] message_key info 80"

definition from_expanded_keys :: "string \<Rightarrow> cipher_keys" where
  "from_expanded_keys ks =
     \<lparr>aes_key = take 32 ks, aes_iv = take 16 (drop 64 ks), mac_key = take 32 (drop 32 ks)\<rparr>"

definition cipher_new :: "'a olm_crypto_scheme \<Rightarrow> string \<Rightarrow> cipher_keys" where
  "cipher_new K key = from_expanded_keys (expanded_keys K key ''OLM_KEYS'')"

definition cipher_new_megolm :: "'a olm_crypto_scheme \<Rightarrow> string \<Rightarrow> cipher_keys" where
  "cipher_new_megolm K key = from_expanded_keys (expanded_keys K key ''MEGOLM_KEYS'')"

definition cipher_encrypt :: "'a olm_crypto_scheme \<Rightarrow> cipher_keys \<Rightarrow> string \<Rightarrow> string" where
  "cipher_encrypt K c plaintext = k_aes_encrypt K (aes_key c) (aes_iv c) plaintext"

definition cipher_mac :: "'a olm_crypto_scheme \<Rightarrow> cipher_keys \<Rightarrow> string \<Rightarrow> string" where
  "cipher_mac K c message = k_hmac K (mac_key c) message"

definition cipher_decrypt :: "'a olm_crypto_scheme \<Rightarrow> cipher_keys \<Rightarrow> string \<Rightarrow> string option" where
  "cipher_decrypt K c ciphertext = k_aes_decrypt K (aes_key c) (aes_iv c) ciphertext"

text \<open>
  \<open>verify_slice\<close> and \<open>verify_truncated_left\<close> of the MAC: the tag is the MAC, or a nonempty prefix of it.
\<close>

definition verify_full_mac :: "'a olm_crypto_scheme \<Rightarrow> cipher_keys \<Rightarrow> string \<Rightarrow> string \<Rightarrow> bool" where
  "verify_full_mac K c message tag = (tag = cipher_mac K c message)"

definition verify_truncated_mac :: "'a olm_crypto_scheme \<Rightarrow> cipher_keys \<Rightarrow> string \<Rightarrow> string \<Rightarrow> bool" where
  "verify_truncated_mac K c message tag =
     (tag \<noteq> [] \<and> length tag \<le> length (cipher_mac K c message)
      \<and> tag = take (length tag) (cipher_mac K c message))"

datatype cipher_error = CipherInvalidPadding | CipherMac | MacMissing

definition encrypt_pickle :: "'a olm_crypto_scheme \<Rightarrow> cipher_keys \<Rightarrow> string \<Rightarrow> string" where
  "encrypt_pickle K c plaintext =
     (let ciphertext = cipher_encrypt K c plaintext
      in ciphertext @ mac_truncate (cipher_mac K c ciphertext))"

definition decrypt_pickle :: "'a olm_crypto_scheme \<Rightarrow> cipher_keys \<Rightarrow> string \<Rightarrow> cipher_error + string" where
  "decrypt_pickle K c ciphertext =
     (if length ciphertext < MAC_TRUNCATED_LEN + 1 then Inl MacMissing
      else
        let mac = drop (length ciphertext - MAC_TRUNCATED_LEN) ciphertext;
            ciphertext = take (length ciphertext - MAC_TRUNCATED_LEN) ciphertext
        in if verify_truncated_mac K c ciphertext mac
           then ok_or (cipher_decrypt K c ciphertext) CipherInvalidPadding
           else Inl CipherMac)"

section \<open>Keys\<close>

datatype signature_error = SignatureBase64 | SignatureInvalid

datatype key_error =
  Base64Error | Base64PrivateKey | InvalidKeyLength string nat nat | KeySignature signature_error
| NonContributoryKey

definition ed25519_from_slice :: "'a olm_crypto_scheme \<Rightarrow> string \<Rightarrow> key_error + string" where
  "ed25519_from_slice K bytes =
     (if k_ed25519_key K bytes then Inr bytes else Inl (KeySignature SignatureInvalid))"

text \<open>\<open>copy_from_slice\<close> into an array of \<open>n\<close> bytes.\<close>

definition copy_from_slice :: "nat \<Rightarrow> string \<Rightarrow> 'e fail + string" where
  "copy_from_slice n bytes = (if length bytes = n then Inr bytes else Inl Panic)"

definition ed25519_from_base64 :: "'a olm_crypto_scheme \<Rightarrow> string \<Rightarrow> key_error fail + string" where
  "ed25519_from_base64 K input =
     (if length input \<noteq> 43 \<and> length input \<noteq> 44
      then Inl (Err (InvalidKeyLength ''Ed25519'' 32 (k_decoded_len_estimate K (length input))))
      else
        rbind (ok_or (k_base64_decode K input) (Err Base64Error)) (\<lambda>bytes.
        rbind (copy_from_slice 32 bytes) (\<lambda>key_bytes.
        map_err Err (ed25519_from_slice K key_bytes))))"

definition ed25519_secret_from_base64 :: "'a olm_crypto_scheme \<Rightarrow> string \<Rightarrow> key_error fail + string" where
  "ed25519_secret_from_base64 K input =
     (if length input \<noteq> 43 \<and> length input \<noteq> 44
      then Inl (Err (InvalidKeyLength ''Ed25519'' 32 (k_decoded_len_estimate K (length input))))
      else
        rbind (case k_base64ct_unpadded_decode K input of
            Some bytes \<Rightarrow> Inr bytes
          | None \<Rightarrow> ok_or (k_base64ct_padded_decode K input) (Err Base64PrivateKey)) (\<lambda>bytes.
        copy_from_slice 32 bytes))"

definition ed25519_verify :: "'a olm_crypto_scheme \<Rightarrow> string \<Rightarrow> string \<Rightarrow> string \<Rightarrow> signature_error + unit" where
  "ed25519_verify K key message sig = ensure (k_ed25519_verify K key message sig) SignatureInvalid"

definition ed25519_signature_from_slice :: "'a olm_crypto_scheme \<Rightarrow> string \<Rightarrow> signature_error + string" where
  "ed25519_signature_from_slice K bytes =
     (if k_ed25519_signature K bytes then Inr bytes else Inl SignatureInvalid)"

record ed25519_keypair =
  kp_secret :: string
  kp_public :: string

definition keypair_from_secret :: "'a olm_crypto_scheme \<Rightarrow> string \<Rightarrow> ed25519_keypair" where
  "keypair_from_secret K secret = \<lparr>kp_secret = secret, kp_public = k_ed25519_public K secret\<rparr>"

definition keypair_sign :: "'a olm_crypto_scheme \<Rightarrow> ed25519_keypair \<Rightarrow> string \<Rightarrow> string" where
  "keypair_sign K kp message = k_ed25519_sign K (kp_secret kp) message"

definition curve25519_from_slice :: "string \<Rightarrow> key_error + string" where
  "curve25519_from_slice bytes =
     (if length bytes = 32 then Inr bytes else Inl (InvalidKeyLength ''Curve25519'' 32 (length bytes)))"

definition curve25519_from_base64 :: "'a olm_crypto_scheme \<Rightarrow> string \<Rightarrow> key_error + string" where
  "curve25519_from_base64 K input =
     (if length input \<noteq> 43 \<and> length input \<noteq> 44
      then Inl (InvalidKeyLength ''Curve25519'' 32 (k_decoded_len_estimate K (length input)))
      else rbind (ok_or (k_base64_decode K input) Base64Error) curve25519_from_slice)"

definition diffie_hellman :: "'a olm_crypto_scheme \<Rightarrow> string \<Rightarrow> string \<Rightarrow> string option" where
  "diffie_hellman K secret their_public_key =
     (let shared_secret = k_x25519 K secret their_public_key
      in if k_x25519_contributory K shared_secret then Some shared_secret else None)"

section \<open>Decoding of messages\<close>

datatype decode_error =
  MessageType nat | MissingVersion | MessageTooShort nat | InvalidVersion "8 word" "8 word"
| InvalidKey key_error | InvalidMacLength nat nat | DecodeSignature signature_error | ProtoBufError
| DecodeBase64

definition extract_mac :: "string \<Rightarrow> bool \<Rightarrow> message_mac" where
  "extract_mac bytes truncated =
     (if truncated then Truncated (take MAC_TRUNCATED_LEN bytes) else Full (take MAC_LENGTH bytes))"

section \<open>Integers\<close>

definition byte :: "8 word \<Rightarrow> char" where
  "byte w = char_of (unat w)"

lemma unat_drop_bit_7: "unat (drop_bit 7 (v :: 64 word)) = unat v div 128"
  using unsigned_less [of v, where 'a = nat]
  by (subst unsigned_drop_bit_eq) (simp add: drop_bit_eq_div take_bit_nat_eq_self)

function required_encoded_space_loop :: "64 word \<Rightarrow> nat \<Rightarrow> nat" where
  "required_encoded_space_loop v logcounter =
     (if v > 0 then required_encoded_space_loop (drop_bit 7 v) (logcounter + 1) else logcounter)"
  by pat_completeness auto
termination
  by (relation "measure (\<lambda>(v, _). unat v)")
    (simp_all only: in_measure prod.case unat_drop_bit_7 word_less_nat_alt, simp)

definition required_encoded_space_unsigned :: "64 word \<Rightarrow> nat" where
  "required_encoded_space_unsigned v = (if v = 0 then 1 else required_encoded_space_loop v 0)"

text \<open>Writing past the end of the vector would panic.\<close>

function var_int_loop :: "64 word \<Rightarrow> nat \<Rightarrow> string \<Rightarrow> unit fail + string" where
  "var_int_loop n i v =
     (if n \<ge> 0x80
      then if i < length v then var_int_loop (drop_bit 7 n) (i + 1) (v[i := byte (0x80 OR ucast n)])
           else Inl Panic
      else if i < length v then Inr (v[i := byte (ucast n)]) else Inl Panic)"
  by pat_completeness auto
termination
  by (relation "measure (\<lambda>(n, _). unat n)")
    (simp_all only: in_measure prod.case unat_drop_bit_7 word_le_nat_alt, auto intro: div_less_dividend)

declare required_encoded_space_loop.simps [simp del] var_int_loop.simps [simp del]

definition to_var_int_checked :: "64 word \<Rightarrow> unit fail + string" where
  "to_var_int_checked n = var_int_loop n 0 (replicate (required_encoded_space_unsigned n) (byte 0))"

definition to_var_int :: "64 word \<Rightarrow> string" where
  "to_var_int n = (case to_var_int_checked n of Inr v \<Rightarrow> v | Inl _ \<Rightarrow> [])"

definition to_be_bytes :: "32 word \<Rightarrow> string" where
  "to_be_bytes w = map (\<lambda>k. byte (ucast (drop_bit k w))) [24, 16, 8, 0]"

definition from_be_bytes :: "string \<Rightarrow> 32 word" where
  "from_be_bytes bs = foldl (\<lambda>w c. push_bit 8 w OR of_char c) 0 bs"

section \<open>The encodings are inverse\<close>

text \<open>The varint format of protocol buffers: seven bits in each byte, the least significant first.\<close>

fun read_varint :: "string \<Rightarrow> (nat \<times> string) option" where
  "read_varint [] = None"
| "read_varint (c # cs) =
     (let b = of_char c
      in if b < 128 then Some (b, cs)
         else map_option (\<lambda>(n, rest). (b - 128 + 128 * n, rest)) (read_varint cs))"

fun varint_bytes :: "nat \<Rightarrow> string" where
  "varint_bytes n = (if n < 128 then [char_of n] else char_of (n mod 128 + 128) # varint_bytes (n div 128))"

declare varint_bytes.simps [simp del]

lemma read_varint_bytes: "read_varint (varint_bytes n @ rest) = Some (n, rest)"
proof (induction n rule: varint_bytes.induct)
  case (1 n)
  show ?case
  proof (cases "n < 128")
    case True
    then show ?thesis by (simp add: varint_bytes.simps [of n])
  next
    case False
    then show ?thesis using 1 by (simp add: varint_bytes.simps [of n] Let_def)
  qed
qed

lemma required_space_loop: "required_encoded_space_loop v k = k + (if v = 0 then 0 else length (varint_bytes (unat v)))"
proof (induction v k rule: required_encoded_space_loop.induct)
  case (1 v k)
  have "drop_bit 7 v = 0 \<longleftrightarrow> unat v < 128"
    using unat_drop_bit_7 [of v] by (simp only: flip: unat_eq_0) (simp add: div_eq_0_iff)
  then show ?case
    using 1 unat_drop_bit_7 [of v]
    by (auto simp: required_encoded_space_loop.simps [of v] varint_bytes.simps [of "unat v"] word_neq_0_conv
        simp del: drop_bit_eq_div)
qed

lemma required_space: "required_encoded_space_unsigned v = length (varint_bytes (unat v))"
  by (simp add: required_encoded_space_unsigned_def required_space_loop varint_bytes.simps [of 0])

lemma byte_of_low: "n < 0x80 \<Longrightarrow> byte (ucast n) = char_of (unat (n :: 64 word))"
  by (simp add: byte_def unsigned_ucast_eq take_bit_eq_mod)

lemma byte_of_high: "byte (0x80 OR ucast n) = char_of (unat (n :: 64 word) mod 128 + 128)"
proof -
  have b: "bit (0x80 :: nat) k \<longleftrightarrow> k = 7" for k
    using bit_exp_iff [where 'a = nat, of 7 k] by (auto simp: possible_bit_def)
  have "take_bit 7 (unat n) + 128 = take_bit 7 (unat n) OR 128"
    by (rule disjunctive_add) (auto simp: bit_simps b)
  then have "unat n mod 128 + 128 = take_bit 7 (unat n) OR 128" by (simp add: take_bit_eq_mod)
  then show ?thesis
    by (simp add: byte_def char_of_def unsigned_or_eq unsigned_ucast_eq bit_simps b)
qed

lemma var_int_loop_bytes:
  "length v = i + length (varint_bytes (unat n)) \<Longrightarrow>
     var_int_loop n i v = Inr (take i v @ varint_bytes (unat n))"
proof (induction n i v rule: var_int_loop.induct)
  case (1 n i v)
  note d = unat_drop_bit_7 [of n]
  show ?case
  proof (cases "n \<ge> 0x80")
    case True
    then have n: "\<not> unat n < 128" by (simp add: word_le_nat_alt)
    with 1 True show ?thesis
      by (simp add: var_int_loop.simps [of n] varint_bytes.simps [of "unat n"] d byte_of_high take_Suc_conv_app_nth)
  next
    case False
    then have n: "unat n < 128" by (simp add: word_le_nat_alt)
    with 1 False show ?thesis
      by (simp add: var_int_loop.simps [of n] varint_bytes.simps [of "unat n"] byte_of_low upd_conv_take_nth_drop)
  qed
qed

lemma to_var_int_bytes: "to_var_int_checked n = Inr (varint_bytes (unat n))" "to_var_int n = varint_bytes (unat n)"
  by (simp_all add: to_var_int_def to_var_int_checked_def var_int_loop_bytes required_space)

lemma of_char_byte: "(of_char (byte (ucast (x :: 32 word))) :: 32 word) = take_bit 8 x"
proof -
  have "(of_char (byte (ucast x)) :: 32 word) = of_nat (of_char (byte (ucast x)))"
    by (rule of_nat_of_char [symmetric])
  also have "\<dots> = of_nat (take_bit 8 (unat x))"
    by (simp add: byte_def unsigned_ucast_eq take_bit_eq_mod)
  finally show ?thesis by (simp add: of_nat_take_bit)
qed

lemma from_be_bytes_to_be_bytes [simp]: "from_be_bytes (to_be_bytes w) = w"
  unfolding from_be_bytes_def to_be_bytes_def list.map foldl.simps of_char_byte
proof (rule bit_word_eqI)
  fix n
  assume "n < LENGTH(32)"
  then show "bit (push_bit 8 (push_bit 8 (push_bit 8 (push_bit 8 0 OR take_bit 8 (drop_bit 24 w))
      OR take_bit 8 (drop_bit 16 w)) OR take_bit 8 (drop_bit 8 w)) OR take_bit 8 (drop_bit 0 w)) n = bit w n"
    by (cases "n < 8"; cases "n < 16"; cases "n < 24") (auto simp: bit_simps)
qed

lemma length_to_be_bytes [simp]: "length (to_be_bytes w) = 4"
  by (simp add: to_be_bytes_def)

lemma of_char_byte_8 [simp]: "of_char (byte w) = (w :: 8 word)"
proof -
  have "of_char (byte w) = (of_nat (of_char (byte w)) :: 8 word)" by (rule of_nat_of_char [symmetric])
  also have "\<dots> = of_nat (unat w)" using unsigned_less [of w, where 'a = nat] by (simp add: byte_def)
  finally show ?thesis by simp
qed

section \<open>Laws of the primitives\<close>

definition aes_law :: "'a olm_crypto_scheme \<Rightarrow> bool" where
  "aes_law K \<longleftrightarrow> (\<forall>key iv p. k_aes_decrypt K key iv (k_aes_encrypt K key iv p) = Some p
     \<and> k_aes_encrypt K key iv p \<noteq> [] \<and> length (k_aes_encrypt K key iv p) \<le> length p + 16)"

definition hmac_law :: "'a olm_crypto_scheme \<Rightarrow> bool" where
  "hmac_law K \<longleftrightarrow> (\<forall>key m. length (k_hmac K key m) = 32)"

definition ed25519_law :: "'a olm_crypto_scheme \<Rightarrow> string \<Rightarrow> bool" where
  "ed25519_law K secret \<longleftrightarrow> k_ed25519_key K (k_ed25519_public K secret) \<and> length (k_ed25519_public K secret) = 32
     \<and> (\<forall>m. k_ed25519_verify K (k_ed25519_public K secret) m (k_ed25519_sign K secret m)
          \<and> k_ed25519_signature K (k_ed25519_sign K secret m) \<and> length (k_ed25519_sign K secret m) = 64)"

definition olm_base64_law :: "'a olm_crypto_scheme \<Rightarrow> bool" where
  "olm_base64_law K \<longleftrightarrow> (\<forall>bs. k_base64_decode K (k_base64_encode K bs) = Some bs
     \<and> k_base64ct_unpadded_decode K (k_base64ct_unpadded_encode K bs) = Some bs)"

definition x25519_law :: "'a olm_crypto_scheme \<Rightarrow> bool" where
  "x25519_law K \<longleftrightarrow> (\<forall>a b. k_x25519 K a (k_x25519_public K b) = k_x25519 K b (k_x25519_public K a)
     \<and> k_x25519_contributory K (k_x25519 K a (k_x25519_public K b)) \<and> length (k_x25519_public K a) = 32)"

lemma verify_own_mac:
  assumes "hmac_law K"
  shows "verify_full_mac K c m (cipher_mac K c m)"
    and "verify_truncated_mac K c m (mac_truncate (cipher_mac K c m))"
proof -
  have "length (cipher_mac K c m) = 32" using assms by (simp add: hmac_law_def cipher_mac_def)
  moreover from this have "cipher_mac K c m \<noteq> []" by auto
  ultimately show "verify_truncated_mac K c m (mac_truncate (cipher_mac K c m))"
    by (simp add: verify_truncated_mac_def mac_truncate_def MAC_TRUNCATED_LEN_def)
qed (simp add: verify_full_mac_def)

lemma decrypt_encrypt: "aes_law K \<Longrightarrow> cipher_decrypt K c (cipher_encrypt K c p) = Some p"
  by (simp add: aes_law_def cipher_decrypt_def cipher_encrypt_def)

lemma decrypt_encrypt_pickle:
  assumes "aes_law K" "hmac_law K"
  shows "decrypt_pickle K c (encrypt_pickle K c p) = Inr p"
proof -
  let ?t = "cipher_encrypt K c p"
  have "?t \<noteq> []" using assms(1) by (simp add: aes_law_def cipher_encrypt_def)
  moreover have "length (mac_truncate (cipher_mac K c ?t)) = MAC_TRUNCATED_LEN"
    using assms(2) by (simp add: hmac_law_def cipher_mac_def mac_truncate_def MAC_TRUNCATED_LEN_def)
  ultimately show ?thesis
    using verify_own_mac(2) [OF assms(2), of c ?t] decrypt_encrypt [OF assms(1), of c p]
    by (cases ?t) (simp_all add: decrypt_pickle_def encrypt_pickle_def Let_def)
qed

section \<open>An instance\<close>

text \<open>
  A toy instance of the primitives, which satisfies the laws: the MAC is a prefix, encryption appends a
  byte, keys are their own public keys, and the agreement of two keys is the sorted pair of them.
\<close>

definition fit :: "nat \<Rightarrow> string \<Rightarrow> string" where
  "fit n bs = take n (bs @ replicate n (byte 0))"

definition read_tag :: "8 word \<Rightarrow> string \<Rightarrow> string option" where
  "read_tag t bs = (case bs of c # cs \<Rightarrow> if c = byte t then Some cs else None | [] \<Rightarrow> None)"

definition read_bytes :: "string \<Rightarrow> (string \<times> string) option" where
  "read_bytes bs = Option.bind (read_varint bs) (\<lambda>(n, rest).
     if n \<le> length rest then Some (take n rest, drop n rest) else None)"

definition example_olm :: olm_crypto where
  "example_olm =
     \<lparr>k_hmac = (\<lambda>key m. fit 32 (m @ key)), k_hkdf = (\<lambda>salt key info n. fit n (key @ salt)),
      k_aes_encrypt = (\<lambda>key iv p. p @ [byte 1]), k_aes_decrypt = (\<lambda>key iv c. if c = [] then None else Some (butlast c)),
      k_ed25519_key = (\<lambda>key. length key = 32), k_ed25519_signature = (\<lambda>sig. length sig = 64),
      k_ed25519_verify = (\<lambda>key m sig. sig = fit 64 (key @ m)), k_ed25519_public = fit 32,
      k_ed25519_sign = (\<lambda>secret m. fit 64 (fit 32 secret @ m)),
      k_x25519_public = fit 32, k_x25519 = (\<lambda>secret key. min (fit 32 secret) key @ max (fit 32 secret) key),
      k_x25519_contributory = (\<lambda>_. True),
      k_base64_encode = (\<lambda>b. b), k_base64_decode = Some,
      k_base64ct_unpadded_encode = (\<lambda>b. b), k_base64ct_unpadded_decode = Some, k_base64ct_padded_decode = Some,
      k_decoded_len_estimate = (\<lambda>n. n),
      k_protobuf_megolm = (\<lambda>bs.
        Option.bind (read_tag 0x08 bs) (\<lambda>bs. Option.bind (read_varint bs) (\<lambda>(i, bs).
        Option.bind (read_tag 0x12 bs) (\<lambda>bs. Option.bind (read_bytes bs) (\<lambda>(ct, _). Some (of_nat i, ct)))))),
      k_protobuf_olm = (\<lambda>bs.
        Option.bind (read_tag 0x0A bs) (\<lambda>bs. Option.bind (read_bytes bs) (\<lambda>(key, bs).
        Option.bind (read_tag 0x10 bs) (\<lambda>bs. Option.bind (read_varint bs) (\<lambda>(i, bs).
        Option.bind (read_tag 0x22 bs) (\<lambda>bs. Option.bind (read_bytes bs) (\<lambda>(ct, _). Some (key, of_nat i, ct)))))))),
      k_protobuf_pre_key = (\<lambda>bs.
        Some (take 32 bs, take 32 (drop 32 bs), take 32 (drop 64 bs), drop 96 bs)),
      k_protobuf_pre_key_encode = (\<lambda>(one_time_key, base_key, identity_key, message).
        one_time_key @ base_key @ identity_key @ message),
      k_sha256 = fit 32\<rparr>"

lemma length_fit [simp]: "length (fit n bs) = n"
  by (simp add: fit_def)

lemma example_olm_laws: "aes_law example_olm" "hmac_law example_olm" "ed25519_law example_olm secret" "olm_base64_law example_olm"
    "x25519_law example_olm"
  by (simp_all add: x25519_law_def min.commute max.commute aes_law_def hmac_law_def ed25519_law_def olm_base64_law_def example_olm_def)

section \<open>Keys that panic\<close>

text \<open>
  (C34) Which Ed25519 keys panic. A public or secret key in base64 makes the decoder panic exactly when
  the text has 43 or 44 characters and decodes to something else than 32 bytes, since the length of
  the text is checked and the length of the decoded bytes is not. Curve25519 keys never panic: there
  the decoded length is checked, and exactly the texts of 43 or 44 characters that decode to 32 bytes
  are keys.
\<close>

theorem ed25519_keys_panic:
  "(ed25519_from_base64 K input = Inl Panic \<longleftrightarrow>
      length input \<in> {43, 44} \<and> (\<exists>bytes. k_base64_decode K input = Some bytes \<and> length bytes \<noteq> 32))
   \<and> (ed25519_secret_from_base64 K input = Inl Panic \<longleftrightarrow>
      length input \<in> {43, 44} \<and>
      (\<exists>bytes. (case k_base64ct_unpadded_decode K input of
           Some bytes \<Rightarrow> Some bytes | None \<Rightarrow> k_base64ct_padded_decode K input) = Some bytes
         \<and> length bytes \<noteq> 32))
   \<and> (curve25519_from_base64 K input = Inr key \<longleftrightarrow>
      length input \<in> {43, 44} \<and> k_base64_decode K input = Some key \<and> length key = 32)"
  by (auto simp: ed25519_from_base64_def ed25519_secret_from_base64_def curve25519_from_base64_def
      copy_from_slice_def ed25519_from_slice_def curve25519_from_slice_def rbind_def map_err_def ok_or_def
      split: option.splits sum.splits if_splits)

text \<open>A decoder that follows the length rule of base64 lets every unpadded text of 44 characters panic.\<close>

lemma ed25519_unpadded_44_panics:
  assumes "k_base64_decode K input = Some bytes" and "length bytes = length input * 3 div 4"
    and "length input = 44"
  shows "ed25519_from_base64 K input = Inl Panic"
  using assms by (simp add: ed25519_from_base64_def copy_from_slice_def rbind_def map_err_def ok_or_def)

end
