(* ===== verification/Megolm_Ratchet.thy ===== *)
theory Megolm_Ratchet
  imports Olm_Crypto
begin

text \<open>
  The Megolm ratchet, \<open>common-olm/src/megolm/ratchet.rs\<close>: four parts of 32 bytes and a 32-bit counter.
  The counter wraps around, as it does in builds without overflow checks.

  The main result is that the fast \<open>advance_to\<close>, which rehashes each part at most 256 times,
  reaches the same ratchet as repeated calls of \<open>advance\<close>.
\<close>

unbundle bit_operations_syntax

section \<open>The ratchet\<close>

record ratchet =
  r_0 :: string
  r_1 :: string
  r_2 :: string
  r_3 :: string
  counter :: "32 word"

definition ratchet_as_bytes :: "ratchet \<Rightarrow> string" where
  "ratchet_as_bytes r = r_0 r @ r_1 r @ r_2 r @ r_3 r"

definition ratchet_from_bytes :: "string \<Rightarrow> 32 word \<Rightarrow> ratchet" where
  "ratchet_from_bytes bytes c =
     (let top = take 64 bytes; bottom = drop 64 bytes
      in \<lparr>r_0 = take 32 top, r_1 = drop 32 top, r_2 = take 32 bottom, r_3 = drop 32 bottom, counter = c\<rparr>)"

text \<open>The parts by number; other numbers than 0 to 3 are unreachable.\<close>

definition part :: "nat \<Rightarrow> ratchet \<Rightarrow> string" where
  "part i r = (if i = 0 then r_0 r else if i = 1 then r_1 r else if i = 2 then r_2 r else r_3 r)"

definition set_part :: "nat \<Rightarrow> string \<Rightarrow> ratchet \<Rightarrow> ratchet" where
  "set_part i v r =
     (if i = 0 then r\<lparr>r_0 := v\<rparr> else if i = 1 then r\<lparr>r_1 := v\<rparr>
      else if i = 2 then r\<lparr>r_2 := v\<rparr> else r\<lparr>r_3 := v\<rparr>)"

text \<open>\<open>RatchetPart::hash\<close> with the seed of the target part, and \<open>RatchetParts::update\<close>.\<close>

definition part_hash :: "'a olm_crypto_scheme \<Rightarrow> nat \<Rightarrow> string \<Rightarrow> string" where
  "part_hash K to v = k_hmac K v [char_of to]"

definition parts_update :: "'a olm_crypto_scheme \<Rightarrow> nat \<Rightarrow> nat \<Rightarrow> ratchet \<Rightarrow> ratchet" where
  "parts_update K from to r = set_part to (part_hash K to (part from r)) r"

text \<open>The loop that finds the slowest part to advance.\<close>

fun slowest_part :: "32 word \<Rightarrow> 32 word \<Rightarrow> nat list \<Rightarrow> nat" where
  "slowest_part c bitmask [] = 0"
| "slowest_part c bitmask (i # is) =
     (if c AND bitmask = 0 then i else slowest_part c (drop_bit 8 bitmask) is)"

definition ratchet_advance :: "'a olm_crypto_scheme \<Rightarrow> ratchet \<Rightarrow> ratchet" where
  "ratchet_advance K r =
     (let r = r\<lparr>counter := counter r + 1\<rparr>;
          h = slowest_part (counter r) 0x00FFFFFF [0..<128]
      in fold (\<lambda>i. parts_update K h i) (rev [h..<4]) r)"

text \<open>The loop \<open>while steps > 1\<close>.\<close>

function bump_part :: "'a olm_crypto_scheme \<Rightarrow> nat \<Rightarrow> 32 word \<Rightarrow> ratchet \<Rightarrow> ratchet" where
  "bump_part K j steps r =
     (if steps > 1 then bump_part K j (steps - 1) (parts_update K j j r) else r)"
  by pat_completeness auto
termination
  by (relation "measure (\<lambda>(K, j, steps, r). unat steps)") (auto simp: word_less_nat_alt unat_sub_if')

definition advance_part :: "'a olm_crypto_scheme \<Rightarrow> 32 word \<Rightarrow> nat \<Rightarrow> ratchet \<Rightarrow> ratchet" where
  "advance_part K advance_to j r =
     (let shift = (3 - j) * 8;
          bitmask = push_bit shift (NOT 0);
          steps = (drop_bit shift advance_to - drop_bit shift (counter r)) AND 0xff
      in if steps = 0 \<and> \<not> advance_to < counter r then r
         else
           let steps = (if steps = 0 then 0x100 else steps);
               r = bump_part K j steps r;
               r = fold (\<lambda>k. parts_update K j k) (rev [j..<4]) r
           in r\<lparr>counter := advance_to AND bitmask\<rparr>)"

definition ratchet_advance_to :: "'a olm_crypto_scheme \<Rightarrow> 32 word \<Rightarrow> ratchet \<Rightarrow> ratchet" where
  "ratchet_advance_to K advance_to r = fold (advance_part K advance_to) [0..<4] r"

declare bump_part.simps [simp del]

section \<open>Parts and levels\<close>

definition level :: "'a olm_crypto_scheme \<Rightarrow> nat \<Rightarrow> ratchet \<Rightarrow> ratchet" where
  "level K h r = fold (\<lambda>i. parts_update K h i) (rev [h..<4]) r"

lemma ratchet_eqI:
  assumes "\<And>i. i < 4 \<Longrightarrow> part i r = part i s" "counter r = counter s"
  shows "(r :: ratchet) = s"
  using assms(1) [of 0] assms(1) [of 1] assms(1) [of 2] assms(1) [of 3] assms(2)
  by (simp add: part_def)

lemma less_4_cases: "j < 4 \<Longrightarrow> j = 0 \<or> j = 1 \<or> j = 2 \<or> j = (3 :: nat)"
  by auto

lemma part_set_part [simp]:
  "i < 4 \<Longrightarrow> j < 4 \<Longrightarrow> part i (set_part j v r) = (if i = j then v else part i r)"
  by (auto simp: part_def set_part_def dest!: less_4_cases)

lemma counter_simps [simp]:
  "counter (set_part j v r) = counter r" "counter (parts_update K i j r) = counter r"
  by (simp_all add: set_part_def parts_update_def)

lemma part_counter [simp]: "part i (r\<lparr>counter := c\<rparr>) = part i r"
  by (simp add: part_def)

lemma part_parts_update [simp]:
  "i < 4 \<Longrightarrow> to < 4 \<Longrightarrow>
     part i (parts_update K from to r) = (if i = to then part_hash K to (part from r) else part i r)"
  by (simp add: parts_update_def)

lemma fold_parts_update:
  assumes "\<forall>i\<in>set is. h < i \<and> i < 4" "h < 4" "k < 4" "distinct is"
  shows "part k (fold (\<lambda>i. parts_update K h i) is r) =
      (if k \<in> set is then part_hash K k (part h r) else part k r)
    \<and> counter (fold (\<lambda>i. parts_update K h i) is r) = counter r"
  using assms by (induction "is" arbitrary: r) auto

lemma part_level:
  assumes "h < 4" "k < 4"
  shows "part k (level K h r) = (if k < h then part k r else part_hash K k (part h r))"
    and "counter (level K h r) = counter r"
proof -
  have "rev [h..<4] = rev [Suc h..<4] @ [h]" using assms(1) by (simp add: upt_rec [of h])
  moreover have "\<forall>i\<in>set (rev [Suc h..<4]). h < i \<and> i < 4" by auto
  note fold_parts_update [OF this assms(1), of _ K r]
  ultimately show "part k (level K h r) = (if k < h then part k r else part_hash K k (part h r))"
    "counter (level K h r) = counter r"
    using assms by (auto simp: level_def)
qed

text \<open>A level update sees only the parts up to its own.\<close>

lemma level_cong:
  assumes "h < 4" "\<And>i. i \<le> h \<Longrightarrow> part i r = part i s" "counter r = counter s"
  shows "level K h r = level K h s"
  using assms by (intro ratchet_eqI) (simp_all add: part_level)

section \<open>Counting\<close>

text \<open>Part \<open>j\<close> moves when the number of steps is a multiple of \<open>blk j\<close>.\<close>

definition blk :: "nat \<Rightarrow> nat" where
  "blk j = 2 ^ ((3 - j) * 8)"

definition slow :: "nat \<Rightarrow> nat" where
  "slow n = (if blk 0 dvd n then 0 else if blk 1 dvd n then 1 else if blk 2 dvd n then 2 else 3)"

lemma blk_pos [simp]: "0 < blk j"
  by (simp add: blk_def)

lemma blk_dvd: "i \<le> j \<Longrightarrow> blk j dvd blk i"
  by (auto simp: blk_def intro: le_imp_power_dvd)

lemma slow_le_iff: "j < 4 \<Longrightarrow> slow n \<le> j \<longleftrightarrow> blk j dvd n"
  using blk_dvd [of 0 1] blk_dvd [of 1 2] blk_dvd [of 2 3] dvd_trans
  by (auto simp: slow_def blk_def dest!: less_4_cases)

lemma slow_less: "slow n < 4"
  by (simp add: slow_def)

lemma and_low_bits:
  assumes "k \<le> 32"
  shows "(of_nat n :: 32 word) AND mask k = 0 \<longleftrightarrow> 2 ^ k dvd n"
proof -
  have "(of_nat n :: 32 word) AND mask k = of_nat (take_bit k n)"
    by (simp add: take_bit_eq_mask [symmetric] of_nat_take_bit)
  moreover have "take_bit k n < 2 ^ 32"
    using less_le_trans [OF take_bit_nat_less_exp [of k n] power_increasing [OF assms, of "2 :: nat"]] by simp
  ultimately show ?thesis
    by (auto simp: word_of_nat_eq_0_iff take_bit_eq_mod mod_eq_0_iff_dvd dest: nat_dvd_not_less)
qed

lemma slowest_part_slow: "slowest_part (of_nat n) 0x00FFFFFF [0..<128] = slow n"
proof -
  have "[0..<128] = 0 # 1 # 2 # 3 # [4..<128::nat]" by code_simp
  moreover have "(0x00FFFFFF :: 32 word) = mask 24" "(0xFFFF :: 32 word) = mask 16" "(0xFF :: 32 word) = mask 8"
    by (simp_all add: mask_eq_exp_minus_1)
  moreover have "drop_bit 8 (0x00FFFFFF :: 32 word) = 0xFFFF" "drop_bit 8 (0xFFFF :: 32 word) = 0xFF"
    "drop_bit 8 (0xFF :: 32 word) = 0" by code_simp+
  ultimately show ?thesis
    using and_low_bits [of 24 n] and_low_bits [of 16 n] and_low_bits [of 8 n]
    by (simp add: slow_def blk_def)
qed

section \<open>Steps\<close>

lemma ratchet_advance_level:
  assumes "counter r = of_nat n"
  shows "ratchet_advance K r = level K (slow (Suc n)) (r\<lparr>counter := of_nat (Suc n)\<rparr>)"
proof -
  have "counter r + 1 = of_nat (Suc n)" by (simp add: assms)
  then show ?thesis
    by (simp add: ratchet_advance_def level_def Let_def slowest_part_slow del: of_nat_Suc)
qed

lemma counter_level: "h < 4 \<Longrightarrow> counter (level K h r) = counter r"
  using part_level(2) [of h 0] by simp

lemma counter_advance:
  assumes "counter r = of_nat n"
  shows "counter ((ratchet_advance K ^^ k) r) = of_nat (n + k)"
proof (induction k)
  case (Suc k)
  then show ?case
    by (simp add: ratchet_advance_level [OF Suc] counter_level slow_less)
qed (simp add: assms)

text \<open>The parts up to \<open>j\<close> change only when a multiple of \<open>blk j\<close> is reached.\<close>

lemma part_advance_unchanged:
  assumes "counter r = of_nat n" "i \<le> j" "j < 4" "\<And>m. n < m \<Longrightarrow> m \<le> n + k \<Longrightarrow> \<not> blk j dvd m"
  shows "part i ((ratchet_advance K ^^ k) r) = part i r"
  using assms(4)
proof (induction k)
  case (Suc k)
  have "j < slow (Suc (n + k))"
    using Suc.prems [of "Suc (n + k)"] slow_le_iff [OF assms(3), of "Suc (n + k)"] by simp
  then show ?case
    using Suc assms(2,3) slow_less [of "Suc (n + k)"]
    by (simp add: ratchet_advance_level [OF counter_advance [OF assms(1)]] part_level)
qed simp

text \<open>
  From one multiple of \<open>blk j\<close> on, \<open>s\<close> crossings of such multiples rehash part \<open>j\<close> that often; the last
  one also sets the faster parts. No slower part may move in between.
\<close>

lemma bump_part_funpow: "bump_part K j steps r = (parts_update K j j ^^ (unat steps - 1)) r"
proof (induction K j steps r rule: bump_part.induct)
  case (1 K j steps r)
  show ?case
  proof (cases "steps > 1")
    case True
    then have "unat steps - 1 = Suc (unat (steps - 1) - 1)"
      by (simp add: word_less_nat_alt unat_sub_if')
    then show ?thesis
      using 1 [OF True] True by (simp add: bump_part.simps [of K j steps] funpow_swap1)
  next
    case False
    then show ?thesis by (simp add: bump_part.simps [of K j steps] word_less_nat_alt)
  qed
qed

lemma part_bumped:
  assumes "j < 4" "i < 4"
  shows "part i ((parts_update K j j ^^ k) r) = (if i = j then (part_hash K j ^^ k) (part j r) else part i r)"
  using assms by (induction k) auto

lemma counter_bumped [simp]: "counter ((parts_update K j j ^^ k) r) = counter r"
  by (induction k) auto

lemma advance_crossing:
  assumes "counter r = of_nat n" "j < 4" "slow ((n div blk j + 1) * blk j) = j"
  shows "(ratchet_advance K ^^ ((n div blk j + 1) * blk j - n)) r =
    level K j (r\<lparr>counter := of_nat ((n div blk j + 1) * blk j)\<rparr>)"
proof -
  let ?m = "(n div blk j + 1) * blk j"
  have m: "n < ?m" using dividend_less_div_times [of "blk j" n] by simp
  let ?r = "(ratchet_advance K ^^ (?m - n - 1)) r"
  have "\<not> blk j dvd k" if "n < k" "k < ?m" for k
  proof
    assume "blk j dvd k"
    then obtain q where "k = q * blk j" by (metis dvd_def mult.commute)
    with that have "n div blk j < q" "q < n div blk j + 1"
      using less_mult_imp_div_less [of n q "blk j"] by (simp_all only: mult_less_cancel2)
    then show False by simp
  qed
  then have "part i ?r = part i r" if "i \<le> j" for i
    using m that by (intro part_advance_unchanged [OF assms(1) that assms(2)]) auto
  moreover have "ratchet_advance K ?r = level K j (?r\<lparr>counter := of_nat ?m\<rparr>)"
    using ratchet_advance_level [OF counter_advance [OF assms(1), where k = "?m - n - 1" and K = K], of K] m assms(3) by simp
  moreover have "(ratchet_advance K ^^ (?m - n)) r = ratchet_advance K ?r"
    using m by (metis Suc_diff_1 zero_less_diff funpow.simps(2) comp_apply)
  ultimately show ?thesis
    using assms(2) by (auto intro!: level_cong)
qed

lemma advance_crossings:
  assumes "counter r = of_nat n" "j < 4" "\<And>q. n div blk j < q \<Longrightarrow> q \<le> n div blk j + Suc s \<Longrightarrow> slow (q * blk j) = j"
  shows "(ratchet_advance K ^^ ((n div blk j + Suc s) * blk j - n)) r =
    level K j ((parts_update K j j ^^ s) r\<lparr>counter := of_nat ((n div blk j + Suc s) * blk j)\<rparr>)"
  using assms(3)
proof (induction s)
  case 0
  then show ?case using advance_crossing [OF assms(1,2), of K] 0 [of "n div blk j + 1"] by simp
next
  case (Suc s)
  let ?n = "(n div blk j + Suc s) * blk j"
  let ?r = "(ratchet_advance K ^^ (?n - n)) r"
  have n: "?n div blk j = n div blk j + Suc s" by simp
  have le: "n \<le> ?n" using dividend_less_div_times [of "blk j" n] by (simp add: algebra_simps)
  have r: "?r = level K j ((parts_update K j j ^^ s) r\<lparr>counter := of_nat ?n\<rparr>)"
    using Suc by simp
  have "counter ?r = of_nat ?n"
    using counter_advance [OF assms(1), where k = "?n - n" and K = K] le by simp
  from advance_crossing [OF this assms(2)] Suc.prems [of "Suc (n div blk j + Suc s)"] n
  have "(ratchet_advance K ^^ ((n div blk j + Suc (Suc s)) * blk j - ?n)) ?r =
    level K j (?r\<lparr>counter := of_nat ((n div blk j + Suc (Suc s)) * blk j)\<rparr>)"
    by simp
  moreover have "(n div blk j + Suc (Suc s)) * blk j - n = ((n div blk j + Suc (Suc s)) * blk j - ?n) + (?n - n)"
    using le by (simp add: algebra_simps)
  moreover have "part i ?r = part i ((parts_update K j j ^^ Suc s) r)" if "i \<le> j" for i
    using that assms(2) unfolding r by (simp add: part_level part_bumped del: funpow.simps) simp
  ultimately show ?case
    using assms(2) by (simp only: funpow_add comp_apply) (auto intro!: level_cong)
qed

section \<open>The fast way\<close>

lemma drop_bit_8_bits:
  assumes "k + 8 \<le> 32"
  shows "uint ((drop_bit k (of_nat t) - drop_bit k (of_nat c) :: 32 word) AND 0xff) =
    (int (t div 2 ^ k) - int (c div 2 ^ k)) mod 256"
proof -
  have low: "take_bit 8 (uint (drop_bit k (of_nat m :: 32 word))) = take_bit 8 (drop_bit k (int m))" for m
    using assms by (simp add: unsigned_drop_bit_eq unsigned_of_nat drop_bit_take_bit of_nat_take_bit)
  have "(drop_bit k (of_nat t) - drop_bit k (of_nat c) :: 32 word) AND 0xff =
      take_bit 8 (drop_bit k (of_nat t) - drop_bit k (of_nat c))"
    by (simp add: take_bit_eq_mask mask_eq_exp_minus_1)
  then have "uint ((drop_bit k (of_nat t) - drop_bit k (of_nat c) :: 32 word) AND 0xff) =
      take_bit 8 (uint (drop_bit k (of_nat t :: 32 word)) - uint (drop_bit k (of_nat c :: 32 word)))"
    by (simp add: unsigned_take_bit_eq uint_word_arith_bintrs)
  also have "\<dots> = take_bit 8 (take_bit 8 (drop_bit k (int t)) - take_bit 8 (drop_bit k (int c)))"
    by (metis low take_bit_diff)
  finally show ?thesis
    by (simp add: take_bit_diff drop_bit_eq_div zdiv_int) (simp add: take_bit_eq_mod)
qed

lemma and_high_bits:
  assumes "k \<le> 32"
  shows "(of_nat t :: 32 word) AND push_bit k (NOT 0) = of_nat (t div 2 ^ k * 2 ^ k)"
proof -
  have "(of_nat t :: 32 word) AND push_bit k (NOT 0) = of_nat (push_bit k (drop_bit k t))"
    by (rule bit_word_eqI) (auto simp: bit_simps)
  then show ?thesis by (simp add: push_bit_eq_mult drop_bit_eq_div)
qed

text \<open>What the counts of crossings are, in each position.\<close>

lemma blk_Suc: "j < 3 \<Longrightarrow> blk j = blk (Suc j) * 256"
  by (auto simp: blk_def dest!: less_Suc_eq [THEN iffD1] simp: numeral_3_eq_3)

lemma blk_32: "j < 4 \<Longrightarrow> \<exists>m. 2 ^ 32 = blk j * 256 * m"
  by (auto simp: blk_def dest!: less_4_cases)

lemma slow_crossing:
  assumes "j < 4" "0 < j \<Longrightarrow> t div blk (j - 1) = c div blk (j - 1)" "c div blk j < q" "q \<le> t div blk j"
  shows "slow (q * blk j) = j"
proof -
  have "slow (q * blk j) \<le> j" using slow_le_iff [OF assms(1)] by simp
  moreover have "\<not> slow (q * blk j) \<le> j - 1" if "0 < j"
  proof
    assume "slow (q * blk j) \<le> j - 1"
    then have "blk (j - 1) dvd q * blk j" using slow_le_iff [of "j - 1"] assms(1) that by simp
    moreover have b: "blk (j - 1) = blk j * 256" using blk_Suc [of "j - 1"] assms(1) that by simp
    ultimately have "256 dvd q" by (simp add: mult.commute [of "blk j"])
    then obtain p where "q = p * 256" by (metis dvd_def mult.commute)
    moreover have "t div blk j div 256 = c div blk j div 256"
      using assms(2) [OF that] by (simp only: b div_mult2_eq)
    ultimately show False
      using assms(3,4) less_mult_imp_div_less [of "c div blk j" p 256]
      by (simp add: less_eq_div_iff_mult_less_eq [symmetric])
  qed
  ultimately show ?thesis by linarith
qed

lemma crossings_bound:
  assumes "j < 4" "c \<le> t" "t - c < 2 ^ 32" "0 < j \<Longrightarrow> t div blk (j - 1) = c div blk (j - 1)"
  shows "t div blk j - c div blk j < 256 \<or> t div blk j - c div blk j = 256 \<and> t mod 2 ^ 32 < c mod 2 ^ 32"
proof (cases "j = 0")
  case True
  let ?u = "t div blk 0" and ?v = "c div blk 0"
  have b: "2 ^ 32 = blk 0 * 256" by (simp add: blk_def)
  have split: "t = blk 0 * ?u + t mod blk 0" "c = blk 0 * ?v + c mod blk 0" by simp_all
  have "?v \<le> ?u" using div_le_mono [OF assms(2)] .
  have "blk 0 * ?u < blk 0 * (?v + 257)"
    using split assms(2,3) mod_less_divisor [OF blk_pos, of c 0] unfolding b distrib_left by linarith
  then have "?u \<le> ?v + 256" by simp
  moreover have "t mod 2 ^ 32 < c mod 2 ^ 32" if u: "?u = ?v + 256"
  proof -
    have "t mod blk 0 < c mod blk 0"
      using split assms(2,3) unfolding b u distrib_left by linarith
    then show ?thesis unfolding b mod_mult2_eq u by simp
  qed
  ultimately show ?thesis using True \<open>?v \<le> ?u\<close> by fastforce
next
  case False
  then have "blk (j - 1) = blk j * 256" "t div blk (j - 1) = c div blk (j - 1)"
    using assms(1,4) blk_Suc [of "j - 1"] by auto
  then have "t div blk j div 256 = c div blk j div 256" by (simp only: div_mult2_eq)
  then have "t div blk j - c div blk j < 256"
    using div_mult_mod_eq [of "t div blk j" 256] div_mult_mod_eq [of "c div blk j" 256]
      mod_less_divisor [of 256 "t div blk j"] by linarith
  then show ?thesis ..
qed

lemma level_counter: "h < 4 \<Longrightarrow> (level K h r)\<lparr>counter := c\<rparr> = level K h (r\<lparr>counter := c\<rparr>)"
  by (rule ratchet_eqI) (simp_all add: part_level)

lemma no_crossing:
  assumes "j < 4" "c \<le> t" "t div blk j = c div blk j"
  shows "c mod 2 ^ 32 \<le> t mod 2 ^ 32"
proof -
  obtain m where m: "2 ^ 32 = blk j * (256 * m)" using blk_32 [OF assms(1)] by (auto simp: mult.assoc)
  have "t div 2 ^ 32 = c div 2 ^ 32" unfolding m by (simp only: div_mult2_eq assms(3))
  then show ?thesis using assms(2) by (simp only: modulo_nat_def diff_le_mono)
qed

lemma advance_part_steps:
  assumes "counter r = of_nat c" "j < 4" "c \<le> t" "t - c < 2 ^ 32"
    and "0 < j \<Longrightarrow> t div blk (j - 1) = c div blk (j - 1)"
  shows "advance_part K (of_nat t) j r = (ratchet_advance K ^^ (max c (t div blk j * blk j) - c)) r"
proof -
  let ?d = "t div blk j - c div blk j"
  define steps where "steps = (drop_bit ((3 - j) * 8) (of_nat t) - drop_bit ((3 - j) * 8) (counter r)) AND (0xff :: 32 word)"
  have le: "c div blk j \<le> t div blk j" using div_le_mono [OF assms(3)] .
  have less: "of_nat t < counter r \<longleftrightarrow> t mod 2 ^ 32 < c mod 2 ^ 32"
    by (simp add: assms(1) word_less_nat_alt unat_of_nat)
  have "uint steps = (int (t div blk j) - int (c div blk j)) mod 256"
    using drop_bit_8_bits [of "(3 - j) * 8" t c] assms(1) by (simp add: steps_def blk_def)
  then have steps: "unat steps = ?d mod 256"
    using le by (metis nat_int of_nat_diff of_nat_numeral unat_eq_nat_uint zmod_int)
  show ?thesis
  proof (cases "?d = 0")
    case True
    with le have "t div blk j = c div blk j" by simp
    moreover have "c div blk j * blk j \<le> c" by simp
    ultimately show ?thesis
      using no_crossing [OF assms(2,3)] steps less True
      by (auto simp: advance_part_def Let_def max_def unat_eq_0 simp flip: steps_def)
  next
    case False
    then obtain s where s: "?d = Suc s" by (cases ?d) auto
    then have t: "t div blk j = c div blk j + Suc s" by simp
    define w where "w = (if steps = 0 then 0x100 else steps)"
    have "unat w = Suc s" "\<not> (steps = 0 \<and> \<not> of_nat t < counter r)"
      using crossings_bound [OF assms(2-5)] steps less s by (auto simp: w_def unat_eq_0 mod_eq_0_iff_dvd)
    then have "advance_part K (of_nat t) j r =
        (level K j ((parts_update K j j ^^ s) r))\<lparr>counter := of_nat (t div blk j * blk j)\<rparr>"
      using and_high_bits [of "(3 - j) * 8" t] assms(2)
      unfolding advance_part_def Let_def steps_def [symmetric] w_def [symmetric]
      by (auto simp: bump_part_funpow level_def blk_def)
    also have "\<dots> = (ratchet_advance K ^^ (t div blk j * blk j - c)) r"
      using advance_crossings [OF assms(1,2), of s K] slow_crossing [OF assms(2,5)] t
      by (simp add: level_counter assms(2))
    finally show ?thesis
      using dividend_less_div_times [of "blk j" c] t by (simp add: max_def algebra_simps)
  qed
qed

theorem ratchet_advance_to_steps: "ratchet_advance_to K n r = (ratchet_advance K ^^ unat (n - counter r)) r"
proof -
  define c where "c = unat (counter r)"
  define t where "t = c + unat (n - counter r)"
  define at where "at j = max c (t div blk j * blk j)" for j
  have c: "counter r = of_nat c" and n: "n = of_nat t" by (simp_all add: c_def t_def)
  have t: "c \<le> t" "t - c < 2 ^ 32" using unsigned_less [of "n - counter r", where 'a = nat] by (simp_all add: t_def)
  have at: "c \<le> at j" "at j \<le> t" "at j div blk j = t div blk j" for j
    using t(1) div_le_mono [of c t "blk j"] by (auto simp: at_def max_def) (metis div_le_mono div_mult_self_is_m blk_pos antisym linear)
  have mono: "at j \<le> at (Suc j)" if "j < 3" for j
    using mult_le_mono1 [OF div_times_less_eq_dividend [of "t div blk (Suc j)" 256], of "blk (Suc j)"]
    by (simp add: at_def blk_Suc [OF that] div_mult2_eq max.coboundedI2 ac_simps)
  have step: "advance_part K n j ((ratchet_advance K ^^ (m - c)) r) = (ratchet_advance K ^^ (at j - c)) r"
    if "j < 4" "c \<le> m" "m \<le> at j" "0 < j \<Longrightarrow> t div blk (j - 1) = m div blk (j - 1)" for j m
  proof -
    have "counter ((ratchet_advance K ^^ (m - c)) r) = of_nat m"
      using counter_advance [OF c, where k = "m - c" and K = K] that(2) by simp
    moreover have "m \<le> t" "t - m < 2 ^ 32" using that(2,3) at(2) [of j] t by linarith+
    note adv = advance_part_steps [OF calculation that(1) this that(4), of K]
    have "advance_part K n j ((ratchet_advance K ^^ (m - c)) r) =
        (ratchet_advance K ^^ (max m (t div blk j * blk j) - m + (m - c))) r"
      by (simp only: n adv funpow_add comp_apply)
    moreover have "max m (t div blk j * blk j) - m + (m - c) = at j - c"
      using that by (auto simp: at_def max_def)
    ultimately show ?thesis by simp
  qed
  have "at 3 = t" using t by (simp add: at_def blk_def)
  have "[0..<4] = [0, 1, 2, 3 :: nat]" by code_simp
  then have "ratchet_advance_to K n r = (ratchet_advance K ^^ (at 3 - c)) r"
    using step [of 0 c] step [of 1 "at 0"] step [of 2 "at 1"] step [of 3 "at 2"]
      at(1,3) [of 0] at(1,3) [of 1] at(1,3) [of 2] mono [of 0] mono [of 1] mono [of 2]
    by (simp add: ratchet_advance_to_def eval_nat_numeral)
  then show ?thesis using \<open>at 3 = t\<close> by (simp add: t_def)
qed

section \<open>Indexed ratchets\<close>

text \<open>
  What sessions rely on: a ratchet has an index, it can be brought to an index, and going there in
  two steps forward is the same as going there in one.
\<close>

definition reaches :: "('r \<Rightarrow> 'i :: linorder) \<Rightarrow> ('i \<Rightarrow> 'r \<Rightarrow> 'r) \<Rightarrow> 'r \<Rightarrow> 'r \<Rightarrow> bool" where
  "reaches index_of at r s \<longleftrightarrow> index_of r \<le> index_of s \<and> at (index_of s) r = s"

locale indexed_ratchet =
  fixes index_of :: "'r \<Rightarrow> 'i :: linorder" and at :: "'i \<Rightarrow> 'r \<Rightarrow> 'r"
  assumes index_at: "index_of (at i r) = i"
    and at_index: "at (index_of r) r = r"
    and at_at: "index_of r \<le> i \<Longrightarrow> i \<le> j \<Longrightarrow> at j (at i r) = at j r"
begin

lemma reaches_refl: "reaches index_of at r r"
  by (simp add: reaches_def at_index)

lemma reaches_at: "index_of r \<le> i \<Longrightarrow> reaches index_of at r (at i r)"
  by (simp add: reaches_def index_at)

lemma at_reaches: "reaches index_of at r s \<Longrightarrow> index_of s \<le> i \<Longrightarrow> at i s = at i r"
  using at_at [of r "index_of s" i] by (auto simp: reaches_def)

lemma reaches_trans: "reaches index_of at r s \<Longrightarrow> reaches index_of at s t \<Longrightarrow> reaches index_of at r t"
  using at_reaches by (auto simp: reaches_def)

lemma reaches_between: "reaches index_of at r s \<Longrightarrow> reaches index_of at r t \<Longrightarrow> index_of s \<le> index_of t \<Longrightarrow> reaches index_of at s t"
  using at_reaches by (auto simp: reaches_def)

end

lemma advance_to_word: "unat (n - m) + unat (m - c) = unat (n - c)" if "c \<le> m" "m \<le> n" for c :: "32 word"
  using that by (simp add: unat_sub_if' word_le_nat_alt)

lemma counter_advance_to: "counter (ratchet_advance_to K n r) = n"
  using counter_advance [of r "unat (counter r)", where K = K and k = "unat (n - counter r)"]
  by (simp add: ratchet_advance_to_steps)

lemma advance_to_twice:
  assumes "counter r \<le> m" "m \<le> n"
  shows "ratchet_advance_to K n (ratchet_advance_to K m r) = ratchet_advance_to K n r"
proof -
  have "ratchet_advance_to K n (ratchet_advance_to K m r) =
      (ratchet_advance K ^^ (unat (n - m) + unat (m - counter r))) r"
    by (simp only: ratchet_advance_to_steps [of K n] counter_advance_to)
      (simp only: ratchet_advance_to_steps funpow_add comp_apply)
  then show ?thesis by (simp only: advance_to_word [OF assms] ratchet_advance_to_steps)
qed

interpretation megolm: indexed_ratchet "counter :: ratchet \<Rightarrow> 32 word" "ratchet_advance_to K" for K
  by unfold_locales (simp_all add: counter_advance_to advance_to_twice, simp add: ratchet_advance_to_steps)

lemma ratchet_advance_eq: "ratchet_advance K r = ratchet_advance_to K (counter r + 1) r"
  by (simp add: ratchet_advance_to_steps)

end
