(* ===== verification/Megolm_Session.thy ===== *)
theory Megolm_Session
  imports Megolm_Ratchet
begin

text \<open>
  Megolm sessions, \<open>common-olm/src/megolm/\<close>: messages and their wire format (\<open>message.rs\<close>), session keys
  (\<open>session_keys.rs\<close>), the sender (\<open>group_session.rs\<close>) and the receiver
  (\<open>inbound_group_session.rs\<close>). A method that takes \<open>&mut self\<close> returns the session with its result.
  The operations of the feature \<open>experimental-session-config\<close> are included, as the workspace enables it.
\<close>

section \<open>Configuration and errors\<close>

datatype session_version = SessionV1 | SessionV2

record session_config =
  config_version :: session_version

datatype session_key_decode_error =
  SkVersion "8 word" "8 word" | SkRead | SkBase64 | SkSignature signature_error | SkPublicKey key_error

datatype megolm_decryption_error =
  MegolmSignature signature_error | MegolmInvalidMAC | MegolmInvalidMACLength nat nat
| MegolmInvalidPadding | UnknownMessageIndex "32 word" "32 word"

datatype session_ordering = SessionEqual | SessionBetter | SessionWorse | SessionUnconnected

section \<open>Messages\<close>

definition MEGOLM_MAC_TRUNCATED_VERSION :: "8 word" where
  "MEGOLM_MAC_TRUNCATED_VERSION = 3"

definition MEGOLM_VERSION :: "8 word" where
  "MEGOLM_VERSION = 4"

definition MESSAGE_TRUNCATED_SUFFIX_LENGTH :: nat where
  "MESSAGE_TRUNCATED_SUFFIX_LENGTH = MAC_TRUNCATED_LEN + 64"

definition MESSAGE_SUFFIX_LENGTH :: nat where
  "MESSAGE_SUFFIX_LENGTH = MAC_LENGTH + 64"

record megolm_message =
  mm_version :: "8 word"
  mm_ciphertext :: string
  mm_message_index :: "32 word"
  mm_mac :: message_mac
  mm_signature :: string

definition megolm_encode_manual :: "8 word \<Rightarrow> 32 word \<Rightarrow> string \<Rightarrow> string" where
  "megolm_encode_manual version message_index ciphertext =
     [byte version] @ [byte 0x08] @ to_var_int (ucast message_index)
     @ [byte 0x12] @ to_var_int (of_nat (length ciphertext)) @ ciphertext"

definition mm_encode_message :: "megolm_message \<Rightarrow> string" where
  "mm_encode_message m = megolm_encode_manual (mm_version m) (mm_message_index m) (mm_ciphertext m)"

definition mm_to_mac_bytes :: "megolm_message \<Rightarrow> string" where
  "mm_to_mac_bytes m = mm_encode_message m"

definition mm_to_signature_bytes :: "megolm_message \<Rightarrow> string" where
  "mm_to_signature_bytes m = mm_encode_message m @ mac_as_bytes (mm_mac m)"

definition mm_to_bytes :: "megolm_message \<Rightarrow> string" where
  "mm_to_bytes m = mm_encode_message m @ mac_as_bytes (mm_mac m) @ mm_signature m"

definition mm_to_base64 :: "'a olm_crypto_scheme \<Rightarrow> megolm_message \<Rightarrow> string" where
  "mm_to_base64 K m = k_base64_encode K (mm_to_bytes m)"

definition mm_set_mac :: "string \<Rightarrow> megolm_message \<Rightarrow> megolm_message" where
  "mm_set_mac mac m =
     (case mm_mac m of
        Truncated _ \<Rightarrow> m\<lparr>mm_mac := Truncated (mac_truncate mac)\<rparr>
      | Full _ \<Rightarrow> m\<lparr>mm_mac := Full mac\<rparr>)"

definition mm_encrypt_helper ::
  "'a olm_crypto_scheme \<Rightarrow> cipher_keys \<Rightarrow> ed25519_keypair \<Rightarrow> megolm_message \<Rightarrow> megolm_message" where
  "mm_encrypt_helper K cipher signing_key message =
     (let message = mm_set_mac (cipher_mac K cipher (mm_to_mac_bytes message)) message
      in message\<lparr>mm_signature := keypair_sign K signing_key (mm_to_signature_bytes message)\<rparr>)"

definition mm_encrypt_truncated_mac ::
  "'a olm_crypto_scheme \<Rightarrow> 32 word \<Rightarrow> cipher_keys \<Rightarrow> ed25519_keypair \<Rightarrow> string \<Rightarrow> megolm_message" where
  "mm_encrypt_truncated_mac K message_index cipher signing_key plaintext =
     mm_encrypt_helper K cipher signing_key
       \<lparr>mm_version = MEGOLM_MAC_TRUNCATED_VERSION, mm_ciphertext = cipher_encrypt K cipher plaintext,
        mm_message_index = message_index, mm_mac = Truncated (replicate MAC_TRUNCATED_LEN (byte 0)),
        mm_signature = replicate 64 (byte 0)\<rparr>"

definition mm_encrypt_full_mac ::
  "'a olm_crypto_scheme \<Rightarrow> 32 word \<Rightarrow> cipher_keys \<Rightarrow> ed25519_keypair \<Rightarrow> string \<Rightarrow> megolm_message" where
  "mm_encrypt_full_mac K message_index cipher signing_key plaintext =
     mm_encrypt_helper K cipher signing_key
       \<lparr>mm_version = MEGOLM_VERSION, mm_ciphertext = cipher_encrypt K cipher plaintext,
        mm_message_index = message_index, mm_mac = Full (replicate MAC_LENGTH (byte 0)),
        mm_signature = replicate 64 (byte 0)\<rparr>"

definition mm_from_bytes :: "'a olm_crypto_scheme \<Rightarrow> string \<Rightarrow> decode_error + megolm_message" where
  "mm_from_bytes K message =
     (case message of
        [] \<Rightarrow> Inl MissingVersion
      | c # _ \<Rightarrow>
        let version = of_char c
        in rbind (if version = MEGOLM_VERSION then Inr MESSAGE_SUFFIX_LENGTH
                  else if version = MEGOLM_MAC_TRUNCATED_VERSION then Inr MESSAGE_TRUNCATED_SUFFIX_LENGTH
                  else Inl (InvalidVersion MEGOLM_VERSION version)) (\<lambda>suffix_length.
           if length message < suffix_length + 2 then Inl (MessageTooShort (length message))
           else
             rbind (ok_or (k_protobuf_megolm K (drop 1 (take (length message - suffix_length) message)))
                 ProtoBufError) (\<lambda>(message_index, ciphertext).
             rbind (map_err DecodeSignature
                 (ed25519_signature_from_slice K (drop (length message - 64) message))) (\<lambda>sig.
             let mac = extract_mac (drop (length message - suffix_length) message)
                   (version = MEGOLM_MAC_TRUNCATED_VERSION)
             in Inr \<lparr>mm_version = version, mm_ciphertext = ciphertext, mm_message_index = message_index,
                     mm_mac = mac, mm_signature = sig\<rparr>))))"

definition mm_from_base64 :: "'a olm_crypto_scheme \<Rightarrow> string \<Rightarrow> decode_error + megolm_message" where
  "mm_from_base64 K message = rbind (ok_or (k_base64_decode K message) DecodeBase64) (mm_from_bytes K)"

section \<open>Session keys\<close>

record exported_session_key =
  ek_ratchet_index :: "32 word"
  ek_ratchet :: string
  ek_signing_key :: string

record session_key =
  sk_session_key :: exported_session_key
  sk_signature :: string

definition exported_session_key_new :: "ratchet \<Rightarrow> string \<Rightarrow> exported_session_key" where
  "exported_session_key_new r signing_key =
     \<lparr>ek_ratchet_index = counter r, ek_ratchet = ratchet_as_bytes r, ek_signing_key = signing_key\<rparr>"

definition ek_to_bytes_with_version :: "8 word \<Rightarrow> exported_session_key \<Rightarrow> string" where
  "ek_to_bytes_with_version version key =
     [byte version] @ to_be_bytes (ek_ratchet_index key) @ ek_ratchet key @ ek_signing_key key"

definition EXPORTED_VERSION :: "8 word" where
  "EXPORTED_VERSION = 1"

definition SESSION_KEY_VERSION :: "8 word" where
  "SESSION_KEY_VERSION = 2"

definition ek_to_bytes :: "exported_session_key \<Rightarrow> string" where
  "ek_to_bytes key = ek_to_bytes_with_version EXPORTED_VERSION key"

text \<open>\<open>Cursor::read_exact\<close>: the bytes read and the rest.\<close>

definition read_exact :: "nat \<Rightarrow> string \<Rightarrow> session_key_decode_error + string \<times> string" where
  "read_exact n bytes = (if length bytes < n then Inl SkRead else Inr (take n bytes, drop n bytes))"

definition decode_key ::
  "'a olm_crypto_scheme \<Rightarrow> 8 word \<Rightarrow> string \<Rightarrow> session_key_decode_error + exported_session_key \<times> string" where
  "decode_key K expected_version cursor =
     rbind (read_exact 1 cursor) (\<lambda>(version, cursor).
     let version = of_char (hd version)
     in if version \<noteq> expected_version then Inl (SkVersion expected_version version)
        else
          rbind (read_exact 4 cursor) (\<lambda>(index, cursor).
          rbind (read_exact 128 cursor) (\<lambda>(ratchet, cursor).
          rbind (read_exact 32 cursor) (\<lambda>(public_key, cursor).
          rbind (map_err SkPublicKey (ed25519_from_slice K public_key)) (\<lambda>signing_key.
          Inr (\<lparr>ek_ratchet_index = from_be_bytes index, ek_ratchet = ratchet, ek_signing_key = signing_key\<rparr>,
               cursor))))))"

definition ek_from_bytes :: "'a olm_crypto_scheme \<Rightarrow> string \<Rightarrow> session_key_decode_error + exported_session_key" where
  "ek_from_bytes K bytes = map_ok fst (decode_key K EXPORTED_VERSION bytes)"

definition session_key_new :: "ratchet \<Rightarrow> string \<Rightarrow> session_key" where
  "session_key_new r signing_key =
     \<lparr>sk_session_key = exported_session_key_new r signing_key, sk_signature = replicate 64 (byte 0)\<rparr>"

definition sk_to_signature_bytes :: "session_key \<Rightarrow> string" where
  "sk_to_signature_bytes key = ek_to_bytes_with_version SESSION_KEY_VERSION (sk_session_key key)"

definition sk_to_bytes :: "session_key \<Rightarrow> string" where
  "sk_to_bytes key = sk_to_signature_bytes key @ sk_signature key"

definition sk_from_bytes :: "'a olm_crypto_scheme \<Rightarrow> string \<Rightarrow> session_key_decode_error + session_key" where
  "sk_from_bytes K bytes =
     rbind (decode_key K SESSION_KEY_VERSION bytes) (\<lambda>(key, cursor).
     rbind (read_exact 64 cursor) (\<lambda>(sig, cursor).
     rbind (map_err SkSignature (ed25519_signature_from_slice K sig)) (\<lambda>sig.
     rbind (map_err SkSignature
         (ed25519_verify K (ek_signing_key key) (take (length bytes - 64) bytes) sig)) (\<lambda>_.
     Inr \<lparr>sk_session_key = key, sk_signature = sig\<rparr>))))"

definition sk_to_base64 :: "'a olm_crypto_scheme \<Rightarrow> session_key \<Rightarrow> string" where
  "sk_to_base64 K key = k_base64ct_unpadded_encode K (sk_to_bytes key)"

definition sk_from_base64 :: "'a olm_crypto_scheme \<Rightarrow> string \<Rightarrow> session_key_decode_error + session_key" where
  "sk_from_base64 K key = rbind (ok_or (k_base64ct_unpadded_decode K key) SkBase64) (sk_from_bytes K)"

section \<open>The sender\<close>

record group_session =
  gs_ratchet :: ratchet
  gs_signing_key :: ed25519_keypair
  gs_config :: session_config

text \<open>\<open>GroupSession::new\<close> with the random bytes it draws for the ratchet and the secret key.\<close>

definition group_session_new :: "'a olm_crypto_scheme \<Rightarrow> string \<Rightarrow> string \<Rightarrow> session_config \<Rightarrow> group_session" where
  "group_session_new K ratchet_bytes secret config =
     \<lparr>gs_ratchet = ratchet_from_bytes ratchet_bytes 0, gs_signing_key = keypair_from_secret K secret,
      gs_config = config\<rparr>"

definition group_session_encrypt ::
  "'a olm_crypto_scheme \<Rightarrow> string \<Rightarrow> group_session \<Rightarrow> megolm_message \<times> group_session" where
  "group_session_encrypt K plaintext s =
     (let cipher = cipher_new_megolm K (ratchet_as_bytes (gs_ratchet s));
          message_index = counter (gs_ratchet s);
          message =
            (case config_version (gs_config s) of
               SessionV1 \<Rightarrow> mm_encrypt_truncated_mac K message_index cipher (gs_signing_key s) plaintext
             | SessionV2 \<Rightarrow> mm_encrypt_full_mac K message_index cipher (gs_signing_key s) plaintext)
      in (message, s\<lparr>gs_ratchet := ratchet_advance K (gs_ratchet s)\<rparr>))"

definition group_session_key :: "'a olm_crypto_scheme \<Rightarrow> group_session \<Rightarrow> session_key" where
  "group_session_key K s =
     (let key = session_key_new (gs_ratchet s) (kp_public (gs_signing_key s))
      in key\<lparr>sk_signature := keypair_sign K (gs_signing_key s) (sk_to_signature_bytes key)\<rparr>)"

section \<open>The receiver\<close>

record inbound_group_session =
  initial_ratchet :: ratchet
  latest_ratchet :: ratchet
  ig_signing_key :: string
  signing_key_verified :: bool
  ig_config :: session_config

definition inbound_new :: "session_key \<Rightarrow> session_config \<Rightarrow> inbound_group_session" where
  "inbound_new key config =
     (let r = ratchet_from_bytes (ek_ratchet (sk_session_key key)) (ek_ratchet_index (sk_session_key key))
      in \<lparr>initial_ratchet = r, latest_ratchet = r, ig_signing_key = ek_signing_key (sk_session_key key),
          signing_key_verified = True, ig_config = config\<rparr>)"

definition inbound_import :: "exported_session_key \<Rightarrow> session_config \<Rightarrow> inbound_group_session" where
  "inbound_import key config =
     (let r = ratchet_from_bytes (ek_ratchet key) (ek_ratchet_index key)
      in \<lparr>initial_ratchet = r, latest_ratchet = r, ig_signing_key = ek_signing_key key,
          signing_key_verified = False, ig_config = config\<rparr>)"

definition first_known_index :: "inbound_group_session \<Rightarrow> 32 word" where
  "first_known_index s = counter (initial_ratchet s)"

definition find_ratchet ::
  "'a olm_crypto_scheme \<Rightarrow> 32 word \<Rightarrow> inbound_group_session \<Rightarrow> ratchet option \<times> inbound_group_session" where
  "find_ratchet K message_index s =
     (if counter (initial_ratchet s) = message_index then (Some (initial_ratchet s), s)
      else if counter (latest_ratchet s) = message_index then (Some (latest_ratchet s), s)
      else if counter (latest_ratchet s) < message_index
      then let s = s\<lparr>latest_ratchet := ratchet_advance_to K message_index (latest_ratchet s)\<rparr>
           in (Some (latest_ratchet s), s)
      else if counter (initial_ratchet s) < message_index
      then let s = s\<lparr>latest_ratchet := initial_ratchet s\<rparr>;
               s = s\<lparr>latest_ratchet := ratchet_advance_to K message_index (latest_ratchet s)\<rparr>
           in (Some (latest_ratchet s), s)
      else (None, s))"

definition ratchet_ct_eq :: "ratchet \<Rightarrow> ratchet \<Rightarrow> bool" where
  "ratchet_ct_eq r s = (if counter r \<noteq> counter s then False else ratchet_as_bytes r = ratchet_as_bytes s)"

definition connected :: "'a olm_crypto_scheme \<Rightarrow> inbound_group_session \<Rightarrow> inbound_group_session
    \<Rightarrow> (unit fail + bool) \<times> inbound_group_session \<times> inbound_group_session" where
  "connected K s t =
     (if ig_config s \<noteq> ig_config t \<or> ig_signing_key s \<noteq> ig_signing_key t then (Inr False, s, t)
      else
        case find_ratchet K (first_known_index t) s of
          (Some r, s) \<Rightarrow> (Inr (ratchet_ct_eq r (initial_ratchet t)), s, t)
        | (None, s) \<Rightarrow>
          case find_ratchet K (first_known_index s) t of
            (Some r, t) \<Rightarrow> (Inr (ratchet_ct_eq (initial_ratchet s) r), s, t)
          | (None, t) \<Rightarrow> (Inl Panic, s, t))"

definition session_compare :: "'a olm_crypto_scheme \<Rightarrow> inbound_group_session \<Rightarrow> inbound_group_session
    \<Rightarrow> (unit fail + session_ordering) \<times> inbound_group_session \<times> inbound_group_session" where
  "session_compare K s t =
     (case connected K s t of (c, s, t) \<Rightarrow>
       (map_ok (\<lambda>c. if c
            then (case cmp_of (first_known_index s) (first_known_index t) of
                    Less \<Rightarrow> SessionBetter
                  | Equal \<Rightarrow> SessionEqual
                  | Greater \<Rightarrow> SessionWorse)
            else SessionUnconnected) c, s, t))"

definition session_merge :: "'a olm_crypto_scheme \<Rightarrow> inbound_group_session \<Rightarrow> inbound_group_session
    \<Rightarrow> (unit fail + inbound_group_session option) \<times> inbound_group_session \<times> inbound_group_session" where
  "session_merge K s t =
     (case session_compare K s t of (c, s, t) \<Rightarrow>
       (map_ok (\<lambda>c.
          map_option (\<lambda>best_ratchet.
              \<lparr>initial_ratchet = best_ratchet, latest_ratchet = best_ratchet, ig_signing_key = ig_signing_key s,
               signing_key_verified = signing_key_verified s \<or> signing_key_verified t, ig_config = ig_config s\<rparr>)
            (case c of
               SessionEqual \<Rightarrow> Some (initial_ratchet s)
             | SessionBetter \<Rightarrow> Some (initial_ratchet s)
             | SessionWorse \<Rightarrow> Some (initial_ratchet t)
             | SessionUnconnected \<Rightarrow> None)) c, s, t))"

definition inbound_advance_to ::
  "'a olm_crypto_scheme \<Rightarrow> 32 word \<Rightarrow> inbound_group_session \<Rightarrow> bool \<times> inbound_group_session" where
  "inbound_advance_to K index s =
     (if first_known_index s < index
      then let s = s\<lparr>initial_ratchet := ratchet_advance_to K index (initial_ratchet s)\<rparr>;
               s = (if counter (latest_ratchet s) < index then s\<lparr>latest_ratchet := initial_ratchet s\<rparr> else s)
           in (True, s)
      else (False, s))"

definition inbound_verify_mac :: "'a olm_crypto_scheme \<Rightarrow> session_config \<Rightarrow> cipher_keys \<Rightarrow> megolm_message
    \<Rightarrow> megolm_decryption_error + unit" where
  "inbound_verify_mac K config cipher message =
     (case config_version config of
        SessionV1 \<Rightarrow>
          (case mm_mac message of
             Truncated m \<Rightarrow> ensure (verify_truncated_mac K cipher (mm_to_mac_bytes message) m) MegolmInvalidMAC
           | Full _ \<Rightarrow> Inl (MegolmInvalidMACLength MAC_TRUNCATED_LEN MAC_LENGTH))
      | SessionV2 \<Rightarrow>
          (case mm_mac message of
             Full m \<Rightarrow> ensure (verify_full_mac K cipher (mm_to_mac_bytes message) m) MegolmInvalidMAC
           | Truncated _ \<Rightarrow> Inl (MegolmInvalidMACLength MAC_LENGTH MAC_TRUNCATED_LEN)))"

record decrypted_message =
  dm_plaintext :: string
  dm_message_index :: "32 word"

definition inbound_decrypt :: "'a olm_crypto_scheme \<Rightarrow> megolm_message \<Rightarrow> inbound_group_session
    \<Rightarrow> (megolm_decryption_error + decrypted_message) \<times> inbound_group_session" where
  "inbound_decrypt K message s =
     (case ed25519_verify K (ig_signing_key s) (mm_to_signature_bytes message) (mm_signature message) of
        Inl e \<Rightarrow> (Inl (MegolmSignature e), s)
      | Inr _ \<Rightarrow>
        case find_ratchet K (mm_message_index message) s of
          (Some r, s) \<Rightarrow>
            (let cipher = cipher_new_megolm K (ratchet_as_bytes r)
             in rbind (inbound_verify_mac K (ig_config s) cipher message) (\<lambda>_.
                rbind (ok_or (cipher_decrypt K cipher (mm_ciphertext message)) MegolmInvalidPadding) (\<lambda>p.
                Inr \<lparr>dm_plaintext = p, dm_message_index = mm_message_index message\<rparr>)), s)
        | (None, s) \<Rightarrow> (Inl (UnknownMessageIndex (counter (initial_ratchet s)) (mm_message_index message)), s))"

definition export_at :: "'a olm_crypto_scheme \<Rightarrow> 32 word \<Rightarrow> inbound_group_session
    \<Rightarrow> exported_session_key option \<times> inbound_group_session" where
  "export_at K index s =
     (case find_ratchet K index s of
        (r, s') \<Rightarrow> (map_option (\<lambda>r. exported_session_key_new r (ig_signing_key s)) r, s'))"

record inbound_pickle =
  ip_initial_ratchet :: ratchet
  ip_signing_key :: string
  ip_signing_key_verified :: bool
  ip_config :: session_config

definition inbound_to_pickle :: "inbound_group_session \<Rightarrow> inbound_pickle" where
  "inbound_to_pickle s =
     \<lparr>ip_initial_ratchet = initial_ratchet s, ip_signing_key = ig_signing_key s,
      ip_signing_key_verified = signing_key_verified s, ip_config = ig_config s\<rparr>"

definition inbound_from_pickle :: "inbound_pickle \<Rightarrow> inbound_group_session" where
  "inbound_from_pickle p =
     \<lparr>initial_ratchet = ip_initial_ratchet p, latest_ratchet = ip_initial_ratchet p,
      ig_signing_key = ip_signing_key p, signing_key_verified = ip_signing_key_verified p,
      ig_config = ip_config p\<rparr>"

definition inbound_of_group_session :: "'a olm_crypto_scheme \<Rightarrow> group_session \<Rightarrow> inbound_group_session" where
  "inbound_of_group_session K s = inbound_new (group_session_key K s) (gs_config s)"

end
