(* ===== verification/Megolm_Props.thy ===== *)
theory Megolm_Props
  imports Megolm_Session
begin

text \<open>
  What Megolm sessions guarantee: the wire formats are inverse, a receiver session behaves like its
  first ratchet whatever it has cached, and every message that is sent after a session was shared can
  be read, in any order.
\<close>

section \<open>Wire formats\<close>

definition megolm_protobuf_law :: "'a olm_crypto_scheme \<Rightarrow> bool" where
  "megolm_protobuf_law K \<longleftrightarrow> (\<forall>bs i bs' ct.
     read_varint bs = Some (i, byte 0x12 # bs') \<and> i < 2 ^ 32 \<and> read_varint bs' = Some (length ct, ct)
     \<longrightarrow> k_protobuf_megolm K (byte 0x08 # bs) = Some (of_nat i, ct))"

definition mm_wf :: "'a olm_crypto_scheme \<Rightarrow> megolm_message \<Rightarrow> bool" where
  "mm_wf K m \<longleftrightarrow>
     (case mm_mac m of
        Truncated t \<Rightarrow> mm_version m = MEGOLM_MAC_TRUNCATED_VERSION \<and> length t = MAC_TRUNCATED_LEN
      | Full t \<Rightarrow> mm_version m = MEGOLM_VERSION \<and> length t = MAC_LENGTH)
     \<and> length (mm_signature m) = 64 \<and> k_ed25519_signature K (mm_signature m) \<and> length (mm_ciphertext m) < 2 ^ 64"

lemma megolm_protobufD:
  "megolm_protobuf_law K \<Longrightarrow> read_varint bs = Some (i, byte 0x12 # bs') \<Longrightarrow> i < 2 ^ 32 \<Longrightarrow>
     read_varint bs' = Some (length ct, ct) \<Longrightarrow> k_protobuf_megolm K (byte 0x08 # bs) = Some (of_nat i, ct)"
  unfolding megolm_protobuf_law_def by blast

lemma protobuf_encode_manual:
  assumes "megolm_protobuf_law K" "length ct < 2 ^ 64"
  shows "k_protobuf_megolm K (drop (Suc 0) (megolm_encode_manual v i ct)) = Some (i, ct)"
proof -
  have i: "unat (ucast i :: 64 word) = unat i" by (simp add: unsigned_ucast_eq take_bit_nat_eq_self_iff)
      (use unsigned_less [of i, where 'a = nat] in simp)
  have l: "unat (of_nat (length ct) :: 64 word) = length ct"
    using assms(2) by (simp add: unat_of_nat)
  have "drop (Suc 0) (megolm_encode_manual v i ct) =
      byte 0x08 # varint_bytes (unat i) @ byte 0x12 # varint_bytes (length ct) @ ct"
    by (simp add: megolm_encode_manual_def to_var_int_bytes i l)
  moreover have "unat i < 2 ^ 32" using unsigned_less [of i, where 'a = nat] by simp
  ultimately show ?thesis
    using megolm_protobufD [OF assms(1) read_varint_bytes _ read_varint_bytes] by simp
qed

lemma mm_from_bytes_to_bytes:
  assumes "megolm_protobuf_law K" "mm_wf K m"
  shows "mm_from_bytes K (mm_to_bytes m) = Inr m"
proof -
  define e where "e = mm_encode_message m"
  obtain c x where e: "e = c # x" "of_char c = mm_version m" "x \<noteq> []"
    by (simp add: e_def mm_encode_message_def megolm_encode_manual_def)
  have "k_protobuf_megolm K x = Some (mm_message_index m, mm_ciphertext m)"
    using protobuf_encode_manual [OF assms(1), of "mm_ciphertext m" "mm_version m" "mm_message_index m"] assms(2) e(1)
    by (simp add: e_def mm_encode_message_def mm_wf_def)
  moreover have "1 \<le> length x" using e(3) by (cases x) auto
  ultimately show ?thesis
    using assms(2) e
    by (cases "mm_mac m")
      (simp_all add: mm_from_bytes_def mm_to_bytes_def mm_wf_def e_def [symmetric] Let_def extract_mac_def
        ed25519_signature_from_slice_def MESSAGE_SUFFIX_LENGTH_def MESSAGE_TRUNCATED_SUFFIX_LENGTH_def
        MEGOLM_VERSION_def MEGOLM_MAC_TRUNCATED_VERSION_def MAC_LENGTH_def MAC_TRUNCATED_LEN_def drop_Cons')
qed

text \<open>Ratchets and session keys.\<close>

definition ratchet_wf :: "ratchet \<Rightarrow> bool" where
  "ratchet_wf r \<longleftrightarrow> (\<forall>i<4. length (part i r) = 32)"

lemma all_less_4: "(\<forall>i<4. P i) \<longleftrightarrow> P 0 \<and> P 1 \<and> P 2 \<and> P (3 :: nat)"
  by (auto simp: numeral_eq_Suc less_Suc_eq)

lemma ratchet_wf_parts:
  "ratchet_wf r \<longleftrightarrow> length (r_0 r) = 32 \<and> length (r_1 r) = 32 \<and> length (r_2 r) = 32 \<and> length (r_3 r) = 32"
  by (simp add: ratchet_wf_def all_less_4 part_def)

lemma ratchet_from_as_bytes: "ratchet_wf r \<Longrightarrow> ratchet_from_bytes (ratchet_as_bytes r) (counter r) = r"
  by (simp add: ratchet_wf_parts ratchet_from_bytes_def ratchet_as_bytes_def Let_def)

lemma length_as_bytes: "ratchet_wf r \<Longrightarrow> length (ratchet_as_bytes r) = 128"
  by (simp add: ratchet_wf_parts ratchet_as_bytes_def)

lemma ratchet_wf_advance: "hmac_law K \<Longrightarrow> ratchet_wf r \<Longrightarrow> ratchet_wf (ratchet_advance K r)"
  using ratchet_advance_level [of r "unat (counter r)" K]
  by (simp add: ratchet_wf_def part_level slow_less part_hash_def hmac_law_def)

lemma ratchet_wf_steps: "hmac_law K \<Longrightarrow> ratchet_wf r \<Longrightarrow> ratchet_wf ((ratchet_advance K ^^ k) r)"
  by (induction k) (simp_all add: ratchet_wf_advance)

lemma ratchet_wf_advance_to: "hmac_law K \<Longrightarrow> ratchet_wf r \<Longrightarrow> ratchet_wf (ratchet_advance_to K i r)"
  by (simp add: ratchet_advance_to_steps ratchet_wf_steps)

lemma ratchet_ct_eq_iff: "ratchet_wf r \<Longrightarrow> ratchet_wf s \<Longrightarrow> ratchet_ct_eq r s \<longleftrightarrow> r = s"
  by (metis ratchet_ct_eq_def ratchet_from_as_bytes)

lemma decode_key_bytes:
  assumes "length (ek_ratchet key) = 128" "length (ek_signing_key key) = 32" "k_ed25519_key K (ek_signing_key key)"
  shows "decode_key K v (ek_to_bytes_with_version v key @ rest) = Inr (key, rest)"
  using assms by (simp add: decode_key_def ek_to_bytes_with_version_def read_exact_def ed25519_from_slice_def Let_def)

lemma sk_from_bytes_to_bytes:
  assumes "ratchet_wf (gs_ratchet s)" "ed25519_law K (kp_secret (gs_signing_key s))"
    and pub: "kp_public (gs_signing_key s) = k_ed25519_public K (kp_secret (gs_signing_key s))"
  shows "sk_from_bytes K (sk_to_bytes (group_session_key K s)) = Inr (group_session_key K s)"
proof -
  let ?key = "group_session_key K s"
  have key: "sk_session_key ?key = exported_session_key_new (gs_ratchet s) (kp_public (gs_signing_key s))"
    "sk_signature ?key = k_ed25519_sign K (kp_secret (gs_signing_key s)) (sk_to_signature_bytes ?key)"
    by (simp_all add: group_session_key_def session_key_new_def Let_def keypair_sign_def sk_to_signature_bytes_def)
  have "decode_key K SESSION_KEY_VERSION (sk_to_signature_bytes ?key @ rest) = Inr (sk_session_key ?key, rest)" for rest
    unfolding sk_to_signature_bytes_def using assms(1,2) pub
    by (intro decode_key_bytes) (simp_all add: key exported_session_key_new_def length_as_bytes ed25519_law_def)
  then show ?thesis
    using assms(2) key(2) pub
    by (simp add: sk_from_bytes_def sk_to_bytes_def read_exact_def ed25519_law_def ed25519_signature_from_slice_def
        ed25519_verify_def key(1) exported_session_key_new_def)
qed

section \<open>The receiver and its cache\<close>

text \<open>
  The second ratchet of a receiver session is a cache: it is always the first one, brought forward.
  The reference receiver has only the first ratchet and takes every step from there.
\<close>

definition session_inv :: "'a olm_crypto_scheme \<Rightarrow> inbound_group_session \<Rightarrow> bool" where
  "session_inv K s \<longleftrightarrow> counter (initial_ratchet s) \<le> counter (latest_ratchet s)
     \<and> ratchet_advance_to K (counter (latest_ratchet s)) (initial_ratchet s) = latest_ratchet s"

definition reference_ratchet :: "'a olm_crypto_scheme \<Rightarrow> 32 word \<Rightarrow> ratchet \<Rightarrow> ratchet option" where
  "reference_ratchet K i r =
     (if counter r \<le> i then Some ((ratchet_advance K ^^ unat (i - counter r)) r) else None)"

definition read_message :: "'a olm_crypto_scheme \<Rightarrow> session_config \<Rightarrow> ratchet \<Rightarrow> megolm_message
    \<Rightarrow> megolm_decryption_error + decrypted_message" where
  "read_message K config r m =
     (let cipher = cipher_new_megolm K (ratchet_as_bytes r)
      in rbind (inbound_verify_mac K config cipher m) (\<lambda>_.
         rbind (ok_or (cipher_decrypt K cipher (mm_ciphertext m)) MegolmInvalidPadding) (\<lambda>p.
         Inr \<lparr>dm_plaintext = p, dm_message_index = mm_message_index m\<rparr>)))"

definition reference_decrypt :: "'a olm_crypto_scheme \<Rightarrow> megolm_message \<Rightarrow> inbound_group_session
    \<Rightarrow> megolm_decryption_error + decrypted_message" where
  "reference_decrypt K m s =
     rbind (map_err MegolmSignature (ed25519_verify K (ig_signing_key s) (mm_to_signature_bytes m) (mm_signature m))) (\<lambda>_.
     case reference_ratchet K (mm_message_index m) (initial_ratchet s) of
       Some r \<Rightarrow> read_message K (ig_config s) r m
     | None \<Rightarrow> Inl (UnknownMessageIndex (counter (initial_ratchet s)) (mm_message_index m)))"

lemma session_inv_reaches: "session_inv K s \<longleftrightarrow> reaches counter (ratchet_advance_to K) (initial_ratchet s) (latest_ratchet s)"
  by (simp add: session_inv_def reaches_def)

lemma reference_ratchet_eq:
  "reference_ratchet K i r = (if counter r \<le> i then Some (ratchet_advance_to K i r) else None)"
  by (simp add: reference_ratchet_def ratchet_advance_to_steps)

lemma find_ratchet_reference:
  assumes "session_inv K s" "find_ratchet K i s = (r, s')"
  shows "r = reference_ratchet K i (initial_ratchet s) \<and> session_inv K s' \<and> (\<exists>l. s' = s\<lparr>latest_ratchet := l\<rparr>)"
proof -
  have inv: "reaches counter (ratchet_advance_to K) (initial_ratchet s) (latest_ratchet s)"
    using assms(1) by (simp add: session_inv_reaches)
  have le: "counter (initial_ratchet s) \<le> counter (latest_ratchet s)" using assms(1) by (simp add: session_inv_def)
  have same: "\<exists>l. s = s\<lparr>latest_ratchet := l\<rparr>" by (rule exI [of _ "latest_ratchet s"]) simp
  consider (initial) "counter (initial_ratchet s) = i"
    | (latest) "counter (initial_ratchet s) < i" "counter (latest_ratchet s) = i"
    | (forward) "counter (initial_ratchet s) < i" "counter (latest_ratchet s) < i"
    | (restart) "counter (initial_ratchet s) < i" "i < counter (latest_ratchet s)"
    | (unknown) "i < counter (initial_ratchet s)" "i < counter (latest_ratchet s)"
    using le less_le_trans [OF _ le] by (cases rule: linorder_cases [of "counter (initial_ratchet s)" i];
      cases rule: linorder_cases [of "counter (latest_ratchet s)" i]) auto
  then show ?thesis
  proof cases
    case initial
    then have "find_ratchet K i s = (Some (initial_ratchet s), s)" by (simp add: find_ratchet_def)
    moreover have "ratchet_advance_to K i (initial_ratchet s) = initial_ratchet s"
      using megolm.at_index [of K "initial_ratchet s"] initial by simp
    ultimately show ?thesis using assms initial same by (auto simp: reference_ratchet_eq)
  next
    case latest
    then have "find_ratchet K i s = (Some (latest_ratchet s), s)" by (simp add: find_ratchet_def)
    then show ?thesis using assms latest same by (auto simp: reference_ratchet_eq session_inv_def)
  next
    case forward
    then have "find_ratchet K i s = (Some (ratchet_advance_to K i (latest_ratchet s)),
        s\<lparr>latest_ratchet := ratchet_advance_to K i (latest_ratchet s)\<rparr>)"
      by (simp add: find_ratchet_def Let_def less_imp_neq)
    then show ?thesis
      using assms(2) forward megolm.at_reaches [OF inv, of i] megolm.reaches_at [of "initial_ratchet s" i K]
      by (auto simp: reference_ratchet_eq session_inv_reaches)
  next
    case restart
    then have "find_ratchet K i s = (Some (ratchet_advance_to K i (initial_ratchet s)),
        s\<lparr>latest_ratchet := ratchet_advance_to K i (initial_ratchet s)\<rparr>)"
      by (auto simp: find_ratchet_def Let_def)
    then show ?thesis
      using assms(2) restart megolm.reaches_at [of "initial_ratchet s" i K]
      by (auto simp: reference_ratchet_eq session_inv_reaches)
  next
    case unknown
    then have "find_ratchet K i s = (None, s)" by (auto simp: find_ratchet_def)
    then show ?thesis using assms unknown same by (auto simp: reference_ratchet_eq)
  qed
qed

lemma inbound_decrypt_reference:
  assumes "session_inv K s" "inbound_decrypt K m s = (res, s')"
  shows "res = reference_decrypt K m s \<and> session_inv K s' \<and> (\<exists>l. s' = s\<lparr>latest_ratchet := l\<rparr>)"
proof (cases "ed25519_verify K (ig_signing_key s) (mm_to_signature_bytes m) (mm_signature m)")
  case (Inl e)
  then show ?thesis using assms by (auto simp: inbound_decrypt_def reference_decrypt_def intro: exI [of _ "latest_ratchet s"])
next
  case (Inr u)
  obtain r t where f: "find_ratchet K (mm_message_index m) s = (r, t)" by fastforce
  from find_ratchet_reference [OF assms(1) f] obtain l where
    "r = reference_ratchet K (mm_message_index m) (initial_ratchet s)" "session_inv K t" "t = s\<lparr>latest_ratchet := l\<rparr>"
    by blast
  then show ?thesis
    using assms(2) Inr f
    by (cases "reference_ratchet K (mm_message_index m) (initial_ratchet s)")
      (auto simp: inbound_decrypt_def reference_decrypt_def read_message_def)
qed

section \<open>Sending and receiving\<close>

definition group_session_wf :: "'a olm_crypto_scheme \<Rightarrow> group_session \<Rightarrow> bool" where
  "group_session_wf K s \<longleftrightarrow> ratchet_wf (gs_ratchet s) \<and> ed25519_law K (kp_secret (gs_signing_key s))
     \<and> kp_public (gs_signing_key s) = k_ed25519_public K (kp_secret (gs_signing_key s))"

lemma encrypted_message:
  assumes "aes_law K" "hmac_law K" "group_session_wf K s" "length p < 2 ^ 64 - 16"
    and "group_session_encrypt K p s = (m, s')"
  shows "mm_wf K m" "mm_message_index m = counter (gs_ratchet s)"
    and "ed25519_verify K (kp_public (gs_signing_key s)) (mm_to_signature_bytes m) (mm_signature m) = Inr ()"
    and "read_message K (gs_config s) (gs_ratchet s) m =
      Inr \<lparr>dm_plaintext = p, dm_message_index = counter (gs_ratchet s)\<rparr>"
proof -
  define cipher where "cipher = cipher_new_megolm K (ratchet_as_bytes (gs_ratchet s))"
  have sig: "ed25519_law K (kp_secret (gs_signing_key s))"
    "kp_public (gs_signing_key s) = k_ed25519_public K (kp_secret (gs_signing_key s))"
    using assms(3) by (simp_all add: group_session_wf_def)
  have len: "length (cipher_encrypt K cipher p) < 2 ^ 64"
    using assms(1,4) le_less_trans [of "length (cipher_encrypt K cipher p)" "length p + 16" "2 ^ 64"]
    by (simp add: aes_law_def cipher_encrypt_def)
  have mac: "length (cipher_mac K cipher x) = 32" for x using assms(2) by (simp add: hmac_law_def cipher_mac_def)
  note defs = group_session_encrypt_def Let_def mm_encrypt_truncated_mac_def mm_encrypt_full_mac_def mm_encrypt_helper_def
    mm_set_mac_def keypair_sign_def
  show "mm_wf K m" "mm_message_index m = counter (gs_ratchet s)"
    using assms(5) sig len mac
    by (auto simp: defs mm_wf_def ed25519_law_def mac_truncate_def MAC_LENGTH_def MAC_TRUNCATED_LEN_def
        simp flip: cipher_def split: session_version.splits)
  show "ed25519_verify K (kp_public (gs_signing_key s)) (mm_to_signature_bytes m) (mm_signature m) = Inr ()"
    using assms(5) sig
    by (auto simp: defs ed25519_verify_def ed25519_law_def mm_to_signature_bytes_def mm_encode_message_def
        split: session_version.splits)
  show "read_message K (gs_config s) (gs_ratchet s) m =
      Inr \<lparr>dm_plaintext = p, dm_message_index = counter (gs_ratchet s)\<rparr>"
    using assms(5) verify_own_mac [OF assms(2), of cipher] decrypt_encrypt [OF assms(1), of cipher p]
    by (auto simp: defs read_message_def inbound_verify_mac_def mm_to_mac_bytes_def mm_encode_message_def
        simp flip: cipher_def split: session_version.splits)
qed

fun encrypt_all :: "'a olm_crypto_scheme \<Rightarrow> string list \<Rightarrow> group_session \<Rightarrow> megolm_message list \<times> group_session" where
  "encrypt_all K [] s = ([], s)"
| "encrypt_all K (p # ps) s =
     (case group_session_encrypt K p s of (m, s) \<Rightarrow> case encrypt_all K ps s of (ms, s) \<Rightarrow> (m # ms, s))"

fun receive_all :: "'a olm_crypto_scheme \<Rightarrow> string list \<Rightarrow> inbound_group_session
    \<Rightarrow> (decode_error + megolm_decryption_error + decrypted_message) list" where
  "receive_all K [] s = []"
| "receive_all K (b # bs) s =
     (case mm_from_base64 K b of
        Inl e \<Rightarrow> Inl e # receive_all K bs s
      | Inr m \<Rightarrow> case inbound_decrypt K m s of (res, s') \<Rightarrow> Inr res # receive_all K bs s')"

lemma receive_all_reference:
  "session_inv K s \<Longrightarrow> receive_all K bs s = map (\<lambda>b. map_ok (\<lambda>m. reference_decrypt K m s) (mm_from_base64 K b)) bs"
proof (induction bs arbitrary: s)
  case (Cons b bs)
  show ?case
  proof (cases "mm_from_base64 K b")
    case (Inr m)
    obtain res s' where d: "inbound_decrypt K m s = (res, s')" by fastforce
    from inbound_decrypt_reference [OF Cons.prems d] obtain l where
      l: "res = reference_decrypt K m s" "session_inv K s'" "s' = s\<lparr>latest_ratchet := l\<rparr>" by blast
    have "reference_decrypt K m' s' = reference_decrypt K m' s" for m'
      by (simp add: l(3) reference_decrypt_def cong: option.case_cong)
    then show ?thesis using Cons.IH [OF l(2)] Inr d l(1) by simp
  qed (use Cons in simp)
qed simp

definition session_after :: "'a olm_crypto_scheme \<Rightarrow> nat \<Rightarrow> group_session \<Rightarrow> group_session" where
  "session_after K i s = s\<lparr>gs_ratchet := (ratchet_advance K ^^ i) (gs_ratchet s)\<rparr>"

lemma session_after_simps [simp]:
  "gs_signing_key (session_after K i s) = gs_signing_key s" "gs_config (session_after K i s) = gs_config s"
  "gs_ratchet (session_after K i s) = (ratchet_advance K ^^ i) (gs_ratchet s)"
  by (simp_all add: session_after_def)

lemma session_after_Suc: "session_after K (Suc i) s = session_after K i (snd (group_session_encrypt K p s))"
  by (simp add: session_after_def group_session_encrypt_def Let_def funpow_swap1)

lemma session_after_wf: "hmac_law K \<Longrightarrow> group_session_wf K s \<Longrightarrow> group_session_wf K (session_after K i s)"
  by (simp add: group_session_wf_def ratchet_wf_steps)

lemma encrypt_all_nth:
  "snd (encrypt_all K ps s) = session_after K (length ps) s"
  "i < length ps \<Longrightarrow> fst (encrypt_all K ps s) ! i = fst (group_session_encrypt K (ps ! i) (session_after K i s))"
proof (induction ps arbitrary: s i)
  case (Cons p ps)
  {
    case 1
    show ?case using Cons.IH(1) [of "snd (group_session_encrypt K p s)"]
      by (auto simp: session_after_Suc [of _ _ _ p] split: prod.splits)
  next
    case 2
    show ?case
    proof (cases i)
      case 0
      then show ?thesis by (simp add: session_after_def split: prod.splits)
    next
      case (Suc j)
      then show ?thesis using Cons.IH(2) [of j "snd (group_session_encrypt K p s)"] 2
        by (auto simp: session_after_Suc [of _ _ _ p] split: prod.splits)
    qed
  }
qed (simp_all add: session_after_def)

lemma index_arith:
  fixes c :: "32 word"
  assumes "unat c + n < 2 ^ 32" "unat c + i < 2 ^ 32"
  shows "c + of_nat n \<le> c + of_nat i \<longleftrightarrow> n \<le> i" "n \<le> i \<Longrightarrow> unat (c + of_nat i - (c + of_nat n)) = i - n"
proof -
  have u: "unat (c + of_nat k) = unat c + k" if "unat c + k < 2 ^ 32" for k
    using that by (simp add: unat_word_ariths unat_of_nat mod_add_right_eq)
  show "c + of_nat n \<le> c + of_nat i \<longleftrightarrow> n \<le> i" using u [OF assms(1)] u [OF assms(2)] by (simp add: word_le_nat_alt)
  show "unat (c + of_nat i - (c + of_nat n)) = i - n" if "n \<le> i"
    using that by (simp only: unat_sub_if' u [OF assms(1)] u [OF assms(2)]) simp
qed

lemma inbound_new_of_group_session:
  assumes "group_session_wf K s"
  shows "initial_ratchet (inbound_new (group_session_key K s) config) = gs_ratchet s"
    and "ig_signing_key (inbound_new (group_session_key K s) config) = kp_public (gs_signing_key s)"
    and "ig_config (inbound_new (group_session_key K s) config) = config"
    and "session_inv K (inbound_new (group_session_key K s) config)"
  using assms megolm.at_index [of K "gs_ratchet s"]
  by (simp_all add: inbound_new_def group_session_key_def session_key_new_def exported_session_key_new_def Let_def
      group_session_wf_def ratchet_from_as_bytes session_inv_def)

lemma sent_message_read:
  assumes "aes_law K" "hmac_law K" "group_session_wf K s" "length p < 2 ^ 64 - 16"
    and "unat (counter (gs_ratchet s)) + n < 2 ^ 32" "unat (counter (gs_ratchet s)) + i < 2 ^ 32"
    and t: "initial_ratchet t = gs_ratchet (session_after K n s)" "ig_signing_key t = kp_public (gs_signing_key s)"
      "ig_config t = gs_config s"
  shows "reference_decrypt K (fst (group_session_encrypt K p (session_after K i s))) t =
    (if i < n then Inl (UnknownMessageIndex (counter (gs_ratchet s) + of_nat n) (counter (gs_ratchet s) + of_nat i))
     else Inr \<lparr>dm_plaintext = p, dm_message_index = counter (gs_ratchet s) + of_nat i\<rparr>)"
proof -
  let ?s = "session_after K i s" and ?r = "gs_ratchet s"
  obtain m s' where m: "group_session_encrypt K p ?s = (m, s')" by fastforce
  note e = encrypted_message [OF assms(1,2) session_after_wf [OF assms(2,3)] assms(4) m]
  have c: "counter ((ratchet_advance K ^^ k) ?r) = counter ?r + of_nat k" for k
    using counter_advance [of ?r "unat (counter ?r)", where k = k and K = K] by simp
  have "reference_ratchet K (counter ?r + of_nat i) (initial_ratchet t) =
      (if i < n then None else Some ((ratchet_advance K ^^ i) ?r))"
    using index_arith [OF assms(5,6)]
    by (auto simp: reference_ratchet_def t c simp flip: funpow_add [THEN fun_cong, unfolded comp_apply])
  then show ?thesis
    using e m by (simp add: reference_decrypt_def t c)
qed

text \<open>The operations on a receiver session, and those of the reference receiver.\<close>

datatype inbound_op = Decrypt megolm_message | ExportAt "32 word" | AdvanceTo "32 word" | Repickle

datatype inbound_answer =
  Decrypted "megolm_decryption_error + decrypted_message" | Exported "exported_session_key option"
| Advanced bool | Repickled

fun inbound_step :: "'a olm_crypto_scheme \<Rightarrow> inbound_op \<Rightarrow> inbound_group_session
    \<Rightarrow> inbound_answer \<times> inbound_group_session" where
  "inbound_step K (Decrypt m) s = (case inbound_decrypt K m s of (r, s) \<Rightarrow> (Decrypted r, s))"
| "inbound_step K (ExportAt i) s = (case export_at K i s of (r, s) \<Rightarrow> (Exported r, s))"
| "inbound_step K (AdvanceTo i) s = (case inbound_advance_to K i s of (r, s) \<Rightarrow> (Advanced r, s))"
| "inbound_step K Repickle s = (Repickled, inbound_from_pickle (inbound_to_pickle s))"

fun reference_step :: "'a olm_crypto_scheme \<Rightarrow> inbound_op \<Rightarrow> inbound_group_session
    \<Rightarrow> inbound_answer \<times> inbound_group_session" where
  "reference_step K (Decrypt m) s = (Decrypted (reference_decrypt K m s), s)"
| "reference_step K (ExportAt i) s =
     (Exported (map_option (\<lambda>r. exported_session_key_new r (ig_signing_key s))
        (reference_ratchet K i (initial_ratchet s))), s)"
| "reference_step K (AdvanceTo i) s =
     (if counter (initial_ratchet s) < i
      then (Advanced True, s\<lparr>initial_ratchet := the (reference_ratchet K i (initial_ratchet s))\<rparr>)
      else (Advanced False, s))"
| "reference_step K Repickle s = (Repickled, s)"

fun answers :: "('op \<Rightarrow> 's \<Rightarrow> 'b \<times> 's) \<Rightarrow> 'op list \<Rightarrow> 's \<Rightarrow> 'b list" where
  "answers f [] s = []"
| "answers f (x # xs) s = (case f x s of (a, s) \<Rightarrow> a # answers f xs s)"

lemma reference_decrypt_latest [simp]: "reference_decrypt K m (s\<lparr>latest_ratchet := l\<rparr>) = reference_decrypt K m s"
  by (simp add: reference_decrypt_def cong: option.case_cong)

lemma session_inv_same: "initial_ratchet s = latest_ratchet s \<Longrightarrow> session_inv K s"
  using megolm.at_index [of K "latest_ratchet s"] by (simp add: session_inv_def)

lemma inbound_step_reference:
  assumes "session_inv K s" "inbound_step K x s = (a, s')"
  shows "session_inv K s' \<and> (\<exists>l. reference_step K x (s\<lparr>latest_ratchet := l0\<rparr>) = (a, s'\<lparr>latest_ratchet := l\<rparr>))"
proof (cases x)
  case (Decrypt m)
  obtain r t where "inbound_decrypt K m s = (r, t)" by fastforce
  with inbound_decrypt_reference [OF assms(1) this] assms(2) Decrypt show ?thesis by auto
next
  case (ExportAt i)
  obtain r t where "find_ratchet K i s = (r, t)" by fastforce
  with find_ratchet_reference [OF assms(1) this] assms(2) ExportAt show ?thesis by (auto simp: export_at_def)
next
  case (AdvanceTo i)
  have inv: "reaches counter (ratchet_advance_to K) (initial_ratchet s) (latest_ratchet s)"
    using assms(1) by (simp add: session_inv_reaches)
  have "session_inv K s'"
    using assms AdvanceTo megolm.reaches_between [OF megolm.reaches_at inv, of i]
    by (auto simp: inbound_advance_to_def first_known_index_def Let_def session_inv_reaches counter_advance_to
        megolm.reaches_refl split: if_splits)
  moreover have "\<exists>l. reference_step K x (s\<lparr>latest_ratchet := l0\<rparr>) = (a, s'\<lparr>latest_ratchet := l\<rparr>)"
    using assms(2) AdvanceTo
    by (intro exI [of _ l0]) (auto simp: inbound_advance_to_def first_known_index_def Let_def reference_ratchet_eq
        split: if_splits)
  ultimately show ?thesis ..
next
  case Repickle
  then have "s' = s\<lparr>latest_ratchet := initial_ratchet s\<rparr>" "a = Repickled"
    using assms(2) by (auto simp: inbound_from_pickle_def inbound_to_pickle_def)
  then show ?thesis using Repickle session_inv_same [of s'] by auto
qed

lemma answers_reference:
  "session_inv K s \<Longrightarrow> answers (inbound_step K) xs s = answers (reference_step K) xs (s\<lparr>latest_ratchet := l\<rparr>)"
proof (induction xs arbitrary: s l)
  case (Cons x xs)
  obtain a s' where x: "inbound_step K x s = (a, s')" by fastforce
  from inbound_step_reference [OF Cons.prems x, of l] obtain k where
    "session_inv K s'" "reference_step K x (s\<lparr>latest_ratchet := l\<rparr>) = (a, s'\<lparr>latest_ratchet := k\<rparr>)" by blast
  then show ?case using Cons.IH [of s' k] x by simp
qed simp

text \<open>Comparing sessions.\<close>

definition same_session :: "'a olm_crypto_scheme \<Rightarrow> inbound_group_session \<Rightarrow> inbound_group_session \<Rightarrow> bool" where
  "same_session K s t \<longleftrightarrow> ig_config s = ig_config t \<and> ig_signing_key s = ig_signing_key t
     \<and> (reference_ratchet K (first_known_index t) (initial_ratchet s) = Some (initial_ratchet t)
        \<or> reference_ratchet K (first_known_index s) (initial_ratchet t) = Some (initial_ratchet s))"

definition inbound_wf :: "'a olm_crypto_scheme \<Rightarrow> inbound_group_session \<Rightarrow> bool" where
  "inbound_wf K s \<longleftrightarrow> session_inv K s \<and> ratchet_wf (initial_ratchet s)"

lemma reference_ratchet_wf:
  "hmac_law K \<Longrightarrow> ratchet_wf r \<Longrightarrow> reference_ratchet K i r = Some r' \<Longrightarrow> ratchet_wf r' \<and> counter r' = i"
  by (auto simp: reference_ratchet_eq ratchet_wf_advance_to counter_advance_to split: if_splits)

lemma reference_ratchet_same: "reference_ratchet K (counter r) r = Some r"
  using megolm.at_index [of K r] by (simp add: reference_ratchet_eq)

lemma connected_same_session:
  assumes "hmac_law K" "inbound_wf K s" "inbound_wf K t"
  shows "\<exists>l l'. connected K s t = (Inr (same_session K s t), s\<lparr>latest_ratchet := l\<rparr>, t\<lparr>latest_ratchet := l'\<rparr>)"
proof (cases "ig_config s \<noteq> ig_config t \<or> ig_signing_key s \<noteq> ig_signing_key t")
  case True
  then have "connected K s t =
      (Inr (same_session K s t), s\<lparr>latest_ratchet := latest_ratchet s\<rparr>, t\<lparr>latest_ratchet := latest_ratchet t\<rparr>)"
    by (auto simp: connected_def same_session_def)
  then show ?thesis by blast
next
  case False
  obtain r s' where s': "find_ratchet K (first_known_index t) s = (r, s')" by fastforce
  from find_ratchet_reference [OF _ this] assms(2) obtain l where
    s: "r = reference_ratchet K (first_known_index t) (initial_ratchet s)" "s' = s\<lparr>latest_ratchet := l\<rparr>"
    by (auto simp: inbound_wf_def)
  show ?thesis
  proof (cases r)
    case (Some r')
    then have "ratchet_ct_eq r' (initial_ratchet t) \<longleftrightarrow> r' = initial_ratchet t"
      using reference_ratchet_wf [OF assms(1), of "initial_ratchet s"] assms s by (auto simp: inbound_wf_def ratchet_ct_eq_iff)
    moreover have "reference_ratchet K (first_known_index s) (initial_ratchet t) = Some (initial_ratchet s) \<Longrightarrow>
        r' = initial_ratchet t"
      using Some s(1) reference_ratchet_same [of K "initial_ratchet t"]
      by (auto simp: reference_ratchet_eq first_known_index_def split: if_splits)
    ultimately have "connected K s t =
        (Inr (same_session K s t), s\<lparr>latest_ratchet := l\<rparr>, t\<lparr>latest_ratchet := latest_ratchet t\<rparr>)"
      using False Some s s' by (auto simp: connected_def same_session_def)
    then show ?thesis by blast
  next
    case None
    obtain r'' t' where t': "find_ratchet K (first_known_index s') t = (r'', t')" by fastforce
    from find_ratchet_reference [OF _ this] assms(3) obtain l' where
      t: "r'' = reference_ratchet K (first_known_index s) (initial_ratchet t)" "t' = t\<lparr>latest_ratchet := l'\<rparr>"
      by (auto simp: inbound_wf_def s first_known_index_def)
    have "counter (initial_ratchet t) \<le> counter (initial_ratchet s)"
      using None s(1) linear [of "counter (initial_ratchet t)"] by (auto simp: reference_ratchet_eq first_known_index_def split: if_splits)
    then obtain q where q: "reference_ratchet K (first_known_index s) (initial_ratchet t) = Some q"
      by (simp add: reference_ratchet_eq first_known_index_def)
    then have "ratchet_ct_eq (initial_ratchet s) q \<longleftrightarrow> q = initial_ratchet s"
      using reference_ratchet_wf [OF assms(1), of "initial_ratchet t"] assms t by (auto simp: inbound_wf_def ratchet_ct_eq_iff)
    moreover have "find_ratchet K (first_known_index s') t = (Some q, t')" using t' t(1) q by simp
    ultimately show ?thesis
      using False None s s' t(2) q by (auto simp: connected_def same_session_def)
  qed
qed

lemma merge_same_session:
  assumes "hmac_law K" "inbound_wf K s" "inbound_wf K t"
  shows "\<exists>l l'. session_merge K s t =
    (Inr (if same_session K s t
          then let r = (if first_known_index s \<le> first_known_index t then initial_ratchet s else initial_ratchet t)
               in Some \<lparr>initial_ratchet = r, latest_ratchet = r, ig_signing_key = ig_signing_key s,
                   signing_key_verified = signing_key_verified s \<or> signing_key_verified t, ig_config = ig_config s\<rparr>
          else None), s\<lparr>latest_ratchet := l\<rparr>, t\<lparr>latest_ratchet := l'\<rparr>)"
proof -
  obtain l l' where "connected K s t = (Inr (same_session K s t), s\<lparr>latest_ratchet := l\<rparr>, t\<lparr>latest_ratchet := l'\<rparr>)"
    using connected_same_session [OF assms] by blast
  then show ?thesis
    by (cases rule: linorder_cases [of "first_known_index s" "first_known_index t"])
      (auto simp: session_merge_def session_compare_def first_known_index_def Let_def cmp_of_def)
qed

lemma reference_decrypt_older:
  assumes "reference_ratchet K (first_known_index t) (initial_ratchet s) = Some (initial_ratchet t)"
    "ig_config s = ig_config t" "ig_signing_key s = ig_signing_key t" "reference_decrypt K m t = Inr x"
  shows "reference_decrypt K m s = Inr x"
proof -
  from assms(1) have r: "reaches counter (ratchet_advance_to K) (initial_ratchet s) (initial_ratchet t)"
    by (auto simp: reaches_def reference_ratchet_eq first_known_index_def split: if_splits)
  obtain q where "reference_ratchet K (mm_message_index m) (initial_ratchet t) = Some q"
    using assms(4) by (auto simp: reference_decrypt_def rbind_Inr_iff split: option.splits)
  then have "reference_ratchet K (mm_message_index m) (initial_ratchet s) = Some q"
    using r megolm.at_reaches [OF r] by (auto simp: reference_ratchet_eq reaches_def split: if_splits)
  with \<open>reference_ratchet K (mm_message_index m) (initial_ratchet t) = Some q\<close> show ?thesis
    using assms by (simp add: reference_decrypt_def)
qed

lemma same_session_sym: "same_session K s t \<Longrightarrow> same_session K t s"
  by (auto simp: same_session_def)

lemma same_session_order:
  assumes "same_session K s t" "first_known_index s \<le> first_known_index t"
  shows "reference_ratchet K (first_known_index t) (initial_ratchet s) = Some (initial_ratchet t)"
proof -
  have "reference_ratchet K (first_known_index t) (initial_ratchet s) = Some (initial_ratchet t)"
    if "reference_ratchet K (first_known_index s) (initial_ratchet t) = Some (initial_ratchet s)"
  proof -
    from that have "first_known_index t \<le> first_known_index s"
      by (auto simp: reference_ratchet_eq first_known_index_def split: if_splits)
    with assms(2) have eq: "first_known_index t = first_known_index s" by simp
    with that have "initial_ratchet s = initial_ratchet t"
      unfolding first_known_index_def by (metis option.inject reference_ratchet_same)
    then show ?thesis by (simp only: first_known_index_def reference_ratchet_same)
  qed
  then show ?thesis using assms(1) by (auto simp: same_session_def)
qed

section \<open>The guarantees\<close>

text \<open>
  (C18) The fast way is the slow way. \<open>Ratchet::advance_to\<close> rehashes each of the four parts at most 256
  times, and yet reaches the ratchet that \<open>advance\<close>, called once for every index in between, reaches;
  counters that wrap around included.
\<close>

theorem ratchet_advance_to_correct:
  "ratchet_advance_to K n r = (ratchet_advance K ^^ unat (n - counter r)) r
   \<and> counter (ratchet_advance_to K n r) = n"
  by (simp only: ratchet_advance_to_steps [symmetric] counter_advance_to)


text \<open>
  (C19) The cache is transparent. Any sequence of decryptions, exports, advances and pickling round
  trips on a receiver session, made from a session key or an exported one, gives the answers of the
  reference receiver, which keeps only its first ratchet and reaches every other by single steps.
\<close>

theorem inbound_cache_transparent:
  "answers (inbound_step K) xs (inbound_new key config) = answers (reference_step K) xs (inbound_new key config)
   \<and> answers (inbound_step K) xs (inbound_import ek config) = answers (reference_step K) xs (inbound_import ek config)"
proof -
  have *: "answers (inbound_step K) xs s = answers (reference_step K) xs s" if "initial_ratchet s = latest_ratchet s" for s
    using answers_reference [OF session_inv_same [OF that], of K xs "latest_ratchet s"] by simp
  show ?thesis by (intro conjI *) (simp_all add: inbound_new_def inbound_import_def Let_def)
qed

text \<open>
  (C20) Merging. Comparing two sessions never reaches the unreachable branch; two sessions merge exactly
  when they have the same configuration and key and one ratchet is the other brought forward; and the
  merged session decrypts every message that one of the two decrypts, to the same text, and is
  verified when one of the two is.
\<close>

theorem session_merge_best:
  assumes "hmac_law K" "inbound_wf K s" "inbound_wf K t"
  shows "\<exists>r s' t'. session_merge K s t = (Inr r, s', t') \<and> (r \<noteq> None \<longleftrightarrow> same_session K s t)
    \<and> (\<forall>u. r = Some u \<longrightarrow> inbound_wf K u
        \<and> (signing_key_verified u \<longleftrightarrow> signing_key_verified s \<or> signing_key_verified t)
        \<and> (\<forall>m x. fst (inbound_decrypt K m s) = Inr x \<or> fst (inbound_decrypt K m t) = Inr x
             \<longrightarrow> fst (inbound_decrypt K m u) = Inr x))"
proof -
  have d: "fst (inbound_decrypt K m v) = reference_decrypt K m v" if "inbound_wf K v" for m v
    using inbound_decrypt_reference [of K v m "fst (inbound_decrypt K m v)" "snd (inbound_decrypt K m v)"] that
    by (simp add: inbound_wf_def)
  define r where "r = (if first_known_index s \<le> first_known_index t then initial_ratchet s else initial_ratchet t)"
  define u where "u = \<lparr>initial_ratchet = r, latest_ratchet = r, ig_signing_key = ig_signing_key s,
    signing_key_verified = signing_key_verified s \<or> signing_key_verified t, ig_config = ig_config s\<rparr>"
  have wf: "inbound_wf K u" using assms(2,3) by (simp add: inbound_wf_def session_inv_same u_def r_def)
  have reads: "fst (inbound_decrypt K m u) = Inr x"
    if same: "same_session K s t" and m: "fst (inbound_decrypt K m s) = Inr x \<or> fst (inbound_decrypt K m t) = Inr x" for m x
  proof -
    have "reference_ratchet K (first_known_index s) (initial_ratchet u) = Some (initial_ratchet s)
        \<and> reference_ratchet K (first_known_index t) (initial_ratchet u) = Some (initial_ratchet t)"
      using same_session_order [OF same] same_session_order [OF same_session_sym [OF same]]
        linear [of "first_known_index s" "first_known_index t"]
        reference_ratchet_same [of K "initial_ratchet s"] reference_ratchet_same [of K "initial_ratchet t"]
      by (cases "first_known_index s \<le> first_known_index t") (simp_all add: u_def r_def first_known_index_def)
    moreover have "ig_config u = ig_config s \<and> ig_signing_key u = ig_signing_key s
        \<and> ig_config u = ig_config t \<and> ig_signing_key u = ig_signing_key t"
      using same by (simp add: same_session_def u_def)
    ultimately have "reference_decrypt K m u = Inr x"
      using m reference_decrypt_older [of K s u m x] reference_decrypt_older [of K t u m x]
      unfolding d [OF assms(2)] d [OF assms(3)] by metis
    then show ?thesis by (simp only: d [OF wf])
  qed
  have verified: "signing_key_verified u \<longleftrightarrow> signing_key_verified s \<or> signing_key_verified t" by (simp add: u_def)
  obtain l l' where "session_merge K s t =
      (Inr (if same_session K s t then Some u else None), s\<lparr>latest_ratchet := l\<rparr>, t\<lparr>latest_ratchet := l'\<rparr>)"
    using merge_same_session [OF assms] unfolding Let_def r_def [symmetric] u_def [symmetric] by blast
  then show ?thesis
    using wf reads verified by (intro exI) (rule conjI, assumption, auto split: if_splits)
qed

text \<open>A session of the toy instance.\<close>

definition example_session :: group_session where
  "example_session = group_session_new example_olm (replicate 128 (CHR ''r'')) ''secret'' \<lparr>config_version = SessionV1\<rparr>"

definition example_inbound :: "32 word \<Rightarrow> inbound_group_session" where
  "example_inbound n = snd (inbound_advance_to example_olm n (inbound_of_group_session example_olm example_session))"

lemma example_session_wf: "group_session_wf example_olm example_session"
proof -
  have "ratchet_wf (gs_ratchet example_session)"
    by (simp add: example_session_def group_session_new_def ratchet_from_bytes_def Let_def ratchet_wf_parts)
  then show ?thesis
    by (simp add: group_session_wf_def example_olm_laws) (simp add: example_session_def group_session_new_def keypair_from_secret_def)
qed

lemma example_protobuf: "megolm_protobuf_law example_olm"
  by (auto simp: megolm_protobuf_law_def example_olm_def read_tag_def read_bytes_def)


lemma example_inbound_wf: "inbound_wf example_olm (example_inbound n)"
proof -
  let ?s = "inbound_of_group_session example_olm example_session"
  note new = inbound_new_of_group_session [OF example_session_wf, of "gs_config example_session", folded inbound_of_group_session_def]
  have "ratchet_wf (initial_ratchet (example_inbound n))"
    using example_session_wf new(1) ratchet_wf_advance_to [OF example_olm_laws(2)]
    by (auto simp: example_inbound_def inbound_advance_to_def Let_def group_session_wf_def)
  moreover have "session_inv example_olm (example_inbound n)"
    using inbound_step_reference [OF new(4), of "AdvanceTo n" "Advanced (fst (inbound_advance_to example_olm n ?s))"
        "snd (inbound_advance_to example_olm n ?s)"]
    by (simp add: example_inbound_def case_prod_beta)
  ultimately show ?thesis by (simp add: inbound_wf_def)
qed

theorem session_merge_best_witness:
  "\<exists>r s' t'. session_merge example_olm (example_inbound 7) (example_inbound 3) = (Inr r, s', t')
     \<and> (r \<noteq> None \<longleftrightarrow> same_session example_olm (example_inbound 7) (example_inbound 3))"
  using session_merge_best [OF example_olm_laws(2) example_inbound_wf example_inbound_wf, of 7 3] by blast

end
