(* ===== verification/Bounded_Store.thy ===== *)
theory Bounded_Store
  imports Prelude
begin

text \<open>
  Stores that keep a bounded number of values and drop the oldest one to make room: the skipped message
  keys and the receiving chains of an Olm session, and its one-time keys.
\<close>

text \<open>
  An \<open>ArrayVec\<close> of capacity \<open>n\<close> into which a value is pushed after the oldest one is removed when it is
  full: the pattern of both stores of a session.
\<close>

definition push_evicting :: "nat \<Rightarrow> 'b \<Rightarrow> 'b list \<Rightarrow> 'b list" where
  "push_evicting n x xs = (if length xs = n then drop 1 xs else xs) @ [x]"

definition last_n :: "nat \<Rightarrow> 'b list \<Rightarrow> 'b list" where
  "last_n n xs = drop (length xs - n) xs"

definition evicted :: "nat \<Rightarrow> 'b list \<Rightarrow> 'b list" where
  "evicted n xs = take (length xs - n) xs"

lemma length_last_n [simp]: "length (last_n n xs) = min n (length xs)"
  by (simp add: last_n_def)

lemma last_n_all [simp]: "length xs \<le> n \<Longrightarrow> last_n n xs = xs"
  by (simp add: last_n_def)

lemma map_last_n: "map f (last_n n xs) = last_n n (map f xs)"
  by (simp add: last_n_def drop_map)

lemma set_last_n: "set (last_n n xs) \<subseteq> set xs"
  by (simp add: last_n_def set_drop_subset)

lemma sorted_last_n: "sorted_wrt P xs \<Longrightarrow> sorted_wrt P (last_n n xs)"
  by (simp add: last_n_def sorted_wrt_drop)

lemma push_evicting: "length xs \<le> n \<Longrightarrow> 0 < n \<Longrightarrow> push_evicting n x xs = last_n n (xs @ [x])"
  by (cases "length xs = n") (auto simp: push_evicting_def last_n_def)

lemma last_n_push: "0 < n \<Longrightarrow> push_evicting n x (last_n n xs) = last_n n (xs @ [x])"
  by (cases "length xs < n") (auto simp: push_evicting_def last_n_def Suc_diff_le)

lemma last_n_append: "last_n n (last_n n xs @ ys) = last_n n (xs @ ys)"
  by (cases "length xs \<le> n") (auto simp: last_n_def add.commute)

lemma evicted_append: "evicted n (xs @ ys) = evicted n xs @ evicted n (last_n n xs @ ys)"
  by (cases "length xs \<le> n") (auto simp: evicted_def last_n_def take_add [symmetric])

section \<open>The interface of a store\<close>

text \<open>Pushing keeps the last values, as many as the store holds.\<close>

locale bounded_store =
  fixes push :: "'x \<Rightarrow> 'x list \<Rightarrow> 'x list" and limit :: nat
  assumes push: "length xs \<le> limit \<Longrightarrow> push x xs = last_n limit (xs @ [x])"
begin

lemma fold_push: "length xs \<le> limit \<Longrightarrow> fold push ys xs = last_n limit (xs @ ys)"
proof (induction ys rule: rev_induct)
  case (snoc y ys)
  then show ?case using last_n_append [of limit "xs @ ys" "[y]"] by (simp add: push)
qed simp

lemma fold_push_bounded: "length xs \<le> limit \<Longrightarrow> length (fold push ys xs) \<le> limit"
  by (simp add: fold_push)

lemma set_push: "length xs \<le> limit \<Longrightarrow> set (push x xs) \<subseteq> insert x (set xs)"
  using set_last_n [of limit "xs @ [x]"] by (simp add: push)

lemma length_push: "length xs \<le> limit \<Longrightarrow> length (push x xs) \<le> limit"
  by (simp add: push)

end

section \<open>Sorted stores\<close>

lemma sorted_gap:
  fixes zs :: "nat list"
  assumes "sorted_wrt (<) zs" "\<forall>z\<in>set zs. a < z \<and> z < b"
  shows "length zs < b - a \<or> zs = []"
proof (cases zs)
  case Cons
  have "length zs = card (set zs)" using assms(1) by (metis distinct_card strict_sorted_iff)
  also have "\<dots> \<le> card {a<..<b}" using assms(2) by (intro card_mono) auto
  finally show ?thesis using Cons assms(2) by fastforce
qed simp

lemma sorted_in_last_n:
  fixes xs :: "nat list"
  assumes "sorted_wrt (<) xs" "x \<in> set xs" "\<forall>y\<in>set xs. y < b" "b \<le> x + n"
  shows "x \<in> set (last_n n xs)"
proof -
  obtain ys zs where xs: "xs = ys @ x # zs" using assms(2) by (meson split_list)
  have "length zs < b - x \<or> zs = []"
    using assms(1,3) unfolding xs by (intro sorted_gap) (auto simp: sorted_wrt_append)
  moreover have "0 < n" using assms(2,3,4) by force
  ultimately have "length xs - n \<le> length ys" using assms(4) unfolding xs by auto
  then show ?thesis unfolding last_n_def xs by (simp add: drop_append)
qed

end
