(* ===== verification/Olm_Ratchet.thy ===== *)
theory Olm_Ratchet
  imports Olm_Crypto Bounded_Store
begin

text \<open>
  The ratchets of an Olm session, \<open>common-olm/src/olm/session/\<close>: messages (\<open>../messages/message.rs\<close>),
  the keys of single messages (\<open>message_key.rs\<close>), symmetric chains (\<open>chain_key.rs\<close>), root keys
  (\<open>root_key.rs\<close>, \<open>ratchet.rs\<close>), the receiving chain with its store of skipped keys
  (\<open>receiver_chain.rs\<close>) and the sending side (\<open>double_ratchet.rs\<close>).

  A method that takes \<open>&mut self\<close> returns the new value with its result. Where the code draws a random
  key the definition takes it as the argument \<open>fresh\<close>, which it uses only where the code draws one.
  Indices are 64-bit words and wrap around, as release builds do. \<open>ChainKey\<close> and \<open>RemoteChainKey\<close> have
  the same fields and are one record, so are the two kinds of root key.
\<close>

section \<open>Messages\<close>

datatype olm_version = OlmV1 | OlmV2

record olm_config =
  olm_version :: olm_version

definition OLM_MAC_TRUNCATED_VERSION :: "8 word" where
  "OLM_MAC_TRUNCATED_VERSION = 3"

definition OLM_VERSION :: "8 word" where
  "OLM_VERSION = 4"

record normal_message =
  om_version :: "8 word"
  om_ratchet_key :: string
  om_chain_index :: "64 word"
  om_ciphertext :: string
  om_mac :: message_mac

definition olm_encode_manual :: "8 word \<Rightarrow> string \<Rightarrow> 64 word \<Rightarrow> string \<Rightarrow> string" where
  "olm_encode_manual version ratchet_key chain_index ciphertext =
     [byte version] @ [byte 0x0A] @ to_var_int (of_nat (length ratchet_key)) @ ratchet_key
     @ [byte 0x10] @ to_var_int chain_index
     @ [byte 0x22] @ to_var_int (of_nat (length ciphertext)) @ ciphertext"

definition om_encode :: "normal_message \<Rightarrow> string" where
  "om_encode m = olm_encode_manual (om_version m) (om_ratchet_key m) (om_chain_index m) (om_ciphertext m)"

definition om_to_mac_bytes :: "normal_message \<Rightarrow> string" where
  "om_to_mac_bytes m = om_encode m"

definition om_to_bytes :: "normal_message \<Rightarrow> string" where
  "om_to_bytes m = om_encode m @ mac_as_bytes (om_mac m)"

definition om_new :: "string \<Rightarrow> 64 word \<Rightarrow> string \<Rightarrow> normal_message" where
  "om_new ratchet_key chain_index ciphertext =
     \<lparr>om_version = OLM_VERSION, om_ratchet_key = ratchet_key, om_chain_index = chain_index,
      om_ciphertext = ciphertext, om_mac = Full (replicate MAC_LENGTH (byte 0))\<rparr>"

definition om_new_truncated_mac :: "string \<Rightarrow> 64 word \<Rightarrow> string \<Rightarrow> normal_message" where
  "om_new_truncated_mac ratchet_key chain_index ciphertext =
     \<lparr>om_version = OLM_MAC_TRUNCATED_VERSION, om_ratchet_key = ratchet_key, om_chain_index = chain_index,
      om_ciphertext = ciphertext, om_mac = Truncated (replicate MAC_TRUNCATED_LEN (byte 0))\<rparr>"

definition om_set_mac :: "string \<Rightarrow> normal_message \<Rightarrow> normal_message" where
  "om_set_mac mac m =
     (case om_mac m of
        Truncated _ \<Rightarrow> m\<lparr>om_mac := Truncated (mac_truncate mac)\<rparr>
      | Full _ \<Rightarrow> m\<lparr>om_mac := Full mac\<rparr>)"

definition om_from_bytes :: "'a olm_crypto_scheme \<Rightarrow> string \<Rightarrow> decode_error + normal_message" where
  "om_from_bytes K bytes =
     (case bytes of
        [] \<Rightarrow> Inl MissingVersion
      | c # _ \<Rightarrow>
        let version = of_char c
        in rbind (if version = OLM_VERSION then Inr MAC_LENGTH
                  else if version = OLM_MAC_TRUNCATED_VERSION then Inr MAC_TRUNCATED_LEN
                  else Inl (InvalidVersion OLM_VERSION version)) (\<lambda>mac_length.
           if length bytes < mac_length + 2 then Inl (MessageTooShort (length bytes))
           else
             rbind (ok_or (k_protobuf_olm K (drop 1 (take (length bytes - mac_length) bytes)))
                 ProtoBufError) (\<lambda>(ratchet_key, chain_index, ciphertext).
             let mac_slice = drop (length bytes - mac_length) bytes
             in if length mac_slice \<noteq> mac_length then Inl (InvalidMacLength mac_length (length mac_slice))
                else
                  let mac = extract_mac mac_slice (version = OLM_MAC_TRUNCATED_VERSION)
                  in rbind (map_err InvalidKey (curve25519_from_slice ratchet_key)) (\<lambda>ratchet_key.
                     Inr \<lparr>om_version = version, om_ratchet_key = ratchet_key, om_chain_index = chain_index,
                          om_ciphertext = ciphertext, om_mac = mac\<rparr>))))"

section \<open>Keys of messages\<close>

datatype olm_decryption_error =
  OlmInvalidMAC | OlmInvalidMACLength nat nat | OlmInvalidPadding | OlmNonContributoryKey
| MissingMessageKey "64 word" | TooBigMessageGap "64 word" "64 word"

datatype encryption_error = EncryptionNonContributoryKey

record message_key =
  mk_key :: string
  mk_ratchet_key :: string
  mk_index :: "64 word"

record remote_message_key =
  rk_key :: string
  rk_index :: "64 word"

definition mk_encrypt :: "'a olm_crypto_scheme \<Rightarrow> message_key \<Rightarrow> string \<Rightarrow> normal_message" where
  "mk_encrypt K k plaintext =
     (let cipher = cipher_new K (mk_key k);
          ciphertext = cipher_encrypt K cipher plaintext;
          message = om_new (mk_ratchet_key k) (mk_index k) ciphertext;
          mac = cipher_mac K cipher (om_to_mac_bytes message)
      in om_set_mac mac message)"

definition mk_encrypt_truncated_mac :: "'a olm_crypto_scheme \<Rightarrow> message_key \<Rightarrow> string \<Rightarrow> normal_message" where
  "mk_encrypt_truncated_mac K k plaintext =
     (let cipher = cipher_new K (mk_key k);
          ciphertext = cipher_encrypt K cipher plaintext;
          message = om_new_truncated_mac (mk_ratchet_key k) (mk_index k) ciphertext;
          mac = cipher_mac K cipher (om_to_mac_bytes message)
      in om_set_mac mac message)"

definition rk_decrypt_truncated_mac ::
  "'a olm_crypto_scheme \<Rightarrow> remote_message_key \<Rightarrow> normal_message \<Rightarrow> olm_decryption_error + string" where
  "rk_decrypt_truncated_mac K k message =
     (let cipher = cipher_new K (rk_key k)
      in case om_mac message of
           Truncated m \<Rightarrow>
             if verify_truncated_mac K cipher (om_to_mac_bytes message) m
             then ok_or (cipher_decrypt K cipher (om_ciphertext message)) OlmInvalidPadding
             else Inl OlmInvalidMAC
         | Full _ \<Rightarrow> Inl (OlmInvalidMACLength MAC_TRUNCATED_LEN MAC_LENGTH))"

definition rk_decrypt ::
  "'a olm_crypto_scheme \<Rightarrow> remote_message_key \<Rightarrow> normal_message \<Rightarrow> olm_decryption_error + string" where
  "rk_decrypt K k message =
     (let cipher = cipher_new K (rk_key k)
      in case om_mac message of
           Full m \<Rightarrow>
             if verify_full_mac K cipher (om_to_mac_bytes message) m
             then ok_or (cipher_decrypt K cipher (om_ciphertext message)) OlmInvalidPadding
             else Inl OlmInvalidMAC
         | Truncated _ \<Rightarrow> Inl (OlmInvalidMACLength MAC_LENGTH MAC_TRUNCATED_LEN))"

section \<open>Symmetric chains\<close>

record chain_key =
  ck_key :: string
  ck_index :: "64 word"

type_synonym remote_chain_key = chain_key

definition expand_chain_key :: "'a olm_crypto_scheme \<Rightarrow> string \<Rightarrow> string" where
  "expand_chain_key K key = k_hmac K key [byte 1]"

definition advance_chain :: "'a olm_crypto_scheme \<Rightarrow> string \<Rightarrow> string" where
  "advance_chain K key = k_hmac K key [byte 2]"

definition chain_key_new :: "string \<Rightarrow> chain_key" where
  "chain_key_new bytes = \<lparr>ck_key = bytes, ck_index = 0\<rparr>"

definition chain_key_advance :: "'a olm_crypto_scheme \<Rightarrow> chain_key \<Rightarrow> chain_key" where
  "chain_key_advance K c = \<lparr>ck_key = advance_chain K (ck_key c), ck_index = ck_index c + 1\<rparr>"

definition create_message_key :: "'a olm_crypto_scheme \<Rightarrow> string \<Rightarrow> chain_key \<Rightarrow> message_key \<times> chain_key" where
  "create_message_key K ratchet_key c =
     (\<lparr>mk_key = expand_chain_key K (ck_key c), mk_ratchet_key = ratchet_key, mk_index = ck_index c\<rparr>,
      chain_key_advance K c)"

definition create_remote_message_key ::
  "'a olm_crypto_scheme \<Rightarrow> remote_chain_key \<Rightarrow> remote_message_key \<times> remote_chain_key" where
  "create_remote_message_key K c =
     (\<lparr>rk_key = expand_chain_key K (ck_key c), rk_index = ck_index c\<rparr>, chain_key_advance K c)"

section \<open>The first shared secret\<close>

definition shared_secret_expand :: "'a olm_crypto_scheme \<Rightarrow> string \<Rightarrow> string \<times> string" where
  "shared_secret_expand K shared_secret =
     (let expanded_keys = k_hkdf K [byte 0] shared_secret ''OLM_ROOT'' 64
      in (take 32 expanded_keys, drop 32 expanded_keys))"

definition remote_3dh_new :: "'a olm_crypto_scheme \<Rightarrow> string \<Rightarrow> string \<Rightarrow> string \<Rightarrow> string \<Rightarrow> string option" where
  "remote_3dh_new K identity_key one_time_key remote_identity_key remote_one_time_key =
     Option.bind (diffie_hellman K one_time_key remote_identity_key) (\<lambda>first_secret.
     Option.bind (diffie_hellman K identity_key remote_one_time_key) (\<lambda>second_secret.
     Option.bind (diffie_hellman K one_time_key remote_one_time_key) (\<lambda>third_secret.
     Some (first_secret @ second_secret @ third_secret))))"

definition shared_3dh_new :: "'a olm_crypto_scheme \<Rightarrow> string \<Rightarrow> string \<Rightarrow> string \<Rightarrow> string \<Rightarrow> string option" where
  "shared_3dh_new K identity_key one_time_key remote_identity_key remote_one_time_key =
     Option.bind (diffie_hellman K identity_key remote_one_time_key) (\<lambda>first_secret.
     Option.bind (diffie_hellman K one_time_key remote_identity_key) (\<lambda>second_secret.
     Option.bind (diffie_hellman K one_time_key remote_one_time_key) (\<lambda>third_secret.
     Some (first_secret @ second_secret @ third_secret))))"

section \<open>Root keys\<close>

definition root_kdf :: "'a olm_crypto_scheme \<Rightarrow> string \<Rightarrow> string \<Rightarrow> string \<Rightarrow> string option" where
  "root_kdf K root_key ratchet_key remote_ratchet_key =
     map_option (\<lambda>shared_secret. k_hkdf K root_key shared_secret ''OLM_RATCHET'' 64)
       (diffie_hellman K ratchet_key remote_ratchet_key)"

definition remote_root_key_advance ::
  "'a olm_crypto_scheme \<Rightarrow> string \<Rightarrow> string \<Rightarrow> string \<Rightarrow> (string \<times> chain_key \<times> string) option" where
  "remote_root_key_advance K fresh root_key remote_ratchet_key =
     map_option (\<lambda>output. (take 32 output, chain_key_new (drop 32 output), fresh))
       (root_kdf K root_key fresh remote_ratchet_key)"

definition root_key_advance ::
  "'a olm_crypto_scheme \<Rightarrow> string \<Rightarrow> string \<Rightarrow> string \<Rightarrow> (string \<times> remote_chain_key) option" where
  "root_key_advance K root_key old_ratchet_key remote_ratchet_key =
     map_option (\<lambda>output. (take 32 output, chain_key_new (drop 32 output)))
       (root_kdf K root_key old_ratchet_key remote_ratchet_key)"

record olm_ratchet =
  or_root_key :: string
  or_ratchet_key :: string

definition olm_ratchet_advance ::
  "'a olm_crypto_scheme \<Rightarrow> string \<Rightarrow> olm_ratchet \<Rightarrow> (string \<times> remote_chain_key) option" where
  "olm_ratchet_advance K remote_key r = root_key_advance K (or_root_key r) (or_ratchet_key r) remote_key"

section \<open>The receiving chain\<close>

datatype ratchet_count = Known "64 word" | Unknown

definition ratchet_count_new :: ratchet_count where
  "ratchet_count_new = Known 0"

fun ratchet_count_advance :: "ratchet_count \<Rightarrow> ratchet_count" where
  "ratchet_count_advance (Known n) = Known (n + 1)"
| "ratchet_count_advance Unknown = Unknown"

definition MAX_MESSAGE_GAP :: "64 word" where
  "MAX_MESSAGE_GAP = 2000"

definition MAX_MESSAGE_KEYS :: nat where
  "MAX_MESSAGE_KEYS = 40"

type_synonym message_key_store = "remote_message_key list"

definition key_store_push :: "remote_message_key \<Rightarrow> message_key_store \<Rightarrow> message_key_store" where
  "key_store_push message_key store = push_evicting MAX_MESSAGE_KEYS message_key store"

definition key_store_merge :: "message_key_store \<Rightarrow> message_key_store \<Rightarrow> message_key_store" where
  "key_store_merge other store = fold key_store_push other store"

interpretation key_store: bounded_store key_store_push MAX_MESSAGE_KEYS
  by unfold_locales (simp_all add: key_store_push_def MAX_MESSAGE_KEYS_def push_evicting)

definition get_message_key :: "64 word \<Rightarrow> message_key_store \<Rightarrow> remote_message_key option" where
  "get_message_key chain_index store = find (\<lambda>k. rk_index k = chain_index) store"

definition remove_message_key :: "64 word \<Rightarrow> message_key_store \<Rightarrow> message_key_store" where
  "remove_message_key chain_index store = filter (\<lambda>k. rk_index k \<noteq> chain_index) store"

datatype found_message_key =
  Existing remote_message_key
| New remote_chain_key message_key_store remote_message_key

definition found_decrypt :: "'a olm_crypto_scheme \<Rightarrow> found_message_key \<Rightarrow> normal_message \<Rightarrow> olm_config
    \<Rightarrow> olm_decryption_error + string" where
  "found_decrypt K found message config =
     (let message_key = (case found of Existing m \<Rightarrow> m | New _ _ m \<Rightarrow> m)
      in case olm_version config of
           OlmV1 \<Rightarrow> rk_decrypt_truncated_mac K message_key message
         | OlmV2 \<Rightarrow> rk_decrypt K message_key message)"

record receiver_chain =
  rc_ratchet_key :: string
  rc_hkdf_ratchet :: remote_chain_key
  rc_skipped :: message_key_store
  rc_ratchet_count :: ratchet_count

definition receiver_chain_new :: "string \<Rightarrow> remote_chain_key \<Rightarrow> ratchet_count \<Rightarrow> receiver_chain" where
  "receiver_chain_new ratchet_key chain_key ratchet_count =
     \<lparr>rc_ratchet_key = ratchet_key, rc_hkdf_ratchet = chain_key, rc_skipped = [],
      rc_ratchet_count = ratchet_count\<rparr>"

definition saturating_sub :: "64 word \<Rightarrow> 64 word \<Rightarrow> 64 word" where
  "saturating_sub a b = (if b \<le> a then a - b else 0)"

text \<open>The loop of \<open>find_message_key\<close> that brings the chain forward to the wanted index.\<close>

function skip_keys :: "'a olm_crypto_scheme \<Rightarrow> 64 word \<Rightarrow> remote_chain_key \<Rightarrow> message_key_store
    \<Rightarrow> remote_chain_key \<times> message_key_store" where
  "skip_keys K chain_index r skipped =
     (if \<not> ck_index r < chain_index then (r, skipped)
      else if of_nat MAX_MESSAGE_KEYS < chain_index - ck_index r
      then skip_keys K chain_index (chain_key_advance K r) skipped
      else
        let (key, r') = create_remote_message_key K r
        in skip_keys K chain_index r' (key_store_push key skipped))"
  by pat_completeness auto

lemma unat_add_1_less: "i < n \<Longrightarrow> unat (i + 1) = Suc (unat i)" for i n :: "64 word"
proof -
  assume "i < n"
  then have "Suc (unat i) < 2 ^ 64"
    using unsigned_less [of n, where 'a = nat] by (simp add: word_less_nat_alt)
  then show ?thesis by (simp add: unat_word_ariths)
qed

lemma skip_keys_decreases: "i < n \<Longrightarrow> unat (n - (i + 1)) < unat (n - i)" for i n :: "64 word"
  using unat_add_1_less [of i n] by (auto simp: word_less_nat_alt unat_sub_if')

termination skip_keys
  by (relation "measure (\<lambda>(K, chain_index, r, _). unat (chain_index - ck_index r))")
    (auto simp: chain_key_advance_def create_remote_message_key_def skip_keys_decreases)

declare skip_keys.simps [simp del]

definition find_message_key ::
  "'a olm_crypto_scheme \<Rightarrow> 64 word \<Rightarrow> receiver_chain \<Rightarrow> olm_decryption_error + found_message_key" where
  "find_message_key K chain_index c =
     (let message_gap = saturating_sub chain_index (ck_index (rc_hkdf_ratchet c))
      in if MAX_MESSAGE_GAP < message_gap then Inl (TooBigMessageGap message_gap MAX_MESSAGE_GAP)
         else if chain_index < ck_index (rc_hkdf_ratchet c)
         then ok_or (map_option Existing (get_message_key chain_index (rc_skipped c)))
                (MissingMessageKey chain_index)
         else
           let (r, skipped_keys) = skip_keys K chain_index (rc_hkdf_ratchet c) [];
               (message_key, r) = create_remote_message_key K r
           in Inr (New r skipped_keys message_key))"

definition receiver_chain_decrypt :: "'a olm_crypto_scheme \<Rightarrow> normal_message \<Rightarrow> olm_config \<Rightarrow> receiver_chain
    \<Rightarrow> (olm_decryption_error + string) \<times> receiver_chain" where
  "receiver_chain_decrypt K message config c =
     (case rbind (find_message_key K (om_chain_index message) c) (\<lambda>message_key.
           map_ok (\<lambda>plaintext. (plaintext, message_key)) (found_decrypt K message_key message config)) of
        Inl e \<Rightarrow> (Inl e, c)
      | Inr (plaintext, Existing m) \<Rightarrow>
          (Inr plaintext, c\<lparr>rc_skipped := remove_message_key (rk_index m) (rc_skipped c)\<rparr>)
      | Inr (plaintext, New r skipped_keys _) \<Rightarrow>
          (Inr plaintext,
           c\<lparr>rc_hkdf_ratchet := r, rc_skipped := key_store_merge skipped_keys (rc_skipped c)\<rparr>))"

definition belongs_to :: "receiver_chain \<Rightarrow> string \<Rightarrow> bool" where
  "belongs_to c ratchet_key \<longleftrightarrow> rc_ratchet_key c = ratchet_key"

section \<open>The sending side\<close>

record inactive_double_ratchet =
  ir_root_key :: string
  ir_ratchet_key :: string
  ir_ratchet_count :: ratchet_count

record active_double_ratchet =
  ar_parent_ratchet_key :: "string option"
  ar_ratchet_count :: ratchet_count
  ar_active_ratchet :: olm_ratchet
  ar_symmetric_key_ratchet :: chain_key

datatype double_ratchet = Inactive inactive_double_ratchet | Active active_double_ratchet

definition activate :: "'a olm_crypto_scheme \<Rightarrow> string \<Rightarrow> inactive_double_ratchet \<Rightarrow> active_double_ratchet option" where
  "activate K fresh r =
     map_option (\<lambda>(root_key, chain_key, ratchet_key).
         \<lparr>ar_parent_ratchet_key = Some (ir_ratchet_key r),
          ar_ratchet_count = ratchet_count_advance (ir_ratchet_count r),
          ar_active_ratchet = \<lparr>or_root_key = root_key, or_ratchet_key = ratchet_key\<rparr>,
          ar_symmetric_key_ratchet = chain_key\<rparr>)
       (remote_root_key_advance K fresh (ir_root_key r) (ir_ratchet_key r))"

definition active_advance :: "'a olm_crypto_scheme \<Rightarrow> string \<Rightarrow> active_double_ratchet
    \<Rightarrow> (inactive_double_ratchet \<times> receiver_chain) option" where
  "active_advance K ratchet_key r =
     map_option (\<lambda>(root_key, remote_chain).
         let new_ratchet_count = ratchet_count_advance (ar_ratchet_count r)
         in (\<lparr>ir_root_key = root_key, ir_ratchet_key = ratchet_key, ir_ratchet_count = new_ratchet_count\<rparr>,
             receiver_chain_new ratchet_key remote_chain new_ratchet_count))
       (olm_ratchet_advance K ratchet_key (ar_active_ratchet r))"

definition active_next_message_key ::
  "'a olm_crypto_scheme \<Rightarrow> active_double_ratchet \<Rightarrow> message_key \<times> active_double_ratchet" where
  "active_next_message_key K r =
     (let (message_key, chain) = create_message_key K
            (k_x25519_public K (or_ratchet_key (ar_active_ratchet r))) (ar_symmetric_key_ratchet r)
      in (message_key, r\<lparr>ar_symmetric_key_ratchet := chain\<rparr>))"

definition next_message_key ::
  "'a olm_crypto_scheme \<Rightarrow> string \<Rightarrow> double_ratchet \<Rightarrow> message_key option \<times> double_ratchet" where
  "next_message_key K fresh d =
     (case d of
        Inactive r \<Rightarrow>
          (case activate K fresh r of
             None \<Rightarrow> (None, d)
           | Some r \<Rightarrow>
               let (message_key, r) = active_next_message_key K r in (Some message_key, Active r))
      | Active r \<Rightarrow> let (message_key, r) = active_next_message_key K r in (Some message_key, Active r))"

definition double_ratchet_encrypt :: "'a olm_crypto_scheme \<Rightarrow> string \<Rightarrow> string \<Rightarrow> double_ratchet
    \<Rightarrow> (encryption_error + normal_message) \<times> double_ratchet" where
  "double_ratchet_encrypt K fresh plaintext d =
     (let (key, d) = next_message_key K fresh d
      in (map_ok (\<lambda>key. mk_encrypt K key plaintext) (ok_or key EncryptionNonContributoryKey), d))"

definition double_ratchet_encrypt_truncated_mac :: "'a olm_crypto_scheme \<Rightarrow> string \<Rightarrow> string \<Rightarrow> double_ratchet
    \<Rightarrow> (encryption_error + normal_message) \<times> double_ratchet" where
  "double_ratchet_encrypt_truncated_mac K fresh plaintext d =
     (let (key, d) = next_message_key K fresh d
      in (map_ok (\<lambda>key. mk_encrypt_truncated_mac K key plaintext) (ok_or key EncryptionNonContributoryKey), d))"

definition double_ratchet_active :: "'a olm_crypto_scheme \<Rightarrow> string \<Rightarrow> string \<Rightarrow> double_ratchet" where
  "double_ratchet_active K fresh shared_secret =
     (let (root_key, chain_key) = shared_secret_expand K shared_secret
      in Active \<lparr>ar_parent_ratchet_key = None, ar_ratchet_count = ratchet_count_new,
                 ar_active_ratchet = \<lparr>or_root_key = root_key, or_ratchet_key = fresh\<rparr>,
                 ar_symmetric_key_ratchet = chain_key_new chain_key\<rparr>)"

definition inactive_from_prekey_data :: "string \<Rightarrow> string \<Rightarrow> double_ratchet" where
  "inactive_from_prekey_data root_key ratchet_key =
     Inactive \<lparr>ir_root_key = root_key, ir_ratchet_key = ratchet_key, ir_ratchet_count = ratchet_count_new\<rparr>"

definition double_ratchet_advance :: "'a olm_crypto_scheme \<Rightarrow> string \<Rightarrow> string \<Rightarrow> double_ratchet
    \<Rightarrow> (double_ratchet \<times> receiver_chain) option \<times> double_ratchet" where
  "double_ratchet_advance K fresh ratchet_key d =
     (let (result, d) =
        (case d of
           Active r \<Rightarrow> (active_advance K ratchet_key r, d)
         | Inactive r \<Rightarrow>
             (case activate K fresh r of
                None \<Rightarrow> (None, d)
              | Some r \<Rightarrow>
                  (case active_advance K ratchet_key r of
                     None \<Rightarrow> (None, d)
                   | Some ret \<Rightarrow> (Some ret, Active r))))
      in (map_option (\<lambda>(r, chain). (Inactive r, chain)) result, d))"

end
