(* ===== verification/Olm_Session.thy ===== *)
theory Olm_Session
  imports Olm_Ratchet
begin

text \<open>
  Olm sessions, \<open>common-olm/src/olm/session/mod.rs\<close>, and the messages they exchange,
  \<open>olm/session_keys.rs\<close>, \<open>olm/messages/pre_key.rs\<close> and \<open>olm/messages/mod.rs\<close>.
\<close>

section \<open>Messages\<close>

record olm_session_keys =
  olm_identity_key :: string
  olm_base_key :: string
  olm_one_time_key :: string

definition olm_session_id :: "'a olm_crypto_scheme \<Rightarrow> olm_session_keys \<Rightarrow> string" where
  "olm_session_id K keys =
     k_base64_encode K (k_sha256 K (olm_identity_key keys @ olm_base_key keys @ olm_one_time_key keys))"

record pre_key_message =
  pk_session_keys :: olm_session_keys
  pk_message :: normal_message

definition PRE_KEY_VERSION :: "8 word" where
  "PRE_KEY_VERSION = 3"

definition pre_key_to_bytes :: "'a olm_crypto_scheme \<Rightarrow> pre_key_message \<Rightarrow> string" where
  "pre_key_to_bytes K m =
     [byte PRE_KEY_VERSION] @ k_protobuf_pre_key_encode K
       (olm_one_time_key (pk_session_keys m), olm_base_key (pk_session_keys m),
        olm_identity_key (pk_session_keys m), om_to_bytes (pk_message m))"

definition pre_key_from_bytes :: "'a olm_crypto_scheme \<Rightarrow> string \<Rightarrow> decode_error + pre_key_message" where
  "pre_key_from_bytes K bytes =
     (case bytes of
        [] \<Rightarrow> Inl MissingVersion
      | c # rest \<Rightarrow>
        let version = of_char c
        in if version \<noteq> PRE_KEY_VERSION then Inl (InvalidVersion PRE_KEY_VERSION version)
           else
             rbind (ok_or (k_protobuf_pre_key K rest) ProtoBufError)
               (\<lambda>(one_time_key, base_key, identity_key, message).
             rbind (map_err InvalidKey (curve25519_from_slice one_time_key)) (\<lambda>one_time_key.
             rbind (map_err InvalidKey (curve25519_from_slice base_key)) (\<lambda>base_key.
             rbind (map_err InvalidKey (curve25519_from_slice identity_key)) (\<lambda>identity_key.
             rbind (om_from_bytes K message) (\<lambda>message.
             Inr \<lparr>pk_session_keys = \<lparr>olm_identity_key = identity_key, olm_base_key = base_key,
                                    olm_one_time_key = one_time_key\<rparr>,
                  pk_message = message\<rparr>))))))"

datatype olm_message = OlmNormal normal_message | OlmPreKey pre_key_message

fun olm_from_parts :: "'a olm_crypto_scheme \<Rightarrow> nat \<times> string \<Rightarrow> decode_error + olm_message" where
  "olm_from_parts K (message_type, ciphertext) =
     (if message_type = 0 then map_ok OlmPreKey (pre_key_from_bytes K ciphertext)
      else if message_type = 1 then map_ok OlmNormal (om_from_bytes K ciphertext)
      else Inl (MessageType message_type))"

fun olm_to_parts :: "'a olm_crypto_scheme \<Rightarrow> olm_message \<Rightarrow> nat \<times> string" where
  "olm_to_parts K (OlmNormal m) = (1, om_to_bytes m)"
| "olm_to_parts K (OlmPreKey m) = (0, pre_key_to_bytes K m)"

section \<open>Sessions\<close>

definition MAX_RECEIVING_CHAINS :: nat where
  "MAX_RECEIVING_CHAINS = 5"

definition chain_store_push :: "receiver_chain \<Rightarrow> receiver_chain list \<Rightarrow> receiver_chain list" where
  "chain_store_push chain store = push_evicting MAX_RECEIVING_CHAINS chain store"

interpretation chain_store: bounded_store chain_store_push MAX_RECEIVING_CHAINS
  by unfold_locales (simp_all add: chain_store_push_def MAX_RECEIVING_CHAINS_def push_evicting)

text \<open>
  \<open>ChainStore::find_ratchet\<close> returns a mutable reference to the first chain of a ratchet key. The
  model takes what is done with it, \<open>f\<close>, and returns its result with the changed store.
\<close>

fun chain_store_find :: "string \<Rightarrow> (receiver_chain \<Rightarrow> 'r \<times> receiver_chain) \<Rightarrow> receiver_chain list
    \<Rightarrow> ('r \<times> receiver_chain list) option" where
  "chain_store_find ratchet_key f [] = None"
| "chain_store_find ratchet_key f (c # cs) =
     (if belongs_to c ratchet_key then Some (let (r, c) = f c in (r, c # cs))
      else map_option (\<lambda>(r, cs). (r, c # cs)) (chain_store_find ratchet_key f cs))"

record olm_session =
  os_session_keys :: olm_session_keys
  os_sending_ratchet :: double_ratchet
  os_receiving_chains :: "receiver_chain list"
  os_config :: olm_config

definition olm_session_new ::
  "'a olm_crypto_scheme \<Rightarrow> string \<Rightarrow> olm_config \<Rightarrow> string \<Rightarrow> olm_session_keys \<Rightarrow> olm_session" where
  "olm_session_new K fresh config shared_secret keys =
     \<lparr>os_session_keys = keys, os_sending_ratchet = double_ratchet_active K fresh shared_secret,
      os_receiving_chains = [], os_config = config\<rparr>"

definition olm_session_new_remote ::
  "'a olm_crypto_scheme \<Rightarrow> olm_config \<Rightarrow> string \<Rightarrow> string \<Rightarrow> olm_session_keys \<Rightarrow> olm_session" where
  "olm_session_new_remote K config shared_secret remote_ratchet_key keys =
     (let (root_key, remote_chain_key) = shared_secret_expand K shared_secret;
          remote_chain_key = chain_key_new remote_chain_key;
          local_ratchet = inactive_from_prekey_data root_key remote_ratchet_key;
          remote_ratchet = receiver_chain_new remote_ratchet_key remote_chain_key ratchet_count_new
      in \<lparr>os_session_keys = keys, os_sending_ratchet = local_ratchet,
          os_receiving_chains = chain_store_push remote_ratchet [], os_config = config\<rparr>)"

definition has_received_message :: "olm_session \<Rightarrow> bool" where
  "has_received_message s \<longleftrightarrow> os_receiving_chains s \<noteq> []"

definition olm_encrypt :: "'a olm_crypto_scheme \<Rightarrow> string \<Rightarrow> string \<Rightarrow> olm_session
    \<Rightarrow> (encryption_error + olm_message) \<times> olm_session" where
  "olm_encrypt K fresh plaintext s =
     (let (result, sending_ratchet) =
        (case olm_version (os_config s) of
           OlmV1 \<Rightarrow> double_ratchet_encrypt_truncated_mac K fresh plaintext (os_sending_ratchet s)
         | OlmV2 \<Rightarrow> double_ratchet_encrypt K fresh plaintext (os_sending_ratchet s));
          s = s\<lparr>os_sending_ratchet := sending_ratchet\<rparr>
      in (map_ok (\<lambda>message.
            if has_received_message s then OlmNormal message
            else OlmPreKey \<lparr>pk_session_keys = os_session_keys s, pk_message = message\<rparr>) result, s))"

definition olm_decrypt_decoded :: "'a olm_crypto_scheme \<Rightarrow> string \<Rightarrow> normal_message \<Rightarrow> olm_session
    \<Rightarrow> (olm_decryption_error + string) \<times> olm_session" where
  "olm_decrypt_decoded K fresh message s =
     (case chain_store_find (om_ratchet_key message) (receiver_chain_decrypt K message (os_config s))
             (os_receiving_chains s) of
        Some (result, receiving_chains) \<Rightarrow> (result, s\<lparr>os_receiving_chains := receiving_chains\<rparr>)
      | None \<Rightarrow>
        (case double_ratchet_advance K fresh (om_ratchet_key message) (os_sending_ratchet s) of
           (None, r) \<Rightarrow> (Inl OlmNonContributoryKey, s\<lparr>os_sending_ratchet := r\<rparr>)
         | (Some (sending_ratchet, remote_ratchet), r) \<Rightarrow>
             (case receiver_chain_decrypt K message (os_config s) remote_ratchet of
                (Inl e, _) \<Rightarrow> (Inl e, s\<lparr>os_sending_ratchet := r\<rparr>)
              | (Inr plaintext, remote_ratchet) \<Rightarrow>
                  (Inr plaintext,
                   s\<lparr>os_sending_ratchet := sending_ratchet,
                     os_receiving_chains := chain_store_push remote_ratchet (os_receiving_chains s)\<rparr>))))"

definition olm_decrypt :: "'a olm_crypto_scheme \<Rightarrow> string \<Rightarrow> olm_message \<Rightarrow> olm_session
    \<Rightarrow> (olm_decryption_error + string) \<times> olm_session" where
  "olm_decrypt K fresh message s =
     (case message of
        OlmNormal m \<Rightarrow> olm_decrypt_decoded K fresh m s
      | OlmPreKey m \<Rightarrow> olm_decrypt_decoded K fresh (pk_message m) s)"

end
