(* ===== verification/Olm_Account.thy ===== *)
theory Olm_Account
  imports Olm_Session
begin

text \<open>
  Olm accounts, \<open>common-olm/src/olm/account/\<close>: the store of one-time keys (\<open>one_time_keys.rs\<close>), the
  fallback keys (\<open>fallback_keys.rs\<close>) and the account that creates sessions with them (\<open>mod.rs\<close>).
  Random keys are the arguments \<open>fresh\<close>. A \<open>BTreeMap\<close> is an association list sorted by its keys.
\<close>

section \<open>One-time keys\<close>

definition PUBLIC_MAX_ONE_TIME_KEYS :: nat where
  "PUBLIC_MAX_ONE_TIME_KEYS = 50"

definition MAX_ONE_TIME_KEYS :: nat where
  "MAX_ONE_TIME_KEYS = 100 * PUBLIC_MAX_ONE_TIME_KEYS"

record one_time_keys =
  next_key_id :: "64 word"
  unpublished_public_keys :: "(64 word \<times> string) list"
  private_keys :: "(64 word \<times> string) list"
  key_ids_by_key :: "(string \<times> 64 word) list"

definition one_time_keys_new :: one_time_keys where
  "one_time_keys_new =
     \<lparr>next_key_id = 0, unpublished_public_keys = [], private_keys = [], key_ids_by_key = []\<rparr>"

definition otk_mark_as_published :: "one_time_keys \<Rightarrow> one_time_keys" where
  "otk_mark_as_published o1 = o1\<lparr>unpublished_public_keys := []\<rparr>"

definition otk_get_secret_key :: "string \<Rightarrow> one_time_keys \<Rightarrow> string option" where
  "otk_get_secret_key public_key o1 =
     Option.bind (map_of (key_ids_by_key o1) public_key) (map_of (private_keys o1))"

definition otk_remove_secret_key :: "string \<Rightarrow> one_time_keys \<Rightarrow> string option \<times> one_time_keys" where
  "otk_remove_secret_key public_key o1 =
     (case map_of (key_ids_by_key o1) public_key of
        None \<Rightarrow> (None, o1)
      | Some key_id \<Rightarrow>
          (map_of (private_keys o1) key_id,
           o1\<lparr>key_ids_by_key := hm_remove public_key (key_ids_by_key o1),
              unpublished_public_keys := hm_remove key_id (unpublished_public_keys o1),
              private_keys := hm_remove key_id (private_keys o1)\<rparr>))"

definition otk_evict :: "'a olm_crypto_scheme \<Rightarrow> one_time_keys \<Rightarrow> string option \<times> one_time_keys" where
  "otk_evict K o1 =
     (if MAX_ONE_TIME_KEYS \<le> length (private_keys o1)
      then
        (case private_keys o1 of
           [] \<Rightarrow> (None, o1)
         | (key_id, private_key) # rest \<Rightarrow>
             let public_key = k_x25519_public K private_key
             in (Some public_key,
                 o1\<lparr>private_keys := rest, key_ids_by_key := hm_remove public_key (key_ids_by_key o1),
                    unpublished_public_keys := hm_remove key_id (unpublished_public_keys o1)\<rparr>))
      else (None, o1))"

definition otk_insert_secret_key :: "'a olm_crypto_scheme \<Rightarrow> 64 word \<Rightarrow> string \<Rightarrow> bool \<Rightarrow> one_time_keys
    \<Rightarrow> (string \<times> string option) \<times> one_time_keys" where
  "otk_insert_secret_key K key_id key published o1 =
     (let (removed, o1) = otk_evict K o1;
          public_key = k_x25519_public K key;
          o1 = o1\<lparr>private_keys := bt_insert key_id key (private_keys o1),
                  key_ids_by_key := hm_insert public_key key_id (key_ids_by_key o1)\<rparr>;
          o1 = (if published then o1
                else o1\<lparr>unpublished_public_keys := bt_insert key_id public_key (unpublished_public_keys o1)\<rparr>)
      in ((public_key, removed), o1))"

definition generate_one_time_key ::
  "'a olm_crypto_scheme \<Rightarrow> string \<Rightarrow> one_time_keys \<Rightarrow> (string \<times> string option) \<times> one_time_keys" where
  "generate_one_time_key K fresh o1 = otk_insert_secret_key K (next_key_id o1) fresh False o1"

text \<open>One random key for each key that is generated: \<open>count\<close> is the number of them.\<close>

fun otk_generate_loop :: "'a olm_crypto_scheme \<Rightarrow> string list \<Rightarrow> string list \<Rightarrow> string list \<Rightarrow> one_time_keys
    \<Rightarrow> (string list \<times> string list) \<times> one_time_keys" where
  "otk_generate_loop K [] created_keys removed_keys o1 = ((created_keys, removed_keys), o1)"
| "otk_generate_loop K (fresh # rest) created_keys removed_keys o1 =
     (let ((created, removed), o1) = generate_one_time_key K fresh o1;
          removed_keys = (case removed of None \<Rightarrow> removed_keys | Some k \<Rightarrow> removed_keys @ [k]);
          o1 = o1\<lparr>next_key_id := next_key_id o1 + 1\<rparr>
      in otk_generate_loop K rest (created_keys @ [created]) removed_keys o1)"

definition otk_generate ::
  "'a olm_crypto_scheme \<Rightarrow> string list \<Rightarrow> one_time_keys \<Rightarrow> (string list \<times> string list) \<times> one_time_keys" where
  "otk_generate K fresh o1 = otk_generate_loop K fresh [] [] o1"

record one_time_keys_pickle =
  op_next_key_id :: "64 word"
  op_public_keys :: "(64 word \<times> string) list"
  op_private_keys :: "(64 word \<times> string) list"

definition otk_from_pickle :: "'a olm_crypto_scheme \<Rightarrow> one_time_keys_pickle \<Rightarrow> one_time_keys" where
  "otk_from_pickle K p =
     \<lparr>next_key_id = op_next_key_id p, unpublished_public_keys = op_public_keys p,
      private_keys = op_private_keys p,
      key_ids_by_key = fold (\<lambda>(k, v). hm_insert (k_x25519_public K v) k) (op_private_keys p) []\<rparr>"

definition otk_to_pickle :: "one_time_keys \<Rightarrow> one_time_keys_pickle" where
  "otk_to_pickle o1 =
     \<lparr>op_next_key_id = next_key_id o1, op_public_keys = unpublished_public_keys o1,
      op_private_keys = private_keys o1\<rparr>"

section \<open>Fallback keys\<close>

record fallback_key =
  fk_key_id :: "64 word"
  fk_key :: string
  fk_published :: bool

record fallback_keys =
  fks_key_id :: "64 word"
  fks_fallback_key :: "fallback_key option"
  fks_previous_fallback_key :: "fallback_key option"

definition fallback_keys_new :: fallback_keys where
  "fallback_keys_new = \<lparr>fks_key_id = 0, fks_fallback_key = None, fks_previous_fallback_key = None\<rparr>"

definition fallback_public_key :: "'a olm_crypto_scheme \<Rightarrow> fallback_key \<Rightarrow> string" where
  "fallback_public_key K f = k_x25519_public K (fk_key f)"

definition fallback_mark_as_published :: "fallback_keys \<Rightarrow> fallback_keys" where
  "fallback_mark_as_published f =
     f\<lparr>fks_fallback_key := map_option (\<lambda>k. k\<lparr>fk_published := True\<rparr>) (fks_fallback_key f)\<rparr>"

definition generate_fallback_key ::
  "'a olm_crypto_scheme \<Rightarrow> string \<Rightarrow> fallback_keys \<Rightarrow> string option \<times> fallback_keys" where
  "generate_fallback_key K fresh f =
     (let key_id = fks_key_id f;
          ret = map_option (fallback_public_key K) (fks_previous_fallback_key f)
      in (ret,
          \<lparr>fks_key_id = fks_key_id f + 1,
           fks_fallback_key = Some \<lparr>fk_key_id = key_id, fk_key = fresh, fk_published = False\<rparr>,
           fks_previous_fallback_key = fks_fallback_key f\<rparr>))"

definition option_filter :: "('b \<Rightarrow> bool) \<Rightarrow> 'b option \<Rightarrow> 'b option" where
  "option_filter P m = Option.bind m (\<lambda>x. if P x then Some x else None)"

definition fallback_get_secret_key :: "'a olm_crypto_scheme \<Rightarrow> string \<Rightarrow> fallback_keys \<Rightarrow> string option" where
  "fallback_get_secret_key K public_key f =
     map_option fk_key
       (case option_filter (\<lambda>k. fallback_public_key K k = public_key) (fks_fallback_key f) of
          Some k \<Rightarrow> Some k
        | None \<Rightarrow> option_filter (\<lambda>k. fallback_public_key K k = public_key) (fks_previous_fallback_key f))"

definition forget_previous_fallback_key :: "fallback_keys \<Rightarrow> fallback_key option \<times> fallback_keys" where
  "forget_previous_fallback_key f = (fks_previous_fallback_key f, f\<lparr>fks_previous_fallback_key := None\<rparr>)"

definition unpublished_fallback_key :: "fallback_keys \<Rightarrow> fallback_key option" where
  "unpublished_fallback_key f = option_filter (\<lambda>k. \<not> fk_published k) (fks_fallback_key f)"

section \<open>Accounts\<close>

datatype session_creation_error =
  MissingOneTimeKey string | MismatchedIdentityKey string string
| MismatchedSessionConfig olm_config "olm_config option" | CreationDecryption olm_decryption_error
| CreationNonContributoryKey

record account =
  ac_signing_key :: ed25519_keypair
  ac_diffie_hellman_key :: string
  ac_one_time_keys :: one_time_keys
  ac_fallback_keys :: fallback_keys

definition account_new :: "'a olm_crypto_scheme \<Rightarrow> string \<Rightarrow> string \<Rightarrow> account" where
  "account_new K signing_key diffie_hellman_key =
     \<lparr>ac_signing_key = keypair_from_secret K signing_key, ac_diffie_hellman_key = diffie_hellman_key,
      ac_one_time_keys = one_time_keys_new, ac_fallback_keys = fallback_keys_new\<rparr>"

definition curve25519_key :: "'a olm_crypto_scheme \<Rightarrow> account \<Rightarrow> string" where
  "curve25519_key K a = k_x25519_public K (ac_diffie_hellman_key a)"

definition create_outbound_session :: "'a olm_crypto_scheme \<Rightarrow> string \<Rightarrow> string \<Rightarrow> olm_config \<Rightarrow> string \<Rightarrow> string
    \<Rightarrow> account \<Rightarrow> session_creation_error + olm_session" where
  "create_outbound_session K base_key fresh config identity_key one_time_key a =
     (let public_base_key = k_x25519_public K base_key
      in rbind (ok_or (shared_3dh_new K (ac_diffie_hellman_key a) base_key identity_key one_time_key)
             CreationNonContributoryKey) (\<lambda>shared_secret.
         let keys = \<lparr>olm_identity_key = curve25519_key K a, olm_base_key = public_base_key,
                     olm_one_time_key = one_time_key\<rparr>
         in Inr (olm_session_new K fresh config shared_secret keys)))"

definition find_one_time_key :: "'a olm_crypto_scheme \<Rightarrow> string \<Rightarrow> account \<Rightarrow> string option" where
  "find_one_time_key K public_key a =
     (case otk_get_secret_key public_key (ac_one_time_keys a) of
        Some k \<Rightarrow> Some k
      | None \<Rightarrow> fallback_get_secret_key K public_key (ac_fallback_keys a))"

definition remove_one_time_key_helper :: "string \<Rightarrow> account \<Rightarrow> string option \<times> account" where
  "remove_one_time_key_helper public_key a =
     (let (k, o1) = otk_remove_secret_key public_key (ac_one_time_keys a)
      in (k, a\<lparr>ac_one_time_keys := o1\<rparr>))"

record inbound_creation_result =
  icr_session :: olm_session
  icr_plaintext :: string

definition create_inbound_session :: "'a olm_crypto_scheme \<Rightarrow> string \<Rightarrow> olm_config \<Rightarrow> string \<Rightarrow> pre_key_message
    \<Rightarrow> account \<Rightarrow> (session_creation_error + inbound_creation_result) \<times> account" where
  "create_inbound_session K fresh expected_config their_identity_key m a =
     (let keys = pk_session_keys m
      in case
        (if their_identity_key \<noteq> olm_identity_key keys
         then Inl (MismatchedIdentityKey their_identity_key (olm_identity_key keys))
         else
           rbind (if om_version (pk_message m) = OLM_MAC_TRUNCATED_VERSION then Inr \<lparr>olm_version = OlmV1\<rparr>
                  else if om_version (pk_message m) = OLM_VERSION then Inr \<lparr>olm_version = OlmV2\<rparr>
                  else Inl (MismatchedSessionConfig expected_config None)) (\<lambda>config.
           rbind (ensure (config = expected_config)
                  (MismatchedSessionConfig expected_config (Some config))) (\<lambda>_.
           rbind (ok_or (find_one_time_key K (olm_one_time_key keys) a)
                  (MissingOneTimeKey (olm_one_time_key keys))) (\<lambda>private_otk.
           rbind (ok_or (remote_3dh_new K (ac_diffie_hellman_key a) private_otk (olm_identity_key keys)
                    (olm_base_key keys)) CreationNonContributoryKey) (\<lambda>shared_secret.
           let session = olm_session_new_remote K config shared_secret (om_ratchet_key (pk_message m)) keys
           in case olm_decrypt_decoded K fresh (pk_message m) session of
                (Inl e, _) \<Rightarrow> Inl (CreationDecryption e)
              | (Inr plaintext, session) \<Rightarrow> Inr \<lparr>icr_session = session, icr_plaintext = plaintext\<rparr>))))) of
          Inl e \<Rightarrow> (Inl e, a)
        | Inr result \<Rightarrow> (Inr result, snd (remove_one_time_key_helper (olm_one_time_key keys) a)))"

definition generate_one_time_keys :: "'a olm_crypto_scheme \<Rightarrow> string list \<Rightarrow> account
    \<Rightarrow> (string list \<times> string list) \<times> account" where
  "generate_one_time_keys K fresh a =
     (let (result, o1) = otk_generate K fresh (ac_one_time_keys a) in (result, a\<lparr>ac_one_time_keys := o1\<rparr>))"

definition account_generate_fallback_key :: "'a olm_crypto_scheme \<Rightarrow> string \<Rightarrow> account \<Rightarrow> string option \<times> account" where
  "account_generate_fallback_key K fresh a =
     (let (result, f) = generate_fallback_key K fresh (ac_fallback_keys a) in (result, a\<lparr>ac_fallback_keys := f\<rparr>))"

definition account_fallback_key :: "'a olm_crypto_scheme \<Rightarrow> account \<Rightarrow> (64 word \<times> string) list" where
  "account_fallback_key K a =
     (case unpublished_fallback_key (ac_fallback_keys a) of
        None \<Rightarrow> []
      | Some f \<Rightarrow> [(fk_key_id f, fallback_public_key K f)])"

definition forget_fallback_key :: "account \<Rightarrow> bool \<times> account" where
  "forget_fallback_key a =
     (let (k, f) = forget_previous_fallback_key (ac_fallback_keys a)
      in (k \<noteq> None, a\<lparr>ac_fallback_keys := f\<rparr>))"

definition mark_keys_as_published :: "account \<Rightarrow> account" where
  "mark_keys_as_published a =
     a\<lparr>ac_one_time_keys := otk_mark_as_published (ac_one_time_keys a),
       ac_fallback_keys := fallback_mark_as_published (ac_fallback_keys a)\<rparr>"

end
