(* ===== verification/Olm_Chain.thy ===== *)
theory Olm_Chain
  imports Olm_Ratchet
begin

text \<open>
  What a receiving chain does with the messages of its sending chain. The keys of both are functions of
  the first chain key and the index. The invariant \<open>chain_inv\<close> describes the receiver by the set of
  indices it has accepted: it stands after the largest of them, and keeps the key of every index it has
  skipped within the last forty before that, and no other.
\<close>

section \<open>The keys of a chain\<close>

definition chain_at :: "'a olm_crypto_scheme \<Rightarrow> string \<Rightarrow> nat \<Rightarrow> chain_key" where
  "chain_at K c n = (chain_key_advance K ^^ n) (chain_key_new c)"

definition remote_key_at :: "'a olm_crypto_scheme \<Rightarrow> string \<Rightarrow> nat \<Rightarrow> remote_message_key" where
  "remote_key_at K c n = \<lparr>rk_key = expand_chain_key K (ck_key (chain_at K c n)), rk_index = of_nat n\<rparr>"

definition key_at :: "'a olm_crypto_scheme \<Rightarrow> string \<Rightarrow> string \<Rightarrow> nat \<Rightarrow> message_key" where
  "key_at K ratchet_key c n =
     \<lparr>mk_key = expand_chain_key K (ck_key (chain_at K c n)), mk_ratchet_key = ratchet_key, mk_index = of_nat n\<rparr>"

definition seal :: "'a olm_crypto_scheme \<Rightarrow> olm_config \<Rightarrow> message_key \<Rightarrow> string \<Rightarrow> normal_message" where
  "seal K config k text =
     (case olm_version config of OlmV1 \<Rightarrow> mk_encrypt_truncated_mac K k text | OlmV2 \<Rightarrow> mk_encrypt K k text)"

lemma chain_at_0 [simp]: "chain_at K c 0 = chain_key_new c"
  by (simp add: chain_at_def)

lemma chain_at_Suc: "chain_key_advance K (chain_at K c n) = chain_at K c (Suc n)"
  by (simp add: chain_at_def)

lemma ck_index_chain_at [simp]: "ck_index (chain_at K c n) = of_nat n"
  by (induction n) (simp_all add: chain_at_def chain_key_new_def chain_key_advance_def)

lemma rk_index_remote_key_at [simp]: "rk_index (remote_key_at K c n) = of_nat n"
  by (simp add: remote_key_at_def)

lemma create_message_key_at:
  "create_message_key K ratchet_key (chain_at K c n) = (key_at K ratchet_key c n, chain_at K c (Suc n))"
  by (simp add: create_message_key_def key_at_def chain_at_Suc)

lemma create_remote_message_key_at:
  "create_remote_message_key K (chain_at K c n) = (remote_key_at K c n, chain_at K c (Suc n))"
  by (simp add: create_remote_message_key_def remote_key_at_def chain_at_Suc)

lemma seal_fields [simp]:
  "om_ratchet_key (seal K config k text) = mk_ratchet_key k"
  "om_chain_index (seal K config k text) = mk_index k"
  by (simp_all add: seal_def mk_encrypt_def mk_encrypt_truncated_mac_def om_set_mac_def om_new_def
      om_new_truncated_mac_def Let_def split: olm_version.split)

lemma key_at_fields [simp]:
  "mk_ratchet_key (key_at K ratchet_key c n) = ratchet_key" "mk_index (key_at K ratchet_key c n) = of_nat n"
  by (simp_all add: key_at_def)

lemma open_seal:
  assumes "aes_law K" "hmac_law K"
  shows "found_decrypt K (Existing (remote_key_at K c n)) (seal K config (key_at K ratchet_key c n) text) config = Inr text"
    and "found_decrypt K (New r store (remote_key_at K c n)) (seal K config (key_at K ratchet_key c n) text) config = Inr text"
  using verify_own_mac [OF assms(2)] decrypt_encrypt [OF assms(1)]
  by (cases "olm_version config"; simp add: found_decrypt_def seal_def rk_decrypt_truncated_mac_def rk_decrypt_def
      mk_encrypt_def mk_encrypt_truncated_mac_def remote_key_at_def key_at_def Let_def om_set_mac_def
      om_new_def om_new_truncated_mac_def om_to_mac_bytes_def om_encode_def)+

section \<open>Bringing a chain forward\<close>

definition index_limit :: nat where
  "index_limit = 2 ^ 64 - 1"

lemma index_less [simp]:
  "i \<le> index_limit \<Longrightarrow> j \<le> index_limit \<Longrightarrow> (of_nat i :: 64 word) < of_nat j \<longleftrightarrow> i < j"
  by (simp add: index_limit_def word_less_nat_alt unat_of_nat)

lemma index_eq [simp]:
  "i \<le> index_limit \<Longrightarrow> j \<le> index_limit \<Longrightarrow> (of_nat i :: 64 word) = of_nat j \<longleftrightarrow> i = j"
  by (simp add: index_limit_def word_unat_eq_iff unat_of_nat)

lemma unat_index [simp]: "i \<le> index_limit \<Longrightarrow> unat (of_nat i :: 64 word) = i"
  by (simp add: index_limit_def unat_of_nat)

lemma index_diff: "i \<le> j \<Longrightarrow> (of_nat j :: 64 word) - of_nat i = of_nat (j - i)"
  by (simp add: of_nat_diff)

lemma key_store_merge_map:
  assumes "length xs \<le> MAX_MESSAGE_KEYS"
  shows "key_store_merge (map f ys) (map f xs) = map f (last_n MAX_MESSAGE_KEYS (xs @ ys))"
proof -
  have "fold key_store_push (map f ys) (map f xs) = last_n MAX_MESSAGE_KEYS (map f xs @ map f ys)"
    using assms by (intro key_store.fold_push) simp
  then show ?thesis by (simp add: key_store_merge_def map_last_n)
qed

lemma skip_keys_at:
  assumes "n \<le> j" "j \<le> index_limit" "skipped = map (remote_key_at K c) [max m (j - MAX_MESSAGE_KEYS)..<n]"
    "m \<le> n" "j \<le> n + MAX_MESSAGE_KEYS \<or> skipped = []"
  shows "skip_keys K (of_nat j) (chain_at K c n) skipped =
     (chain_at K c j, map (remote_key_at K c) [max m (j - MAX_MESSAGE_KEYS)..<j])"
  using assms
proof (induction "j - n" arbitrary: n skipped)
  case 0
  then show ?case by (simp add: skip_keys.simps)
next
  case (Suc d)
  then have n: "n < j" "n \<le> index_limit" "Suc n \<le> j" by simp_all
  have gap: "(of_nat MAX_MESSAGE_KEYS :: 64 word) < of_nat j - of_nat n \<longleftrightarrow> MAX_MESSAGE_KEYS < j - n"
    unfolding index_diff [OF less_imp_le [OF n(1)]] using Suc.prems(2)
    by (intro index_less) (simp_all add: MAX_MESSAGE_KEYS_def index_limit_def)
  let ?keys = "\<lambda>n. map (remote_key_at K c) [max m (j - MAX_MESSAGE_KEYS)..<n]"
  show ?case
  proof (cases "MAX_MESSAGE_KEYS < j - n")
    case True
    then have *: "?keys n = []" "?keys (Suc n) = []" by (auto simp: max_def)
    have "skip_keys K (of_nat j) (chain_at K c (Suc n)) [] = (chain_at K c j, ?keys j)"
      using Suc.hyps(2) Suc.prems(2,4) n by (intro Suc.hyps(1) * [symmetric] disjI2) simp_all
    with True show ?thesis
      using n Suc.prems(2,3) by (simp add: skip_keys.simps [of K "of_nat j" "chain_at K c n"] gap chain_at_Suc *)
  next
    case False
    have len: "length skipped < MAX_MESSAGE_KEYS"
      using Suc.prems(3,4) n False by (auto simp: max_def MAX_MESSAGE_KEYS_def)
    have push: "key_store_push (remote_key_at K c n) skipped = ?keys (Suc n)"
      using len False Suc.prems(3,4) by (auto simp: key_store_push_def push_evicting_def max_def)
    have "skip_keys K (of_nat j) (chain_at K c (Suc n)) (?keys (Suc n)) = (chain_at K c j, ?keys j)"
      using Suc.hyps(2) Suc.prems(2,4) n False by (intro Suc.hyps(1) disjI1) simp_all
    with False show ?thesis
      using n Suc.prems(2) by (simp add: skip_keys.simps [of K "of_nat j" "chain_at K c n"] gap
          create_remote_message_key_at push)
  qed
qed

section \<open>The invariant\<close>

definition next_index :: "nat set \<Rightarrow> nat" where
  "next_index D = (if D = {} then 0 else Suc (Max D))"

definition window_inv :: "nat set \<Rightarrow> nat list \<Rightarrow> bool" where
  "window_inv D skipped \<longleftrightarrow> finite D \<and> sorted_wrt (<) skipped \<and> length skipped \<le> MAX_MESSAGE_KEYS
     \<and> (\<forall>i\<in>set skipped. i < next_index D \<and> i \<notin> D)
     \<and> (\<forall>i < next_index D. i \<notin> D \<longrightarrow> next_index D \<le> i + MAX_MESSAGE_KEYS + 1 \<longrightarrow> i \<in> set skipped)"

definition chain_inv :: "'a olm_crypto_scheme \<Rightarrow> string \<Rightarrow> nat set \<Rightarrow> receiver_chain \<Rightarrow> bool" where
  "chain_inv K c D rc \<longleftrightarrow> next_index D \<le> index_limit \<and> rc_hkdf_ratchet rc = chain_at K c (next_index D)
     \<and> (\<exists>skipped. window_inv D skipped \<and> rc_skipped rc = map (remote_key_at K c) skipped)"

lemma next_index_gt: "finite D \<Longrightarrow> j \<in> D \<Longrightarrow> j < next_index D"
  by (auto simp: next_index_def less_Suc_eq_le)

lemma next_index_insert: "finite D \<Longrightarrow> next_index (insert j D) = max (Suc j) (next_index D)"
  by (auto simp: next_index_def max_def)

lemma chain_inv_new: "chain_inv K c {} (receiver_chain_new ratchet_key (chain_key_new c) n)"
  by (simp add: chain_inv_def window_inv_def receiver_chain_new_def next_index_def MAX_MESSAGE_KEYS_def)

lemma window_inv_new:
  assumes "window_inv D skipped" "next_index D \<le> j"
  shows "window_inv (insert j D) (last_n MAX_MESSAGE_KEYS (skipped @ [max (next_index D) (j - MAX_MESSAGE_KEYS)..<j]))"
proof -
  let ?new = "[max (next_index D) (j - MAX_MESSAGE_KEYS)..<j]"
  let ?all = "skipped @ ?new"
  have fin: "finite D" and s: "sorted_wrt (<) skipped" "\<forall>i\<in>set skipped. i < next_index D \<and> i \<notin> D"
    and w: "\<And>i. i < next_index D \<Longrightarrow> i \<notin> D \<Longrightarrow> next_index D \<le> i + MAX_MESSAGE_KEYS + 1 \<Longrightarrow> i \<in> set skipped"
    using assms(1) by (auto simp: window_inv_def)
  have nxt: "next_index (insert j D) = Suc j" using fin assms(2) by (simp add: next_index_insert)
  have out: "i \<notin> D" if "next_index D \<le> i" for i using next_index_gt [OF fin] that by force
  have all: "sorted_wrt (<) ?all" using s by (auto simp: sorted_wrt_append)
  have mem: "i \<in> set (last_n MAX_MESSAGE_KEYS ?all)" if "i < Suc j" "i \<notin> insert j D" "Suc j \<le> i + MAX_MESSAGE_KEYS + 1" for i
  proof (rule sorted_in_last_n [OF all, where b = j])
    show "i \<in> set ?all" using that w [of i] assms(2) by (cases "i < next_index D") auto
    show "\<forall>y\<in>set ?all. y < j" using s(2) assms(2) by force
    show "j \<le> i + MAX_MESSAGE_KEYS" using that(3) by simp
  qed
  have "i < j \<and> i \<notin> D" if "i \<in> set ?all" for i
    using that s(2) assms(2) out [of i] by auto
  then have "i < Suc j \<and> i \<notin> insert j D" if "i \<in> set (last_n MAX_MESSAGE_KEYS ?all)" for i
    using subsetD [OF set_last_n that] by (metis insert_iff less_SucI less_irrefl)
  with mem fin show ?thesis unfolding window_inv_def nxt
    by (intro conjI) (simp_all only: finite_insert sorted_last_n [OF all] length_last_n min.cobounded1, blast+)
qed

lemma window_inv_existing:
  assumes "window_inv D skipped" "j < next_index D"
  shows "window_inv (insert j D) (filter (\<lambda>i. i \<noteq> j) skipped)"
proof -
  have fin: "finite D" using assms(1) by (simp add: window_inv_def)
  have nxt: "next_index (insert j D) = next_index D" using assms(2) fin by (simp add: next_index_insert)
  have len: "length (filter (\<lambda>i. i \<noteq> j) skipped) \<le> length skipped" by (rule length_filter_le)
  from assms(1) have s: "sorted_wrt (<) skipped" "length skipped \<le> MAX_MESSAGE_KEYS"
    "\<forall>i\<in>set skipped. i < next_index D \<and> i \<notin> D"
    "\<forall>i < next_index D. i \<notin> D \<longrightarrow> next_index D \<le> i + MAX_MESSAGE_KEYS + 1 \<longrightarrow> i \<in> set skipped"
    unfolding window_inv_def by blast+
  show ?thesis unfolding window_inv_def nxt set_filter
    using fin sorted_wrt_filter [OF s(1)] le_trans [OF len s(2)] s(3,4) by blast
qed

lemma window_inv_limit:
  "window_inv D skipped \<Longrightarrow> next_index D \<le> index_limit \<Longrightarrow> i \<in> set skipped \<Longrightarrow> i \<le> index_limit"
  unfolding window_inv_def by (meson less_imp_le le_trans)

section \<open>One message\<close>

lemma find_map_key:
  assumes "\<forall>i\<in>set skipped. i \<le> index_limit" "j \<le> index_limit"
  shows "get_message_key (of_nat j) (map (remote_key_at K c) skipped) =
     (if j \<in> set skipped then Some (remote_key_at K c j) else None)"
  using assms by (induction skipped) (auto simp: get_message_key_def)

lemma remove_map_key:
  assumes "\<forall>i\<in>set skipped. i \<le> index_limit" "j \<le> index_limit"
  shows "remove_message_key (of_nat j) (map (remote_key_at K c) skipped) =
     map (remote_key_at K c) (filter (\<lambda>i. i \<noteq> j) skipped)"
  using assms by (induction skipped) (auto simp: remove_message_key_def)

lemma gap_at:
  assumes "n \<le> index_limit" "j \<le> index_limit"
  shows "saturating_sub (of_nat j) (of_nat n) = of_nat (j - n)"
    and "MAX_MESSAGE_GAP < (of_nat (j - n) :: 64 word) \<longleftrightarrow> n + 2000 < j"
proof -
  have "(of_nat n :: 64 word) \<le> of_nat j \<longleftrightarrow> n \<le> j"
    using assms by (simp add: not_less [symmetric])
  then show "saturating_sub (of_nat j) (of_nat n) = of_nat (j - n)"
    using index_diff [of n j] unfolding saturating_sub_def by (cases "n \<le> j") (simp_all only: if_True, simp)
  have "(of_nat 2000 :: 64 word) < of_nat (j - n) \<longleftrightarrow> 2000 < j - n"
    using assms by (intro index_less) (simp_all add: index_limit_def)
  moreover have "2000 < j - n \<longleftrightarrow> n + 2000 < j" by arith
  ultimately show "MAX_MESSAGE_GAP < (of_nat (j - n) :: 64 word) \<longleftrightarrow> n + 2000 < j"
    by (simp only: MAX_MESSAGE_GAP_def of_nat_numeral)
qed

text \<open>Which key a chain finds: the gap too big, a skipped key or none, or a new key.\<close>

lemma find_message_key_at:
  assumes "chain_inv K c D rc" "window_inv D skipped" "rc_skipped rc = map (remote_key_at K c) skipped"
    "j < index_limit"
  shows "find_message_key K (of_nat j) rc =
     (if next_index D + 2000 < j then Inl (TooBigMessageGap (of_nat (j - next_index D)) MAX_MESSAGE_GAP)
      else if j < next_index D
      then if j \<in> set skipped then Inr (Existing (remote_key_at K c j)) else Inl (MissingMessageKey (of_nat j))
      else Inr (New (chain_at K c (Suc j))
        (map (remote_key_at K c) [max (next_index D) (j - MAX_MESSAGE_KEYS)..<j]) (remote_key_at K c j)))"
proof -
  have n: "next_index D \<le> index_limit" "rc_hkdf_ratchet rc = chain_at K c (next_index D)"
    using assms(1) by (simp_all add: chain_inv_def)
  have lim: "\<forall>i\<in>set skipped. i \<le> index_limit" using window_inv_limit [OF assms(2) n(1)] by blast
  have "skip_keys K (of_nat j) (chain_at K c (next_index D)) [] =
      (chain_at K c j, map (remote_key_at K c) [max (next_index D) (j - MAX_MESSAGE_KEYS)..<j])"
    if "\<not> j < next_index D" using that assms(4) by (intro skip_keys_at) simp_all
  then show ?thesis
    using n assms(3,4) find_map_key [OF lim, of j K c]
    by (simp add: find_message_key_def gap_at create_remote_message_key_at)
qed

lemma receiver_chain_decrypt_at:
  assumes "aes_law K" "hmac_law K" "chain_inv K c D rc" "j < index_limit"
    and m: "m = seal K config (key_at K ratchet_key c j) text"
  shows "j \<in> D \<Longrightarrow> receiver_chain_decrypt K m config rc = (Inl (MissingMessageKey (of_nat j)), rc)"
    and "next_index D + 2000 < j \<Longrightarrow> receiver_chain_decrypt K m config rc =
      (Inl (TooBigMessageGap (of_nat (j - next_index D)) MAX_MESSAGE_GAP), rc)"
    and "j \<notin> D \<Longrightarrow> next_index D \<le> j + MAX_MESSAGE_KEYS + 1 \<Longrightarrow> j \<le> next_index D + 2000
      \<Longrightarrow> fst (receiver_chain_decrypt K m config rc) = Inr text"
    and "\<And>e. fst (receiver_chain_decrypt K m config rc) = Inl e \<Longrightarrow> snd (receiver_chain_decrypt K m config rc) = rc"
    and "\<And>p. fst (receiver_chain_decrypt K m config rc) = Inr p
      \<Longrightarrow> p = text \<and> j \<notin> D \<and> chain_inv K c (insert j D) (snd (receiver_chain_decrypt K m config rc))
        \<and> rc_ratchet_key (snd (receiver_chain_decrypt K m config rc)) = rc_ratchet_key rc"
proof -
  obtain skipped where s: "window_inv D skipped" "rc_skipped rc = map (remote_key_at K c) skipped"
    and n: "next_index D \<le> index_limit" "rc_hkdf_ratchet rc = chain_at K c (next_index D)"
    using assms(3) by (auto simp: chain_inv_def)
  have fin: "finite D" and len: "length skipped \<le> MAX_MESSAGE_KEYS" and sk: "j \<in> set skipped \<Longrightarrow> j \<notin> D"
    and win: "j < next_index D \<Longrightarrow> j \<notin> D \<Longrightarrow> next_index D \<le> j + MAX_MESSAGE_KEYS + 1 \<Longrightarrow> j \<in> set skipped"
    using s(1) by (simp_all add: window_inv_def)
  have lim: "\<forall>i\<in>set skipped. i \<le> index_limit" using window_inv_limit [OF s(1) n(1)] by blast
  have mi: "om_chain_index m = of_nat j" by (simp add: m)
  note found = find_message_key_at [OF assms(3) s assms(4)]
  note opened = open_seal(1) [OF assms(1,2), of c j config ratchet_key "text", folded m]
    open_seal(2) [OF assms(1,2), of _ _ c j config ratchet_key "text", folded m]
  show "receiver_chain_decrypt K m config rc = (Inl (MissingMessageKey (of_nat j)), rc)" if "j \<in> D"
    using that sk next_index_gt [OF fin that] by (auto simp: receiver_chain_decrypt_def mi found)
  show "receiver_chain_decrypt K m config rc = (Inl (TooBigMessageGap (of_nat (j - next_index D)) MAX_MESSAGE_GAP), rc)"
    if "next_index D + 2000 < j" using that by (simp add: receiver_chain_decrypt_def mi found)
  show "fst (receiver_chain_decrypt K m config rc) = Inr text"
    if "j \<notin> D" "next_index D \<le> j + MAX_MESSAGE_KEYS + 1" "j \<le> next_index D + 2000"
    using that win by (simp add: receiver_chain_decrypt_def mi found opened)
  show "snd (receiver_chain_decrypt K m config rc) = rc" if "fst (receiver_chain_decrypt K m config rc) = Inl e" for e
    using that by (simp add: receiver_chain_decrypt_def split: sum.splits prod.splits found_message_key.splits)
  show "p = text \<and> j \<notin> D \<and> chain_inv K c (insert j D) (snd (receiver_chain_decrypt K m config rc))
      \<and> rc_ratchet_key (snd (receiver_chain_decrypt K m config rc)) = rc_ratchet_key rc"
    if "fst (receiver_chain_decrypt K m config rc) = Inr p" for p
  proof (cases "j < next_index D")
    case True
    with that have "j \<in> set skipped" "p = text"
      by (auto simp: receiver_chain_decrypt_def mi found opened split: if_splits)
    then show ?thesis
      using True s n fin sk assms(4) window_inv_existing [OF s(1) True] lim
      by (auto simp: receiver_chain_decrypt_def mi found opened chain_inv_def next_index_insert remove_map_key)
  next
    case False
    with that have gap: "\<not> next_index D + 2000 < j" and p: "p = text"
      by (auto simp: receiver_chain_decrypt_def mi found opened split: if_splits)
    have "j \<notin> D" using False next_index_gt [OF fin] by blast
    with False gap p show ?thesis
      using s n fin assms(4) window_inv_new [OF s(1), of j]
      by (auto simp: receiver_chain_decrypt_def mi found opened chain_inv_def next_index_insert
          key_store_merge_map [OF len])
  qed
qed

end
