(* ===== verification/Olm_Conversation.thy ===== *)
theory Olm_Conversation
  imports Olm_Account Olm_Chain
begin

text \<open>
  Two Olm sessions talking to each other over a network that loses, reorders and repeats messages. The
  conversation is described by its epochs: epoch 0 is Alice's first sending chain, and every change of
  direction starts the next, with a fresh ratchet key and the root key of the epoch before. The
  invariant says where in the sequence of epochs both sides are, and that the receiving chains of a
  side are those of the last five epochs of the other.
\<close>

section \<open>Conversations\<close>

datatype side = Alice | Bob

fun other :: "side \<Rightarrow> side" where
  "other Alice = Bob"
| "other Bob = Alice"

fun parity :: "side \<Rightarrow> nat" where
  "parity Alice = 0"
| "parity Bob = 1"

text \<open>
  Both sessions, what each side has sent, with the plaintexts, and the positions of the messages of the
  other side that each side has decrypted.
\<close>

record conversation =
  cv_session :: "side \<Rightarrow> olm_session"
  cv_sent :: "side \<Rightarrow> (olm_message \<times> string) list"
  cv_got :: "side \<Rightarrow> nat list"

fun inner_message :: "olm_message \<Rightarrow> normal_message" where
  "inner_message (OlmNormal m) = m"
| "inner_message (OlmPreKey m) = pk_message m"

text \<open>A message by its position: its ratchet key and its index in the chain of that key.\<close>

definition sent_key :: "conversation \<Rightarrow> side \<Rightarrow> nat \<Rightarrow> string" where
  "sent_key cv q k = om_ratchet_key (inner_message (fst (cv_sent cv q ! k)))"

definition sent_index :: "conversation \<Rightarrow> side \<Rightarrow> nat \<Rightarrow> nat" where
  "sent_index cv q k = unat (om_chain_index (inner_message (fst (cv_sent cv q ! k))))"

text \<open>
  The indices that side \<open>p\<close> has decrypted in the chain of message \<open>k\<close>; and whether that chain is
  forgotten, since messages of five later chains were decrypted.
\<close>

definition got_indices :: "conversation \<Rightarrow> side \<Rightarrow> nat \<Rightarrow> nat set" where
  "got_indices cv p k =
     set (map (sent_index cv (other p))
       (filter (\<lambda>i. sent_key cv (other p) i = sent_key cv (other p) k) (cv_got cv p)))"

definition forgotten :: "conversation \<Rightarrow> side \<Rightarrow> nat \<Rightarrow> bool" where
  "forgotten cv p k \<longleftrightarrow>
     MAX_RECEIVING_CHAINS \<le> card (set (map (sent_key cv (other p))
       (filter (\<lambda>i. k < i \<and> sent_key cv (other p) i \<noteq> sent_key cv (other p) k) (cv_got cv p))))"

text \<open>
  A side sends a text, or the network hands a message of the other side to it, any message of a chain
  that is not forgotten, as often as it likes. A step takes the random key that may be drawn.
\<close>

datatype conversation_step = Send side string string | Deliver side nat string

fun step_fresh :: "conversation_step \<Rightarrow> string" where
  "step_fresh (Send _ _ fresh) = fresh"
| "step_fresh (Deliver _ _ fresh) = fresh"

fun converse :: "'a olm_crypto_scheme \<Rightarrow> conversation_step \<Rightarrow> conversation \<Rightarrow> conversation" where
  "converse K (Send p plaintext fresh) cv =
     (case olm_encrypt K fresh plaintext (cv_session cv p) of
        (Inr m, s) \<Rightarrow>
          cv\<lparr>cv_session := (cv_session cv)(p := s),
             cv_sent := (cv_sent cv)(p := cv_sent cv p @ [(m, plaintext)])\<rparr>
      | (Inl _, s) \<Rightarrow> cv\<lparr>cv_session := (cv_session cv)(p := s)\<rparr>)"
| "converse K (Deliver p k fresh) cv =
     (if k < length (cv_sent cv (other p)) \<and> \<not> forgotten cv p k
      then
        (case olm_decrypt K fresh (fst (cv_sent cv (other p) ! k)) (cv_session cv p) of
           (Inr _, s) \<Rightarrow>
             cv\<lparr>cv_session := (cv_session cv)(p := s), cv_got := (cv_got cv)(p := cv_got cv p @ [k])\<rparr>
         | (Inl _, s) \<Rightarrow> cv\<lparr>cv_session := (cv_session cv)(p := s)\<rparr>)
      else cv)"

text \<open>
  The start: Alice's session from \<open>create_outbound_session\<close>, and the session that Bob makes
  of the keys in her messages, before it has decrypted one.
\<close>

definition conversation_start :: "olm_session \<Rightarrow> olm_session \<Rightarrow> conversation" where
  "conversation_start alice bob =
     \<lparr>cv_session = (\<lambda>p. case p of Alice \<Rightarrow> alice | Bob \<Rightarrow> bob), cv_sent = (\<lambda>_. []), cv_got = (\<lambda>_. [])\<rparr>"

section \<open>Epochs\<close>

text \<open>Root key and chain key of each epoch, given the secret ratchet keys of all and the first pair.\<close>

fun epoch_keys :: "'a olm_crypto_scheme \<Rightarrow> string \<times> string \<Rightarrow> string list \<Rightarrow> nat \<Rightarrow> string \<times> string" where
  "epoch_keys K base ts 0 = base"
| "epoch_keys K base ts (Suc i) =
     (let output = k_hkdf K (fst (epoch_keys K base ts i))
            (k_x25519 K (ts ! Suc i) (k_x25519_public K (ts ! i))) ''OLM_RATCHET'' 64
      in (take 32 output, drop 32 output))"

abbreviation "epoch_root K base ts i \<equiv> fst (epoch_keys K base ts i)"
abbreviation "epoch_chain K base ts i \<equiv> snd (epoch_keys K base ts i)"
abbreviation "epoch_public K ts i \<equiv> k_x25519_public K (ts ! i)"

lemma epoch_keys_append: "i < length ts \<Longrightarrow> epoch_keys K base (ts @ xs) i = epoch_keys K base ts i"
  by (induction i) (simp_all add: nth_append)

lemma activate_at:
  assumes "x25519_law K" "length ts = Suc i" "ir_root_key r = epoch_root K base ts i"
    "ir_ratchet_key r = epoch_public K ts i"
  shows "activate K fresh r =
    Some \<lparr>ar_parent_ratchet_key = Some (epoch_public K ts i),
          ar_ratchet_count = ratchet_count_advance (ir_ratchet_count r),
          ar_active_ratchet = \<lparr>or_root_key = epoch_root K base (ts @ [fresh]) (Suc i), or_ratchet_key = fresh\<rparr>,
          ar_symmetric_key_ratchet = chain_at K (epoch_chain K base (ts @ [fresh]) (Suc i)) 0\<rparr>"
  using assms by (simp add: activate_def remote_root_key_advance_def root_kdf_def diffie_hellman_def x25519_law_def
      epoch_keys_append Let_def nth_append)

lemma active_advance_at:
  assumes "x25519_law K" "Suc i < length ts" "or_root_key (ar_active_ratchet r) = epoch_root K base ts i"
    "or_ratchet_key (ar_active_ratchet r) = ts ! i"
  shows "active_advance K (epoch_public K ts (Suc i)) r =
    Some (\<lparr>ir_root_key = epoch_root K base ts (Suc i), ir_ratchet_key = epoch_public K ts (Suc i),
           ir_ratchet_count = ratchet_count_advance (ar_ratchet_count r)\<rparr>,
          receiver_chain_new (epoch_public K ts (Suc i)) (chain_key_new (epoch_chain K base ts (Suc i)))
            (ratchet_count_advance (ar_ratchet_count r)))"
proof -
  have "k_x25519 K (ts ! i) (epoch_public K ts (Suc i)) = k_x25519 K (ts ! Suc i) (epoch_public K ts i)"
    using assms(1) by (simp add: x25519_law_def)
  then show ?thesis
    using assms by (simp add: active_advance_def olm_ratchet_advance_def root_key_advance_def root_kdf_def
        diffie_hellman_def x25519_law_def Let_def)
qed

declare epoch_keys.simps(2) [simp del]

section \<open>The invariant\<close>

text \<open>
  \<open>n\<close> is the last epoch, whose owner is sending in it; the other side waits for it, \<open>rcvd\<close>, or is still in
  its own epoch before. The position of a side is an epoch and whether it is its own.
\<close>

definition position :: "nat \<Rightarrow> bool \<Rightarrow> side \<Rightarrow> nat \<times> bool" where
  "position n rcvd p = (if n mod 2 = parity p then (n, True) else if rcvd then (n, False) else (n - 1, True))"

definition sent_in :: "(nat \<times> nat) list \<Rightarrow> nat \<Rightarrow> nat" where
  "sent_in co e = length (filter (\<lambda>x. fst x = e) co)"

fun sending_inv :: "'a olm_crypto_scheme \<Rightarrow> string \<times> string \<Rightarrow> string list \<Rightarrow> nat \<times> bool \<Rightarrow> nat \<Rightarrow> double_ratchet \<Rightarrow> bool" where
  "sending_inv K base ts (lvl, act) sent (Active r) \<longleftrightarrow> act
     \<and> or_root_key (ar_active_ratchet r) = epoch_root K base ts lvl
     \<and> or_ratchet_key (ar_active_ratchet r) = ts ! lvl
     \<and> ar_symmetric_key_ratchet r = chain_at K (epoch_chain K base ts lvl) sent"
| "sending_inv K base ts (lvl, act) sent (Inactive r) \<longleftrightarrow> \<not> act
     \<and> ir_root_key r = epoch_root K base ts lvl \<and> ir_ratchet_key r = epoch_public K ts lvl"

definition epochs_before :: "side \<Rightarrow> nat \<Rightarrow> nat list" where
  "epochs_before p b = filter (\<lambda>e. e mod 2 \<noteq> parity p) [0..<b]"

fun known_epochs :: "nat \<times> bool \<Rightarrow> nat" where
  "known_epochs (lvl, act) = (if act then lvl else Suc lvl)"

text \<open>The indices decrypted in an epoch, from the coordinates of the messages that were decrypted.\<close>

definition decrypted :: "(nat \<times> nat) list \<Rightarrow> nat list \<Rightarrow> nat \<Rightarrow> nat set" where
  "decrypted co got e = {j. (e, j) \<in> (\<lambda>k. co ! k) ` set got}"

definition chain_ok :: "'a olm_crypto_scheme \<Rightarrow> string \<times> string \<Rightarrow> string list \<Rightarrow> (nat \<Rightarrow> nat set) \<Rightarrow> nat \<Rightarrow> receiver_chain \<Rightarrow> bool" where
  "chain_ok K base ts D e rc \<longleftrightarrow> rc_ratchet_key rc = epoch_public K ts e \<and> chain_inv K (epoch_chain K base ts e) (D e) rc"

definition receiving_inv :: "'a olm_crypto_scheme \<Rightarrow> string \<times> string \<Rightarrow> string list \<Rightarrow> side \<Rightarrow> nat \<Rightarrow> (nat \<Rightarrow> nat set)
    \<Rightarrow> receiver_chain list \<Rightarrow> bool" where
  "receiving_inv K base ts p b D rcs \<longleftrightarrow>
     list_all2 (chain_ok K base ts D) (last_n MAX_RECEIVING_CHAINS (epochs_before p b)) rcs
     \<and> (\<forall>e \<ge> b. D e = {}) \<and> (\<forall>e\<in>set (epochs_before p b). e \<noteq> 0 \<longrightarrow> D e \<noteq> {})"

definition sent_ok :: "'a olm_crypto_scheme \<Rightarrow> olm_config \<Rightarrow> string \<times> string \<Rightarrow> string list \<Rightarrow> nat \<times> nat
    \<Rightarrow> olm_message \<times> string \<Rightarrow> bool" where
  "sent_ok K config base ts x m \<longleftrightarrow> fst x < length ts \<and>
     inner_message (fst m) =
       seal K config (key_at K (epoch_public K ts (fst x)) (epoch_chain K base ts (fst x)) (snd x)) (snd m)"

definition before :: "nat \<times> nat \<Rightarrow> nat \<times> nat \<Rightarrow> bool" where
  "before x y \<longleftrightarrow> fst x < fst y \<or> fst x = fst y \<and> snd x < snd y"

definition coordinates_inv :: "side \<Rightarrow> (nat \<times> nat) list \<Rightarrow> bool" where
  "coordinates_inv q co \<longleftrightarrow> sorted_wrt before co \<and> (\<forall>x\<in>set co. fst x mod 2 = parity q \<and> snd x < sent_in co (fst x))"

definition side_inv :: "'a olm_crypto_scheme \<Rightarrow> olm_config \<Rightarrow> string \<times> string \<Rightarrow> string list \<Rightarrow> bool
    \<Rightarrow> (side \<Rightarrow> (nat \<times> nat) list) \<Rightarrow> conversation \<Rightarrow> side \<Rightarrow> bool" where
  "side_inv K config base ts rcvd co cv p \<longleftrightarrow>
     (let pos = position (length ts - 1) rcvd p; s = cv_session cv p
      in os_config s = config
         \<and> sending_inv K base ts pos (sent_in (co p) (fst pos)) (os_sending_ratchet s)
         \<and> receiving_inv K base ts p (known_epochs pos) (decrypted (co (other p)) (cv_got cv p)) (os_receiving_chains s)
         \<and> coordinates_inv p (co p) \<and> length (co p) \<le> index_limit
         \<and> list_all2 (sent_ok K config base ts) (co p) (cv_sent cv p)
         \<and> set (cv_got cv p) \<subseteq> {..<length (cv_sent cv (other p))})"

definition conversation_inv :: "'a olm_crypto_scheme \<Rightarrow> olm_config \<Rightarrow> string \<times> string \<Rightarrow> string list \<Rightarrow> bool
    \<Rightarrow> (side \<Rightarrow> (nat \<times> nat) list) \<Rightarrow> conversation \<Rightarrow> bool" where
  "conversation_inv K config base ts rcvd co cv \<longleftrightarrow>
     ts \<noteq> [] \<and> distinct (map (k_x25519_public K) ts) \<and> (length ts = 1 \<longrightarrow> rcvd)
     \<and> (\<forall>p. side_inv K config base ts rcvd co cv p)"

lemma other_other [simp]: "other (other p) = p" "other p \<noteq> p" "p \<noteq> other p"
  by (cases p; simp)+

lemma side_cases: "q = p \<or> q = other p"
  by (cases p; cases q; simp)

lemma parity_other: "parity (other p) = 1 - parity p" "parity p < 2" "parity p \<noteq> parity (other p)"
  by (cases p; simp)+

lemma mod2_parity: "e mod 2 \<noteq> parity p \<longleftrightarrow> e mod 2 = parity (other p)"
  by (cases p) auto

lemma parity_Suc: "Suc n mod 2 = parity p \<longleftrightarrow> n mod 2 \<noteq> parity p"
  by (cases p; simp; presburger)

lemma epochs_before_simps:
  "epochs_before p (Suc b) = epochs_before p b @ (if b mod 2 \<noteq> parity p then [b] else [])"
  "e \<in> set (epochs_before p b) \<longleftrightarrow> e < b \<and> e mod 2 \<noteq> parity p"
  "sorted_wrt (<) (epochs_before p b)"
  by (auto simp: epochs_before_def sorted_wrt_filter)

lemma sent_in_append: "sent_in (co @ [x]) e = sent_in co e + (if fst x = e then 1 else 0)"
  by (simp add: sent_in_def)

lemma sent_in_le: "sent_in co e \<le> length co"
  by (simp add: sent_in_def)

lemma sending_inv_append:
  "fst pos < length ts \<Longrightarrow> sending_inv K base (ts @ xs) pos n d \<longleftrightarrow> sending_inv K base ts pos n d"
  by (cases pos; cases d) (simp_all add: epoch_keys_append nth_append)

lemma receiving_inv_append:
  assumes "b \<le> length ts"
  shows "receiving_inv K base (ts @ xs) p b D rcs \<longleftrightarrow> receiving_inv K base ts p b D rcs"
proof -
  have "chain_ok K base (ts @ xs) D e rc \<longleftrightarrow> chain_ok K base ts D e rc" if "e \<in> set (last_n 5 (epochs_before p b))" for e rc
    using that assms set_last_n [of 5 "epochs_before p b"]
    by (auto simp: chain_ok_def epoch_keys_append nth_append epochs_before_simps)
  then have "list_all2 (chain_ok K base (ts @ xs) D) (last_n 5 (epochs_before p b)) rcs
      = list_all2 (chain_ok K base ts D) (last_n 5 (epochs_before p b)) rcs"
    by (intro list.rel_cong) auto
  then show ?thesis by (simp add: receiving_inv_def MAX_RECEIVING_CHAINS_def)
qed

lemma sent_ok_append: "sent_ok K config base ts x m \<Longrightarrow> sent_ok K config base (ts @ xs) x m"
  by (simp add: sent_ok_def epoch_keys_append nth_append)

section \<open>Sending\<close>

lemma olm_encrypt_key:
  assumes "next_message_key K fresh (os_sending_ratchet s) = (Some key, d)"
  shows "\<exists>m. olm_encrypt K fresh plaintext s = (Inr m, s\<lparr>os_sending_ratchet := d\<rparr>)
    \<and> inner_message m = seal K (os_config s) key plaintext"
  using assms by (auto simp: olm_encrypt_def double_ratchet_encrypt_def double_ratchet_encrypt_truncated_mac_def
      seal_def Let_def split: olm_version.splits)

lemma next_message_key_active:
  assumes "sending_inv K base ts (lvl, True) j d"
  shows "\<exists>d'. next_message_key K fresh d = (Some (key_at K (epoch_public K ts lvl) (epoch_chain K base ts lvl) j), d')
    \<and> sending_inv K base ts (lvl, True) (Suc j) d'"
  using assms by (cases d) (auto simp: next_message_key_def active_next_message_key_def create_message_key_at)

lemma next_message_key_inactive:
  assumes "x25519_law K" "sending_inv K base ts (lvl, False) j d" "length ts = Suc lvl"
    and ts': "ts' = ts @ [fresh]"
  shows "\<exists>d'. next_message_key K fresh d =
      (Some (key_at K (epoch_public K ts' (Suc lvl)) (epoch_chain K base ts' (Suc lvl)) 0), d')
    \<and> sending_inv K base ts' (Suc lvl, True) 1 d'"
proof -
  obtain r where r: "d = Inactive r" "ir_root_key r = epoch_root K base ts lvl" "ir_ratchet_key r = epoch_public K ts lvl"
    using assms(2) by (cases d) auto
  have new: "ts' ! Suc lvl = fresh" using assms(3) by (simp add: ts' nth_append)
  show ?thesis unfolding r(1) next_message_key_def
    using activate_at [OF assms(1,3) r(2,3), of fresh, folded ts'] new
      create_message_key_at [of K "epoch_public K ts' (Suc lvl)" "epoch_chain K base ts' (Suc lvl)" 0]
    by (simp add: active_next_message_key_def del: epoch_keys.simps chain_at_0)
qed

lemma position_owner: "position n rcvd p = (lvl, True) \<Longrightarrow> n = 0 \<longrightarrow> rcvd \<Longrightarrow> lvl \<le> n \<and> lvl mod 2 = parity p"
  by (cases p) (auto simp: position_def mod2_eq_if split: if_splits)

lemma position_owner_max: "position n rcvd p = (lvl, True) \<Longrightarrow> e \<le> n \<Longrightarrow> e mod 2 = parity p \<Longrightarrow> e \<le> lvl"
  by (cases "e = n") (auto simp: position_def split: if_splits)

lemma position_waiting: "position n rcvd p = (lvl, False) \<Longrightarrow> lvl = n \<and> n mod 2 \<noteq> parity p \<and> rcvd"
  by (auto simp: position_def split: if_splits)

lemma position_next:
  assumes "position n rcvd p = (lvl, act)" "\<not> e < known_epochs (lvl, act)" "e \<le> n" "e mod 2 \<noteq> parity p" "n = 0 \<longrightarrow> rcvd"
  shows "act" "\<not> rcvd" "e = n" "n = Suc lvl"
proof -
  have n: "n mod 2 \<noteq> parity p" using assms by (cases "e = n") (auto simp: position_def split: if_splits)
  then have r: "act" "\<not> rcvd" "lvl = n - 1" using assms(1-3) by (auto simp: position_def split: if_splits)
  then have pos: "n = Suc lvl" using assms(5) by (cases n) auto
  moreover have "e \<noteq> lvl" using n assms(4) parity_Suc [of lvl p] unfolding pos by auto
  ultimately show "act" "\<not> rcvd" "e = n" "n = Suc lvl" using r assms(2,3) by auto
qed

lemma position_le: "fst (position n rcvd p) \<le> n" "known_epochs (position n rcvd p) \<le> Suc n"
  by (auto simp: position_def)

lemma position_Suc:
  assumes "position n rcvd p = (lvl, False)"
  shows "position (Suc n) False p = (Suc n, True)" "position (Suc n) False (other p) = position n rcvd (other p)"
    "known_epochs (Suc n, True) = known_epochs (position n rcvd p)"
  using assms by (cases p; auto simp: position_def mod2_eq_if split: if_splits)+

lemma coordinates_inv_append:
  assumes "coordinates_inv q co" "e mod 2 = parity q" "\<forall>x\<in>set co. fst x \<le> e"
  shows "coordinates_inv q (co @ [(e, sent_in co e)])"
  using assms by (force simp: coordinates_inv_def sorted_wrt_append before_def sent_in_append)

lemma decrypted_iff: "j \<in> decrypted co got e \<longleftrightarrow> (\<exists>k\<in>set got. co ! k = (e, j))"
  by (auto simp: decrypted_def image_iff eq_commute)

lemma decrypted_append: "set got \<subseteq> {..<length co} \<Longrightarrow> decrypted (co @ xs) got = decrypted co got"
  by (auto simp: decrypted_def fun_eq_iff nth_append image_iff subset_iff)

lemma conversation_inv_sent:
  assumes inv: "conversation_inv K config base ts rcvd co cv"
    and enc: "olm_encrypt K fresh plaintext (cv_session cv p) = (Inr m, (cv_session cv p)\<lparr>os_sending_ratchet := d\<rparr>)"
    and ts': "ts' = ts @ xs" "distinct (map (k_x25519_public K) ts')" "length ts' = 1 \<longrightarrow> rcvd'"
    and lvl: "position (length ts' - 1) rcvd' p = (lvl, True)" "lvl < length ts'" "lvl mod 2 = parity p"
      "known_epochs (lvl, True) = known_epochs (position (length ts - 1) rcvd p)" "\<forall>x\<in>set (co p). fst x \<le> lvl"
    and pos: "position (length ts' - 1) rcvd' (other p) = position (length ts - 1) rcvd (other p)"
    and j: "j = sent_in (co p) lvl" "length (co p) < index_limit"
    and sends: "inner_message m = seal K config (key_at K (epoch_public K ts' lvl) (epoch_chain K base ts' lvl) j) plaintext"
      "sending_inv K base ts' (lvl, True) (Suc j) d"
  shows "conversation_inv K config base ts' rcvd' (co(p := co p @ [(lvl, j)])) (converse K (Send p plaintext fresh) cv)"
proof -
  let ?co = "co(p := co p @ [(lvl, j)])" and ?cv = "converse K (Send p plaintext fresh) cv"
  let ?n = "length ts - 1"
  have cv: "?cv = cv\<lparr>cv_session := (cv_session cv)(p := (cv_session cv p)\<lparr>os_sending_ratchet := d\<rparr>),
      cv_sent := (cv_sent cv)(p := cv_sent cv p @ [(m, plaintext)])\<rparr>"
    by (simp add: enc)
  have ne: "ts \<noteq> []" and side: "side_inv K config base ts rcvd co cv q" for q
    using inv by (simp_all add: conversation_inv_def)
  have le: "fst (position ?n rcvd q) < length ts" "known_epochs (position ?n rcvd q) \<le> length ts" for q
    using ne position_le [of ?n rcvd q] by (cases ts, simp_all)+
  have old: "list_all2 (sent_ok K config base ts') (co q) (cv_sent cv q)" for q
    using side [of q] unfolding side_inv_def Let_def ts'(1)
    by (auto intro: list_all2_mono sent_ok_append)
  have new: "sent_ok K config base ts' (lvl, j) (m, plaintext)" using lvl(2) sends(1) by (simp add: sent_ok_def)
  have got: "decrypted (?co (other q)) (cv_got cv q) = decrypted (co (other q)) (cv_got cv q)" for q
    using side [of q] side [of "other q"] by (auto simp: side_inv_def Let_def decrypted_append list_all2_lengthD)
  have rec: "receiving_inv K base ts' q (known_epochs (position ?n rcvd q)) (decrypted (co (other q)) (cv_got cv q))
      (os_receiving_chains (cv_session cv q))" for q
    using side [of q] le unfolding ts'(1) by (simp add: side_inv_def Let_def receiving_inv_append)
  have co: "coordinates_inv p (co p @ [(lvl, j)])"
    using side [of p] lvl(3,5) unfolding j(1) by (intro coordinates_inv_append) (simp_all add: side_inv_def Let_def)
  have sents: "list_all2 (sent_ok K config base ts') (co p @ [(lvl, j)]) (cv_sent cv p @ [(m, plaintext)])"
    using old new by (intro list_all2_appendI) simp_all
  have "side_inv K config base ts' rcvd' ?co ?cv p"
    using side [of p] rec [of p] got [of p] sents co j sends(2) unfolding cv lvl(4) [symmetric]
    by (simp add: side_inv_def Let_def lvl(1) [unfolded One_nat_def] sent_in_append)
  moreover have "side_inv K config base ts' rcvd' ?co ?cv (other p)"
    using side [of "other p"] rec [of "other p"] got [of "other p"] old [of "other p"]
      sending_inv_append [OF le(1) [of "other p"], of K base xs, folded ts'(1)] unfolding cv
    by (auto simp: side_inv_def Let_def pos [unfolded One_nat_def])
  ultimately have "side_inv K config base ts' rcvd' ?co ?cv q" for q using side_cases [of q p] by auto
  then show ?thesis using ne ts' by (simp add: conversation_inv_def)
qed

lemma coordinates_le:
  assumes "conversation_inv K config base ts rcvd co cv" "x \<in> set (co p)"
  shows "fst x < length ts" "fst x mod 2 = parity p"
proof -
  have "list_all2 (sent_ok K config base ts) (co p) (cv_sent cv p)" "coordinates_inv p (co p)"
    using assms(1) by (simp_all add: conversation_inv_def side_inv_def Let_def)
  with assms(2) show "fst x < length ts" "fst x mod 2 = parity p"
    by (auto simp: list_all2_conv_all_nth in_set_conv_nth sent_ok_def coordinates_inv_def)
qed

lemma side_facts:
  assumes "conversation_inv K config base ts rcvd co cv" "position (length ts - 1) rcvd p = (lvl, act)"
  shows "ts \<noteq> []" "distinct (map (k_x25519_public K) ts)" "length ts = 1 \<longrightarrow> rcvd" "os_config (cv_session cv p) = config"
    "sending_inv K base ts (lvl, act) (sent_in (co p) lvl) (os_sending_ratchet (cv_session cv p))"
    "receiving_inv K base ts p (known_epochs (lvl, act)) (decrypted (co (other p)) (cv_got cv p))
       (os_receiving_chains (cv_session cv p))"
    "length (co p) = length (cv_sent cv p)" "side_inv K config base ts rcvd co cv q"
  using assms by (auto simp: conversation_inv_def side_inv_def Let_def list_all2_lengthD dest: spec [of _ p])

text \<open>A step of sending keeps the invariant: in the epoch of the sender, or in a new one when it was waiting.\<close>

lemma send_active:
  assumes inv: "conversation_inv K config base ts rcvd co cv" and len: "length (co p) < index_limit"
    and act: "position (length ts - 1) rcvd p = (lvl, True)"
  shows "conversation_inv K config base ts rcvd (co(p := co p @ [(lvl, sent_in (co p) lvl)])) (converse K (Send p plaintext fresh) cv)"
proof -
  note facts = side_facts [OF inv act]
  have lvl: "lvl < length ts" "lvl mod 2 = parity p"
    using position_owner [OF act] facts(1,3) by (cases ts; simp)+
  have le: "fst x \<le> lvl" if "x \<in> set (co p)" for x
    using coordinates_le [OF inv that] by (intro position_owner_max [OF act]) simp_all
  from next_message_key_active [OF facts(5), of fresh] obtain d
    where d: "next_message_key K fresh (os_sending_ratchet (cv_session cv p)) =
        (Some (key_at K (epoch_public K ts lvl) (epoch_chain K base ts lvl) (sent_in (co p) lvl)), d)"
      "sending_inv K base ts (lvl, True) (Suc (sent_in (co p) lvl)) d" by blast
  from olm_encrypt_key [OF d(1), of plaintext] facts(4) obtain m
    where m: "olm_encrypt K fresh plaintext (cv_session cv p) = (Inr m, (cv_session cv p)\<lparr>os_sending_ratchet := d\<rparr>)"
      "inner_message m = seal K config (key_at K (epoch_public K ts lvl) (epoch_chain K base ts lvl) (sent_in (co p) lvl)) plaintext"
    by blast
  show ?thesis
    using conversation_inv_sent [OF inv, of fresh plaintext p m d ts "[]" rcvd lvl "sent_in (co p) lvl"] m d(2) facts act lvl le len
    by simp
qed

lemma send_waiting:
  assumes "x25519_law K" and inv: "conversation_inv K config base ts rcvd co cv" and len: "length (co p) < index_limit"
    and fresh: "k_x25519_public K fresh \<notin> k_x25519_public K ` set ts"
    and act: "position (length ts - 1) rcvd p = (lvl, False)"
  shows "conversation_inv K config base (ts @ [fresh]) False (co(p := co p @ [(Suc lvl, 0)])) (converse K (Send p plaintext fresh) cv)"
proof -
  let ?ts = "ts @ [fresh]"
  note facts = side_facts [OF inv act]
  have n: "length ts = Suc lvl" "Suc lvl mod 2 = parity p"
    using position_waiting [OF act] facts(1) unfolding parity_Suc by (cases ts; simp)+
  note w = position_Suc [OF act, unfolded n diff_Suc_1]
  have le: "fst x \<le> Suc lvl" if "x \<in> set (co p)" for x using coordinates_le [OF inv that] n by simp
  have zero: "sent_in (co p) (Suc lvl) = 0"
    using coordinates_le(1) [OF inv, of _ p] n by (fastforce simp: sent_in_def filter_empty_conv)
  from next_message_key_inactive [OF assms(1) facts(5) n(1) refl, of fresh] obtain d
    where d: "next_message_key K fresh (os_sending_ratchet (cv_session cv p)) =
        (Some (key_at K (epoch_public K ?ts (Suc lvl)) (epoch_chain K base ?ts (Suc lvl)) 0), d)"
      "sending_inv K base ?ts (Suc lvl, True) 1 d" by blast
  from olm_encrypt_key [OF d(1), of plaintext] facts(4) obtain m
    where m: "olm_encrypt K fresh plaintext (cv_session cv p) = (Inr m, (cv_session cv p)\<lparr>os_sending_ratchet := d\<rparr>)"
      "inner_message m = seal K config (key_at K (epoch_public K ?ts (Suc lvl)) (epoch_chain K base ?ts (Suc lvl)) 0) plaintext"
    by blast
  show ?thesis
  proof (rule conversation_inv_sent [OF inv m(1) refl])
    show "distinct (map (k_x25519_public K) ?ts)" using facts(2) fresh by auto
    show "position (length ?ts - 1) False p = (Suc lvl, True)" using w(1) n by simp
    show "known_epochs (Suc lvl, True) = known_epochs (position (length ts - 1) rcvd p)" unfolding act by simp
    show "position (length ?ts - 1) False (other p) = position (length ts - 1) rcvd (other p)" using w(2) n by simp
    show "sending_inv K base ?ts (Suc lvl, True) (Suc 0) d" using d(2) by simp
  qed (use n le len zero m(2) in simp_all)
qed

lemma send_inv:
  assumes "x25519_law K" "conversation_inv K config base ts rcvd co cv" "length (co p) < index_limit"
    "k_x25519_public K fresh \<notin> k_x25519_public K ` set ts"
  shows "\<exists>ts' rcvd' co'. conversation_inv K config base ts' rcvd' co' (converse K (Send p plaintext fresh) cv)
    \<and> set ts' \<subseteq> insert fresh (set ts)"
proof (cases "position (length ts - 1) rcvd p")
  case (Pair lvl act)
  show ?thesis
  proof (cases act)
    case True
    with send_active [OF assms(2,3)] Pair have "conversation_inv K config base ts rcvd
      (co(p := co p @ [(lvl, sent_in (co p) lvl)])) (converse K (Send p plaintext fresh) cv)" by simp
    then show ?thesis by blast
  next
    case False
    with send_waiting [OF assms(1-4)] Pair have "conversation_inv K config base (ts @ [fresh]) False
      (co(p := co p @ [(Suc lvl, 0)])) (converse K (Send p plaintext fresh) cv)" by simp
    moreover have "set (ts @ [fresh]) \<subseteq> insert fresh (set ts)" by simp
    ultimately show ?thesis by blast
  qed
qed

section \<open>Receiving\<close>

lemma chain_store_find_nth:
  assumes "i < length cs" "belongs_to (cs ! i) key" "\<forall>j<i. \<not> belongs_to (cs ! j) key"
  shows "chain_store_find key f cs = Some (fst (f (cs ! i)), cs[i := snd (f (cs ! i))])"
  using assms
proof (induction cs arbitrary: i)
  case (Cons c cs)
  show ?case
  proof (cases i)
    case 0
    with Cons.prems show ?thesis by (simp add: case_prod_beta)
  next
    case (Suc i')
    with Cons.prems(3) have "\<not> belongs_to c key" "\<forall>j<i'. \<not> belongs_to (cs ! j) key" by auto
    with Suc Cons.prems Cons.IH [of i'] show ?thesis by simp
  qed
qed simp

lemma chain_store_find_None: "\<forall>c\<in>set cs. \<not> belongs_to c key \<Longrightarrow> chain_store_find key f cs = None"
  by (induction cs) auto

lemma distinct_public:
  "distinct (map (k_x25519_public K) ts) \<Longrightarrow> i < length ts \<Longrightarrow> j < length ts \<Longrightarrow>
    epoch_public K ts i = epoch_public K ts j \<longleftrightarrow> i = j"
  using nth_eq_iff_index_eq [of "map (k_x25519_public K) ts" i j] by simp

lemma decrypt_stored:
  assumes laws: "aes_law K" "hmac_law K" and dist: "distinct (map (k_x25519_public K) ts)" and b: "b \<le> length ts"
    and rec: "receiving_inv K base ts p b D (os_receiving_chains s)"
    and e: "e \<in> set (last_n MAX_RECEIVING_CHAINS (epochs_before p b))" and j: "j < index_limit"
    and m: "m = seal K (os_config s) (key_at K (epoch_public K ts e) (epoch_chain K base ts e) j) plaintext"
  shows "\<exists>rc rcs. chain_inv K (epoch_chain K base ts e) (D e) rc
    \<and> olm_decrypt_decoded K fresh m s =
        (fst (receiver_chain_decrypt K m (os_config s) rc), s\<lparr>os_receiving_chains := rcs\<rparr>)
    \<and> (\<forall>err. fst (receiver_chain_decrypt K m (os_config s) rc) = Inl err \<longrightarrow> rcs = os_receiving_chains s)
    \<and> (\<forall>t. fst (receiver_chain_decrypt K m (os_config s) rc) = Inr t
        \<longrightarrow> receiving_inv K base ts p b (D(e := insert j (D e))) rcs)"
proof -
  define es where "es = last_n MAX_RECEIVING_CHAINS (epochs_before p b)"
  let ?cs = "os_receiving_chains s"
  obtain i where i: "i < length es" "es ! i = e" using e unfolding es_def by (metis in_set_conv_nth)
  have all: "list_all2 (chain_ok K base ts D) es ?cs" using rec by (simp add: receiving_inv_def es_def)
  then have len: "length es = length ?cs" by (rule list_all2_lengthD)
  note ok = list_all2_nthD2 [OF all]
  have es: "sorted_wrt (<) es" "\<forall>x\<in>set es. x < length ts"
    using epochs_before_simps(2,3) [where p = p and b = b] set_last_n b unfolding es_def by (force intro: sorted_last_n)+
  have lt: "e < length ts" using es(2) i by (metis nth_mem)
  have neq: "es ! k \<noteq> e" if "k < length es" "k \<noteq> i" for k
    using es(1) that i by (metis nth_eq_iff_index_eq strict_sorted_iff)
  have "\<not> belongs_to (?cs ! k) (epoch_public K ts e)" if "k < length ?cs" "k \<noteq> i" for k
    using ok [OF that(1)] neq [of k] that len es(2) lt i distinct_public [OF dist, of "es ! k" e]
    by (simp add: belongs_to_def chain_ok_def)
  moreover have "belongs_to (?cs ! i) (epoch_public K ts e)" using ok [of i] i len by (simp add: belongs_to_def chain_ok_def)
  ultimately have found: "chain_store_find (epoch_public K ts e) f ?cs = Some (fst (f (?cs ! i)), ?cs[i := snd (f (?cs ! i))])"
    for f :: "receiver_chain \<Rightarrow> (olm_decryption_error + string) \<times> receiver_chain"
    using i len by (intro chain_store_find_nth) auto
  have key: "om_ratchet_key m = epoch_public K ts e" by (simp add: m)
  let ?rcd = "receiver_chain_decrypt K m (os_config s) (?cs ! i)"
  have inv: "chain_inv K (epoch_chain K base ts e) (D e) (?cs ! i)" using ok [of i] i len by (simp add: chain_ok_def)
  note step = receiver_chain_decrypt_at(4,5) [OF laws inv j m]
  let ?D = "D(e := insert j (D e))"
  have "receiving_inv K base ts p b ?D (?cs[i := snd ?rcd])" if t: "fst ?rcd = Inr t" for t
  proof -
    have "chain_ok K base ts ?D (es ! k) (?cs[i := snd ?rcd] ! k)" if "k < length ?cs" for k
    proof (cases "k = i")
      case True
      with that step(2) [OF t] ok [OF that] i(2) show ?thesis by (simp add: chain_ok_def)
    next
      case False
      with that neq [of k] len ok [OF that] show ?thesis by (simp add: chain_ok_def)
    qed
    then have "list_all2 (chain_ok K base ts ?D) es (?cs[i := snd ?rcd])" using len by (simp add: list_all2_conv_all_nth)
    moreover have "e < b"
      using e set_last_n [of MAX_RECEIVING_CHAINS "epochs_before p b"] by (auto simp: epochs_before_simps(2))
    ultimately show ?thesis using rec unfolding receiving_inv_def es_def [symmetric] by simp
  qed
  moreover have "?cs[i := snd ?rcd] = ?cs" if "fst ?rcd = Inl err" for err using step(1) [OF that] by simp
  moreover have "olm_decrypt_decoded K fresh m s = (fst ?rcd, s\<lparr>os_receiving_chains := ?cs[i := snd ?rcd]\<rparr>)"
    using found [of "receiver_chain_decrypt K m (os_config s)"] key by (simp add: olm_decrypt_decoded_def)
  ultimately show ?thesis using inv by blast
qed

lemma list_all2_push:
  "list_all2 P xs ys \<Longrightarrow> P x y \<Longrightarrow> list_all2 P (push_evicting n x xs) (push_evicting n y ys)"
  unfolding push_evicting_def by (intro list_all2_appendI) (auto simp: list_all2_lengthD intro: list_all2_dropI)

lemma decrypt_new:
  assumes laws: "aes_law K" "hmac_law K" "x25519_law K" and dist: "distinct (map (k_x25519_public K) ts)"
    and lvl: "Suc lvl < length ts" "Suc lvl mod 2 \<noteq> parity p"
    and rec: "receiving_inv K base ts p lvl D (os_receiving_chains s)"
    and send: "sending_inv K base ts (lvl, True) n (os_sending_ratchet s)" and j: "j < index_limit"
    and m: "m = seal K (os_config s) (key_at K (epoch_public K ts (Suc lvl)) (epoch_chain K base ts (Suc lvl)) j) plaintext"
  shows "\<exists>rc r rcs. chain_inv K (epoch_chain K base ts (Suc lvl)) {} rc
    \<and> olm_decrypt_decoded K fresh m s = (fst (receiver_chain_decrypt K m (os_config s) rc),
        if is_ok (fst (receiver_chain_decrypt K m (os_config s) rc))
        then s\<lparr>os_sending_ratchet := r, os_receiving_chains := rcs\<rparr> else s)
    \<and> (\<forall>t. fst (receiver_chain_decrypt K m (os_config s) rc) = Inr t
        \<longrightarrow> sending_inv K base ts (Suc lvl, False) 0 r
          \<and> receiving_inv K base ts p (Suc (Suc lvl)) (D(Suc lvl := {j})) rcs)"
proof -
  let ?e = "Suc lvl" and ?cs = "os_receiving_chains s"
  obtain a where a: "os_sending_ratchet s = Active a" "or_root_key (ar_active_ratchet a) = epoch_root K base ts lvl"
    "or_ratchet_key (ar_active_ratchet a) = ts ! lvl" using send by (cases "os_sending_ratchet s") auto
  define rc where "rc = receiver_chain_new (epoch_public K ts ?e) (chain_key_new (epoch_chain K base ts ?e))
    (ratchet_count_advance (ar_ratchet_count a))"
  define r where "r = Inactive \<lparr>ir_root_key = epoch_root K base ts ?e, ir_ratchet_key = epoch_public K ts ?e,
    ir_ratchet_count = ratchet_count_advance (ar_ratchet_count a)\<rparr>"
  let ?rcd = "receiver_chain_decrypt K m (os_config s) rc"
  define rcs where "rcs = chain_store_push (snd ?rcd) ?cs"
  have key: "om_ratchet_key m = epoch_public K ts ?e" by (simp add: m)
  have inv: "chain_inv K (epoch_chain K base ts ?e) {} rc" unfolding rc_def by (rule chain_inv_new)
  note step = receiver_chain_decrypt_at(5) [OF laws(1,2) inv j m]
  have all: "list_all2 (chain_ok K base ts D) (last_n 5 (epochs_before p lvl)) ?cs"
    using rec by (simp add: receiving_inv_def MAX_RECEIVING_CHAINS_def)
  have es: "x < lvl" if "x \<in> set (last_n 5 (epochs_before p lvl))" for x
    using that set_last_n [of 5 "epochs_before p lvl"] by (auto simp: epochs_before_simps)
  have "\<not> belongs_to c (epoch_public K ts ?e)" if c: "c \<in> set ?cs" for c
  proof -
    from c all obtain x where "x \<in> set (last_n 5 (epochs_before p lvl))" "chain_ok K base ts D x c"
      by (metis in_set_conv_nth list_all2_conv_all_nth)
    with es distinct_public [OF dist, of x ?e] lvl(1) show ?thesis by (force simp: belongs_to_def chain_ok_def)
  qed
  then have none: "chain_store_find (epoch_public K ts ?e) f ?cs = None"
    for f :: "receiver_chain \<Rightarrow> (olm_decryption_error + string) \<times> receiver_chain"
    by (intro chain_store_find_None) simp
  have adv: "double_ratchet_advance K fresh (epoch_public K ts ?e) (os_sending_ratchet s) = (Some (r, rc), os_sending_ratchet s)"
    using active_advance_at [OF laws(3) lvl(1) a(2,3)] by (simp add: double_ratchet_advance_def a(1) r_def rc_def)
  have dec: "olm_decrypt_decoded K fresh m s = (fst ?rcd,
      if is_ok (fst ?rcd) then s\<lparr>os_sending_ratchet := r, os_receiving_chains := rcs\<rparr> else s)"
    using none adv by (cases ?rcd; cases "fst ?rcd") (simp_all add: olm_decrypt_decoded_def rcs_def key)
  have "receiving_inv K base ts p (Suc ?e) (D(?e := {j})) rcs" if t: "fst ?rcd = Inr t" for t
  proof -
    have ok: "chain_ok K base ts (D(?e := {j})) ?e (snd ?rcd)" using step [OF t] by (simp add: chain_ok_def rc_def receiver_chain_new_def)
    have epochs: "epochs_before p (Suc ?e) = epochs_before p lvl @ [?e]"
      using lvl(2) by (simp add: epochs_before_simps(1) parity_Suc)
    have old: "list_all2 (chain_ok K base ts (D(?e := {j}))) (last_n 5 (epochs_before p lvl)) ?cs"
      by (rule list.rel_mono_strong [OF all]) (auto simp: chain_ok_def dest: es)
    have "list_all2 (chain_ok K base ts (D(?e := {j}))) (push_evicting 5 ?e (last_n 5 (epochs_before p lvl))) rcs"
      unfolding rcs_def chain_store_push_def MAX_RECEIVING_CHAINS_def by (rule list_all2_push [OF old ok])
    then show ?thesis using rec lvl epochs
      by (auto simp: receiving_inv_def MAX_RECEIVING_CHAINS_def last_n_push epochs_before_simps(2))
  qed
  moreover have "sending_inv K base ts (?e, False) 0 r" by (simp add: r_def)
  ultimately show ?thesis using inv dec by (intro exI [of _ rc] exI [of _ r] exI [of _ rcs]) auto
qed

lemma sent_at:
  assumes inv: "conversation_inv K config base ts rcvd co cv" and k: "k < length (cv_sent cv q)" "co q ! k = (e, j)"
  shows "e < length ts" "e mod 2 = parity q" "j < index_limit"
    "inner_message (fst (cv_sent cv q ! k)) =
      seal K config (key_at K (epoch_public K ts e) (epoch_chain K base ts e) j) (snd (cv_sent cv q ! k))"
    "sent_key cv q k = epoch_public K ts e" "sent_index cv q k = j"
proof -
  have all: "list_all2 (sent_ok K config base ts) (co q) (cv_sent cv q)" "coordinates_inv q (co q)" "length (co q) \<le> index_limit"
    using inv by (simp_all add: conversation_inv_def side_inv_def Let_def)
  then have len: "k < length (co q)" using k by (simp add: list_all2_lengthD)
  then have "(e, j) \<in> set (co q)" using k(2) by (metis nth_mem)
  then show j: "e mod 2 = parity q" "j < index_limit"
    using all(2,3) sent_in_le [of "co q" e] by (force simp: coordinates_inv_def)+
  from list_all2_nthD2 [OF all(1) k(1)] k(2) show *: "e < length ts" "inner_message (fst (cv_sent cv q ! k)) =
      seal K config (key_at K (epoch_public K ts e) (epoch_chain K base ts e) j) (snd (cv_sent cv q ! k))"
    by (simp_all add: sent_ok_def)
  from *(2) j(2) show "sent_key cv q k = epoch_public K ts e" "sent_index cv q k = j"
    by (simp_all add: sent_key_def sent_index_def)
qed

lemma got_indices_at:
  assumes inv: "conversation_inv K config base ts rcvd co cv"
    and k: "k < length (cv_sent cv (other p))" "co (other p) ! k = (e, j)"
  shows "got_indices cv p k = decrypted (co (other p)) (cv_got cv p) e"
proof -
  have dist: "distinct (map (k_x25519_public K) ts)" and got: "set (cv_got cv p) \<subseteq> {..<length (cv_sent cv (other p))}"
    using inv by (simp_all add: conversation_inv_def side_inv_def Let_def)
  note at = sent_at [OF inv, of _ "other p"]
  have "sent_key cv (other p) i = sent_key cv (other p) k \<longleftrightarrow> fst (co (other p) ! i) = e"
    "sent_index cv (other p) i = snd (co (other p) ! i)" if "i \<in> set (cv_got cv p)" for i
  proof -
    obtain e' j' where i: "co (other p) ! i = (e', j')" by fastforce
    have "i < length (cv_sent cv (other p))" using that got by auto
    note ai = at [OF this i]
    show "sent_key cv (other p) i = sent_key cv (other p) k \<longleftrightarrow> fst (co (other p) ! i) = e"
      using ai(1,5) at(1,5) [OF k] distinct_public [OF dist] by (simp add: i)
    show "sent_index cv (other p) i = snd (co (other p) ! i)" using ai(6) by (simp add: i)
  qed
  then have "got_indices cv p k = {snd (co (other p) ! i) |i. i \<in> set (cv_got cv p) \<and> fst (co (other p) ! i) = e}"
    by (auto simp: got_indices_def)
  also have "\<dots> = decrypted (co (other p)) (cv_got cv p) e"
    by (auto simp: decrypted_iff prod_eq_iff)
  finally show ?thesis .
qed

lemma in_last_n:
  fixes xs :: "nat list"
  assumes "sorted_wrt (<) xs" "x \<in> set xs" "card {y \<in> set xs. x < y} < n"
  shows "x \<in> set (last_n n xs)"
proof -
  obtain ys zs where xs: "xs = ys @ x # zs" using assms(2) by (meson split_list)
  have "set zs = {y \<in> set xs. x < y}" using assms(1) unfolding xs by (fastforce simp: sorted_wrt_append)
  moreover have "length zs = card (set zs)"
    using assms(1) unfolding xs by (metis distinct_card sorted_wrt_append strict_sorted_iff sorted_wrt.simps(2))
  ultimately have "length xs - n \<le> length ys" using assms(3) unfolding xs by simp
  then show ?thesis unfolding last_n_def xs by (simp add: drop_append)
qed

text \<open>A chain that is not forgotten is stored, or belongs to the epoch that comes next.\<close>

lemma not_forgotten:
  assumes inv: "conversation_inv K config base ts rcvd co cv"
    and k: "k < length (cv_sent cv (other p))" "co (other p) ! k = (e, j)" and nf: "\<not> forgotten cv p k"
    and e: "e < known_epochs (position (length ts - 1) rcvd p)" (is "e < ?b")
  shows "e \<in> set (last_n MAX_RECEIVING_CHAINS (epochs_before p ?b))"
proof (rule in_last_n)
  let ?D = "decrypted (co (other p)) (cv_got cv p)" and ?q = "other p"
  note at = sent_at [OF inv, of _ ?q]
  have dist: "distinct (map (k_x25519_public K) ts)" and got: "set (cv_got cv p) \<subseteq> {..<length (cv_sent cv ?q)}"
    and rec: "receiving_inv K base ts p ?b ?D (os_receiving_chains (cv_session cv p))"
    and co: "sorted_wrt before (co ?q)" and len: "length (co ?q) = length (cv_sent cv ?q)"
    using inv by (auto simp: conversation_inv_def side_inv_def Let_def coordinates_inv_def dest: list_all2_lengthD)
  show "sorted_wrt (<) (epochs_before p ?b)" "e \<in> set (epochs_before p ?b)"
    using e at(2) [OF k] parity_other(3) [of p] by (auto simp: epochs_before_simps)
  have "ts \<noteq> []" using inv by (simp add: conversation_inv_def)
  then have le: "?b \<le> length ts" using position_le(2) [of "length ts - 1" rcvd p] by (cases ts) simp_all
  let ?later = "{x \<in> set (epochs_before p ?b). e < x}"
  let ?keys = "set (map (sent_key cv ?q) (filter (\<lambda>i. k < i \<and> sent_key cv ?q i \<noteq> sent_key cv ?q k) (cv_got cv p)))"
  have "epoch_public K ts ` ?later \<subseteq> ?keys"
  proof
    fix y assume "y \<in> epoch_public K ts ` ?later"
    then obtain x where x: "x \<in> set (epochs_before p ?b)" "e < x" "y = epoch_public K ts x" by auto
    then have "?D x \<noteq> {}" using rec by (auto simp: receiving_inv_def)
    then obtain i j' where i: "i \<in> set (cv_got cv p)" "co ?q ! i = (x, j')" by (auto simp: decrypted_iff)
    then have il: "i < length (cv_sent cv ?q)" using got by auto
    have "k < i"
      using sorted_wrt_nth_less [OF co, of i k] i(2) k x(2) len by (cases "i = k"; cases "i < k") (auto simp: before_def)
    moreover have "sent_key cv ?q i = y" "sent_key cv ?q i \<noteq> sent_key cv ?q k"
      using at(1,5) [OF il i(2)] at(1,5) [OF k] x distinct_public [OF dist] by auto
    ultimately show "y \<in> ?keys" using i(1) by auto
  qed
  moreover have "inj_on (epoch_public K ts) ?later"
    using distinct_public [OF dist] less_le_trans [OF _ le] by (simp add: inj_on_def epochs_before_simps)
  ultimately have "card ?later \<le> card ?keys" by (metis (no_types, lifting) List.finite_set card_image card_mono)
  then show "card ?later < MAX_RECEIVING_CHAINS" using nf by (simp add: forgotten_def)
qed

lemma decrypted_snoc:
  assumes "co ! k = (e, j)"
  shows "decrypted co (got @ [k]) = (decrypted co got)(e := insert j (decrypted co got e))"
  using assms by (auto simp: decrypted_def fun_eq_iff)

text \<open>
  What a side does with a message of a chain that is not forgotten: what a receiving chain in the right
  state does, and the invariant is kept.
\<close>

lemma converse_deliver:
  assumes "k < length (cv_sent cv (other p))" "\<not> forgotten cv p k"
  defines "m \<equiv> inner_message (fst (cv_sent cv (other p) ! k))" and "s \<equiv> cv_session cv p"
  shows "converse K (Deliver p k fresh) cv = (case olm_decrypt_decoded K fresh m s of
      (Inr _, s) \<Rightarrow> cv\<lparr>cv_session := (cv_session cv)(p := s), cv_got := (cv_got cv)(p := cv_got cv p @ [k])\<rparr>
    | (Inl _, s) \<Rightarrow> cv\<lparr>cv_session := (cv_session cv)(p := s)\<rparr>)"
    and "olm_decrypt K fresh (fst (cv_sent cv (other p) ! k)) s = olm_decrypt_decoded K fresh m s"
  using assms by (simp_all add: olm_decrypt_def split: olm_message.split)

text \<open>The invariant after a message was decrypted, from what changes on the side of the receiver.\<close>

lemma delivered_inv:
  assumes inv: "conversation_inv K config base ts rcvd co cv"
    and k: "k < length (cv_sent cv (other p))" "co (other p) ! k = (e, j)"
    and new: "length ts = 1 \<longrightarrow> rcvd'" "position (length ts - 1) rcvd' (other p) = position (length ts - 1) rcvd (other p)"
      "position (length ts - 1) rcvd' p = pos'" "os_config s = config"
      "sending_inv K base ts pos' (sent_in (co p) (fst pos')) (os_sending_ratchet s)"
      "receiving_inv K base ts p (known_epochs pos')
        ((decrypted (co (other p)) (cv_got cv p))(e := insert j (decrypted (co (other p)) (cv_got cv p) e))) (os_receiving_chains s)"
  shows "conversation_inv K config base ts rcvd' co
      (cv\<lparr>cv_session := (cv_session cv)(p := s), cv_got := (cv_got cv)(p := cv_got cv p @ [k])\<rparr>)" (is "conversation_inv _ _ _ _ _ _ ?cv")
proof -
  obtain lvl act where pos: "position (length ts - 1) rcvd p = (lvl, act)" by fastforce
  note facts = side_facts [OF inv pos]
  have "side_inv K config base ts rcvd' co ?cv p"
    using facts(8) [of p] new k decrypted_snoc [OF k(2)] by (simp add: side_inv_def Let_def)
  moreover have "side_inv K config base ts rcvd' co ?cv (other p)"
    using facts(8) [of "other p"] new(2) by (simp add: side_inv_def Let_def)
  ultimately have "side_inv K config base ts rcvd' co ?cv q" for q using side_cases [of q p] by auto
  then show ?thesis using facts(1,2) new(1) by (simp add: conversation_inv_def)
qed

text \<open>A message of an epoch the receiver knows.\<close>

lemma deliver_known:
  assumes laws: "aes_law K" "hmac_law K" and inv: "conversation_inv K config base ts rcvd co cv"
    and k: "k < length (cv_sent cv (other p))" "co (other p) ! k = (e, j)" and nf: "\<not> forgotten cv p k"
    and e: "e < known_epochs (position (length ts - 1) rcvd p)"
  defines "m \<equiv> fst (cv_sent cv (other p) ! k)"
  shows "\<exists>rc rcvd'. chain_inv K (epoch_chain K base ts e) (got_indices cv p k) rc
    \<and> fst (olm_decrypt K fresh m (cv_session cv p)) = fst (receiver_chain_decrypt K (inner_message m) config rc)
    \<and> conversation_inv K config base ts rcvd' co (converse K (Deliver p k fresh) cv)"
proof -
  let ?s = "cv_session cv p" and ?n = "length ts - 1" and ?D = "decrypted (co (other p)) (cv_got cv p)"
  obtain lvl act where pos: "position ?n rcvd p = (lvl, act)" by fastforce
  note facts = side_facts [OF inv pos]
  note conf = facts(4) [symmetric] and at = sent_at [OF inv k] and cv = converse_deliver [OF k(1) nf, folded m_def]
  have mem: "e \<in> set (last_n MAX_RECEIVING_CHAINS (epochs_before p (known_epochs (lvl, act))))"
    using not_forgotten [OF inv k nf] e pos by simp
  have le: "known_epochs (lvl, act) \<le> length ts" using position_le(2) [of ?n rcvd p] pos facts(1) by (cases ts) simp_all
  obtain rc rcs where rc: "chain_inv K (epoch_chain K base ts e) (?D e) rc"
    "olm_decrypt_decoded K fresh (inner_message m) ?s =
      (fst (receiver_chain_decrypt K (inner_message m) config rc), ?s\<lparr>os_receiving_chains := rcs\<rparr>)"
    "\<And>err. fst (receiver_chain_decrypt K (inner_message m) config rc) = Inl err \<Longrightarrow> rcs = os_receiving_chains ?s"
    "\<And>t. fst (receiver_chain_decrypt K (inner_message m) config rc) = Inr t
      \<Longrightarrow> receiving_inv K base ts p (known_epochs (lvl, act)) (?D(e := insert j (?D e))) rcs"
    using decrypt_stored [OF laws facts(2) le facts(6) mem at(3) at(4) [unfolded conf], of fresh] unfolding conf m_def by auto
  have "conversation_inv K config base ts rcvd co (converse K (Deliver p k fresh) cv)"
  proof (cases "fst (receiver_chain_decrypt K (inner_message m) config rc)")
    case (Inl err)
    with rc(2,3) inv show ?thesis unfolding cv(1) by simp
  next
    case (Inr t)
    with rc(2,4) delivered_inv [OF inv k, of rcvd "(lvl, act)" "?s\<lparr>os_receiving_chains := rcs\<rparr>"] facts(3,5) pos conf show ?thesis
      unfolding cv(1) by simp
  qed
  then show ?thesis using rc(1) by (intro exI [of _ rc] exI [of _ rcvd] conjI) (simp_all only: got_indices_at [OF inv k] cv(2) rc(2) fst_conv)
qed

text \<open>The first message of the epoch that comes next.\<close>

lemma deliver_next:
  assumes laws: "aes_law K" "hmac_law K" "x25519_law K" and inv: "conversation_inv K config base ts rcvd co cv"
    and k: "k < length (cv_sent cv (other p))" "co (other p) ! k = (e, j)" and nf: "\<not> forgotten cv p k"
    and e: "\<not> e < known_epochs (position (length ts - 1) rcvd p)"
  defines "m \<equiv> fst (cv_sent cv (other p) ! k)"
  shows "\<exists>rc rcvd'. chain_inv K (epoch_chain K base ts e) (got_indices cv p k) rc
    \<and> fst (olm_decrypt K fresh m (cv_session cv p)) = fst (receiver_chain_decrypt K (inner_message m) config rc)
    \<and> conversation_inv K config base ts rcvd' co (converse K (Deliver p k fresh) cv)"
proof -
  let ?s = "cv_session cv p" and ?n = "length ts - 1" and ?D = "decrypted (co (other p)) (cv_got cv p)"
  obtain lvl act where pos: "position ?n rcvd p = (lvl, act)" by fastforce
  note facts = side_facts [OF inv pos]
  note conf = facts(4) [symmetric] and at = sent_at [OF inv k] and cv = converse_deliver [OF k(1) nf, folded m_def]
  have le: "e \<le> ?n" "e mod 2 \<noteq> parity p" "?n = 0 \<longrightarrow> rcvd"
    using at(1,2) parity_other(3) [of p] facts(1,3) by (cases ts; auto)+
  note act = position_next [OF pos e [unfolded pos] le]
  have len: "length ts = Suc (Suc lvl)" "e = Suc lvl" "Suc lvl < length ts" using act(3,4) facts(1) by simp_all
  have par: "Suc lvl mod 2 \<noteq> parity p" using le(2) len(2) by simp
  have De: "?D e = {}" using facts(6) e pos by (auto simp: receiving_inv_def)
  obtain rc r rcs where rc: "chain_inv K (epoch_chain K base ts e) {} rc"
    "olm_decrypt_decoded K fresh (inner_message m) ?s =
      (fst (receiver_chain_decrypt K (inner_message m) config rc),
       if is_ok (fst (receiver_chain_decrypt K (inner_message m) config rc))
       then ?s\<lparr>os_sending_ratchet := r, os_receiving_chains := rcs\<rparr> else ?s)"
    "\<And>t. fst (receiver_chain_decrypt K (inner_message m) config rc) = Inr t
      \<Longrightarrow> sending_inv K base ts (Suc lvl, False) 0 r \<and> receiving_inv K base ts p (Suc (Suc lvl)) (?D(e := {j})) rcs"
    using decrypt_new [OF laws facts(2) len(3) par _ _ at(3) at(4) [unfolded conf len(2)], of ?D "sent_in (co p) lvl" fresh]
      facts(5,6) act(1) len unfolding conf m_def by auto
  have "conversation_inv K config base ts (is_ok (fst (receiver_chain_decrypt K (inner_message m) config rc))) co
      (converse K (Deliver p k fresh) cv)"
  proof (cases "fst (receiver_chain_decrypt K (inner_message m) config rc)")
    case (Inl err)
    with rc(2) inv act(2) show ?thesis unfolding cv(1) by simp
  next
    case (Inr t)
    have p: "position ?n True (other p) = position ?n rcvd (other p)" "position ?n True p = (Suc lvl, False)"
      using par par [unfolded mod2_parity] len(1) by (simp_all add: position_def)
    have "sending_inv K base ts (Suc lvl, False) n r" for n using rc(3) [OF Inr] by (cases r) auto
    with Inr rc(2,3) delivered_inv [OF inv k, of True "(Suc lvl, False)" "?s\<lparr>os_sending_ratchet := r, os_receiving_chains := rcs\<rparr>"]
      p conf De len
    show ?thesis unfolding cv(1) by simp
  qed
  then show ?thesis using rc(1)
    by (intro exI [of _ rc] exI conjI) (simp_all only: got_indices_at [OF inv k] De cv(2) rc(2) fst_conv)
qed

lemma deliver_inv:
  assumes "aes_law K" "hmac_law K" "x25519_law K" "conversation_inv K config base ts rcvd co cv"
    and "k < length (cv_sent cv (other p))" "co (other p) ! k = (e, j)" "\<not> forgotten cv p k"
  defines "m \<equiv> fst (cv_sent cv (other p) ! k)"
  shows "\<exists>rc rcvd'. chain_inv K (epoch_chain K base ts e) (got_indices cv p k) rc
    \<and> fst (olm_decrypt K fresh m (cv_session cv p)) = fst (receiver_chain_decrypt K (inner_message m) config rc)
    \<and> conversation_inv K config base ts rcvd' co (converse K (Deliver p k fresh) cv)"
  unfolding m_def
  using deliver_known [OF assms(1,2,4-7)] deliver_next [OF assms(1-7)] by blast

end
