(* ===== verification/Olm_Props.thy ===== *)
theory Olm_Props
  imports Olm_Conversation
begin

text \<open>
  What Olm guarantees: sessions set up from one-time keys agree and use up the key, every message that
  arrives in time is decrypted, what a session keeps is bounded, and refused messages do no harm.
\<close>

section \<open>Setting up\<close>

text \<open>The session that \<open>create_inbound_session\<close> makes of the keys of a message before it decrypts it.\<close>

definition bob_session :: "'a olm_crypto_scheme \<Rightarrow> olm_config \<Rightarrow> string \<Rightarrow> olm_session_keys \<Rightarrow> string \<Rightarrow> account
    \<Rightarrow> olm_session option" where
  "bob_session K config ratchet_key keys otk bob =
     map_option (\<lambda>secret. olm_session_new_remote K config secret ratchet_key keys)
       (remote_3dh_new K (ac_diffie_hellman_key bob) otk (olm_identity_key keys) (olm_base_key keys))"

lemma three_dh_agree:
  assumes "x25519_law K"
  shows "shared_3dh_new K a base (k_x25519_public K b) (k_x25519_public K otk) =
      Some (k_x25519 K a (k_x25519_public K otk) @ k_x25519 K base (k_x25519_public K b) @ k_x25519 K base (k_x25519_public K otk))"
    and "remote_3dh_new K b otk (k_x25519_public K a) (k_x25519_public K base) =
      shared_3dh_new K a base (k_x25519_public K b) (k_x25519_public K otk)"
proof -
  have c: "k_x25519 K x (k_x25519_public K y) = k_x25519 K y (k_x25519_public K x)"
    and "k_x25519_contributory K (k_x25519 K x (k_x25519_public K y))" for x y
    using assms by (simp_all add: x25519_law_def)
  then show "shared_3dh_new K a base (k_x25519_public K b) (k_x25519_public K otk) =
      Some (k_x25519 K a (k_x25519_public K otk) @ k_x25519 K base (k_x25519_public K b) @ k_x25519 K base (k_x25519_public K otk))"
    and "remote_3dh_new K b otk (k_x25519_public K a) (k_x25519_public K base) =
      shared_3dh_new K a base (k_x25519_public K b) (k_x25519_public K otk)"
    using c [of otk a] c [of b base] c [of otk base]
    by (simp_all add: shared_3dh_new_def remote_3dh_new_def diffie_hellman_def)
qed

definition established :: "'a olm_crypto_scheme \<Rightarrow> string \<Rightarrow> string \<Rightarrow> olm_config \<Rightarrow> account \<Rightarrow> account \<Rightarrow> string
    \<Rightarrow> olm_session \<Rightarrow> olm_session \<Rightarrow> bool" where
  "established K base_key fresh config alice bob otk a b \<longleftrightarrow>
     create_outbound_session K base_key fresh config (curve25519_key K bob) (k_x25519_public K otk) alice = Inr a
     \<and> bob_session K config (k_x25519_public K fresh) (os_session_keys a) otk bob = Some b"

lemma established_sessions:
  assumes "x25519_law K" "established K base_key fresh config alice bob otk a b"
  obtains secret where
    "a = olm_session_new K fresh config secret \<lparr>olm_identity_key = curve25519_key K alice,
       olm_base_key = k_x25519_public K base_key, olm_one_time_key = k_x25519_public K otk\<rparr>"
    "b = olm_session_new_remote K config secret (k_x25519_public K fresh) (os_session_keys a)"
    "remote_3dh_new K (ac_diffie_hellman_key bob) otk (curve25519_key K alice) (k_x25519_public K base_key) = Some secret"
  using assms(2) three_dh_agree [OF assms(1), where a = "ac_diffie_hellman_key alice" and base = base_key
      and b = "ac_diffie_hellman_key bob" and otk = otk]
  by (auto simp: established_def bob_session_def create_outbound_session_def curve25519_key_def Let_def olm_session_new_def)

lemma start_inv:
  assumes "x25519_law K" "established K base_key fresh config alice bob otk a b"
  shows "\<exists>base. conversation_inv K config base [fresh] True (\<lambda>_. []) (conversation_start a b)"
proof -
  obtain secret keys where ab: "a = olm_session_new K fresh config secret keys"
    "b = olm_session_new_remote K config secret (k_x25519_public K fresh) (os_session_keys a)"
    using established_sessions [OF assms] by metis
  have "side_inv K config (shared_secret_expand K secret) [fresh] True (\<lambda>_. []) (conversation_start a b) p" for p
    by (cases p; simp add: ab side_inv_def Let_def conversation_start_def olm_session_new_def olm_session_new_remote_def
        double_ratchet_active_def inactive_from_prekey_data_def position_def sent_in_def coordinates_inv_def receiving_inv_def
        decrypted_def epochs_before_def chain_store_push_def push_evicting_def MAX_RECEIVING_CHAINS_def case_prod_beta
        chain_ok_def chain_inv_new)
      (simp add: receiver_chain_new_def)
  then show ?thesis by (intro exI [of _ "shared_secret_expand K secret"]) (simp add: conversation_inv_def)
qed

section \<open>A conversation\<close>

lemma converse_sent_length: "length (cv_sent (converse K x cv) p) \<le> Suc (length (cv_sent cv p))"
  by (cases x) (auto split: sum.splits prod.splits)

lemma conversation_inv_lengths:
  "conversation_inv K config base ts rcvd co cv \<Longrightarrow> length (co p) = length (cv_sent cv p)"
  using side_facts(7) by (metis surj_pair)

lemma converse_inv:
  assumes "aes_law K" "hmac_law K" "x25519_law K" "conversation_inv K config base ts rcvd co cv"
    "k_x25519_public K (step_fresh x) \<notin> k_x25519_public K ` set ts" "\<And>p. length (cv_sent cv p) < index_limit"
  shows "\<exists>ts' rcvd' co'. conversation_inv K config base ts' rcvd' co' (converse K x cv)
    \<and> set ts' \<subseteq> insert (step_fresh x) (set ts)"
proof (cases x)
  case (Send p plaintext fresh)
  then show ?thesis
    using send_inv [OF assms(3,4), of p fresh plaintext] assms(5) assms(6) [of p] conversation_inv_lengths [OF assms(4), of p]
    by simp
next
  case (Deliver p k fresh)
  show ?thesis
  proof (cases "k < length (cv_sent cv (other p)) \<and> \<not> forgotten cv p k")
    case True
    obtain e j where "co (other p) ! k = (e, j)" by fastforce
    with deliver_inv [OF assms(1-4), of k p e j fresh] True Deliver show ?thesis by blast
  next
    case False
    with assms(4) Deliver show ?thesis by (auto simp del: converse.simps simp add: converse.simps(2))
  qed
qed

lemma run_inv:
  assumes laws: "aes_law K" "hmac_law K" "x25519_law K" and est: "established K base_key fresh config alice bob otk a b"
  shows "distinct (map (k_x25519_public K) (fresh # map step_fresh steps)) \<Longrightarrow> length steps \<le> index_limit
    \<Longrightarrow> \<exists>base ts rcvd co. conversation_inv K config base ts rcvd co (fold (converse K) steps (conversation_start a b))
      \<and> set ts \<subseteq> set (fresh # map step_fresh steps)
      \<and> (\<forall>p. length (cv_sent (fold (converse K) steps (conversation_start a b)) p) \<le> length steps)"
proof (induction steps rule: rev_induct)
  case Nil
  then show ?case using start_inv [OF laws(3) est] by (force simp: conversation_start_def)
next
  case (snoc x steps)
  let ?cv = "fold (converse K) steps (conversation_start a b)"
  from snoc obtain base ts rcvd co where inv: "conversation_inv K config base ts rcvd co ?cv"
    and sub: "set ts \<subseteq> set (fresh # map step_fresh steps)" and len: "\<And>p. length (cv_sent ?cv p) \<le> length steps"
    by auto
  have "k_x25519_public K (step_fresh x) \<notin> k_x25519_public K ` set ts"
    using snoc.prems(1) sub by (auto simp: image_iff dest: subsetD)
  moreover have "length (cv_sent ?cv p) < index_limit" for p
    using snoc.prems(2) len [of p] by simp
  ultimately obtain ts' rcvd' co' where "conversation_inv K config base ts' rcvd' co' (converse K x ?cv)"
    "set ts' \<subseteq> insert (step_fresh x) (set ts)"
    using converse_inv [OF laws inv] by blast
  moreover have "length (cv_sent (converse K x ?cv) p) \<le> Suc (length steps)" for p
    using converse_sent_length [of K x ?cv p] len [of p] by simp
  ultimately show ?case using sub by (intro exI conjI) (auto simp del: converse.simps)
qed

lemma got_index_iff:
  assumes inv: "conversation_inv K config base ts rcvd co cv" and k: "k < length (cv_sent cv (other p))"
  shows "sent_index cv (other p) k \<in> got_indices cv p k \<longleftrightarrow> k \<in> set (cv_got cv p)"
proof -
  obtain e j where ej: "co (other p) ! k = (e, j)" by fastforce
  have co: "sorted_wrt before (co (other p))" and got: "set (cv_got cv p) \<subseteq> {..<length (cv_sent cv (other p))}"
    using inv by (auto simp: conversation_inv_def side_inv_def Let_def coordinates_inv_def)
  have "i = k" if "i \<in> set (cv_got cv p)" "co (other p) ! i = (e, j)" for i
    using that ej got k conversation_inv_lengths [OF inv, of "other p"] sorted_wrt_nth_less [OF co, of i k]
      sorted_wrt_nth_less [OF co, of k i] by (cases i k rule: linorder_cases) (auto simp: before_def)
  then show ?thesis
    using sent_at(6) [OF inv k ej] got_indices_at [OF inv k ej] ej by (auto simp: decrypted_iff)
qed

text \<open>
  (C9) Olm delivers. Two sessions, set up from an account's one-time key, exchange messages over a
  network that loses, reorders and repeats them. Whatever was sent and handed over so far, a message of
  a chain that is not forgotten has this outcome when it arrives: if it was decrypted before, it is
  refused with \<open>MissingMessageKey\<close>; if its index is more than 2000 above the expected one, with
  \<open>TooBigMessageGap\<close>; and if it is new, at most 2000 ahead and at most 40 behind the last one decrypted in
  its chain, it decrypts to the text that was sent. This needs that decryption inverts encryption, that
  both orders of a Diffie-Hellman agreement give the same secret, and that ratchet keys do not repeat.
\<close>

theorem olm_delivers:
  assumes "aes_law K" "hmac_law K" "x25519_law K"
    and "established K base_key fresh config alice bob otk a b"
    and "distinct (map (k_x25519_public K) (fresh # map step_fresh steps))" and "length steps \<le> index_limit"
    and "cv = fold (converse K) steps (conversation_start a b)"
    and "k < length (cv_sent cv (other p))" and "\<not> forgotten cv p k"
    and "result = fst (olm_decrypt K drawn (fst (cv_sent cv (other p) ! k)) (cv_session cv p))"
    and "expected = next_index (got_indices cv p k)" and "index = sent_index cv (other p) k"
  shows "(k \<in> set (cv_got cv p) \<longrightarrow> result = Inl (MissingMessageKey (of_nat index)))
    \<and> (expected + 2000 < index \<longrightarrow> result = Inl (TooBigMessageGap (of_nat (index - expected)) 2000))
    \<and> (k \<notin> set (cv_got cv p) \<and> expected \<le> index + 41 \<and> index \<le> expected + 2000
        \<longrightarrow> result = Inr (snd (cv_sent cv (other p) ! k)))"
proof -
  from run_inv [OF assms(1-6)] assms(7) obtain base ts rcvd co where inv: "conversation_inv K config base ts rcvd co cv"
    by blast
  obtain e j where ej: "co (other p) ! k = (e, j)" by fastforce
  note at = sent_at [OF inv assms(8) ej]
  obtain rc where rc: "chain_inv K (epoch_chain K base ts e) (got_indices cv p k) rc"
    and res: "result = fst (receiver_chain_decrypt K (inner_message (fst (cv_sent cv (other p) ! k))) config rc)"
    using deliver_inv [OF assms(1-3) inv assms(8) ej assms(9), of drawn] assms(10) by blast
  have idx: "j = index" using at(6) assms(12) by simp
  note out = receiver_chain_decrypt_at [OF assms(1,2) rc at(3,4)]
  show ?thesis
    using out(1-3) got_index_iff [OF inv assms(8)] assms(11,12)
    unfolding res idx by (simp add: MAX_MESSAGE_KEYS_def MAX_MESSAGE_GAP_def)
qed

definition example_alice :: account where
  "example_alice = account_new example_olm ''sa'' ''alice''"

definition example_bob :: account where
  "example_bob = snd (generate_one_time_keys example_olm [''otk''] (account_new example_olm ''sb'' ''bob''))"

definition example_a :: olm_session where
  "example_a = projr (create_outbound_session example_olm ''base'' ''f0'' \<lparr>olm_version = OlmV1\<rparr>
     (curve25519_key example_olm example_bob) (k_x25519_public example_olm ''otk'') example_alice)"

definition example_b :: olm_session where
  "example_b = the (bob_session example_olm \<lparr>olm_version = OlmV1\<rparr> (k_x25519_public example_olm ''f0'')
     (os_session_keys example_a) ''otk'' example_bob)"

definition example_steps :: "conversation_step list" where
  "example_steps = [Send Alice ''one'' ''f1'', Send Alice ''two'' ''f2'', Deliver Bob 1 ''f3'']"

definition example_cv :: conversation where
  "example_cv = fold (converse example_olm) example_steps (conversation_start example_a example_b)"

lemma example_established:
  "established example_olm ''base'' ''f0'' \<lparr>olm_version = OlmV1\<rparr> example_alice example_bob ''otk'' example_a example_b"
  unfolding established_def by code_simp

lemma example_fresh:
  "distinct (map (k_x25519_public example_olm) (''f0'' # map step_fresh example_steps))" "length example_steps \<le> index_limit"
  by code_simp (simp add: example_steps_def index_limit_def)

definition outline :: "conversation \<Rightarrow> nat \<times> nat list \<times> (bool \<times> nat) list" where
  "outline cv = (length (cv_sent cv Alice), cv_got cv Bob,
     map (\<lambda>i. (sent_key cv Alice i = sent_key cv Alice 0, sent_index cv Alice i)) [0, 1])"

lemma example_outline: "outline example_cv = (2, [1], [(True, 0), (True, 1)])"
  by code_simp

theorem olm_delivers_witness:
  "fst (olm_decrypt example_olm ''f9'' (fst (cv_sent example_cv Alice ! 0)) (cv_session example_cv Bob)) =
     Inr (snd (cv_sent example_cv Alice ! 0))"
  using example_outline olm_delivers [OF example_olm_laws(1,2,5) example_established example_fresh example_cv_def, of 0 Bob]
  by (simp add: outline_def forgotten_def got_indices_def next_index_def MAX_RECEIVING_CHAINS_def)

section \<open>The first message\<close>

lemma om_version_seal: "om_version (seal K config key plaintext) =
    (case olm_version config of OlmV1 \<Rightarrow> OLM_MAC_TRUNCATED_VERSION | OlmV2 \<Rightarrow> OLM_VERSION)"
  by (simp add: seal_def mk_encrypt_def mk_encrypt_truncated_mac_def om_set_mac_def om_new_def om_new_truncated_mac_def
      Let_def split: olm_version.split)

lemma olm_encrypt_pre_key:
  assumes "os_receiving_chains s = []" "olm_encrypt K fresh plaintext s = (Inr m, s')"
  shows "\<exists>pk. m = OlmPreKey pk \<and> pk_session_keys pk = os_session_keys s"
  using assms by (auto simp: olm_encrypt_def has_received_message_def map_ok_Inr_iff Let_def split: prod.splits)

lemma alice_sends:
  assumes "x25519_law K" "established K base_key fresh config alice bob otk a b" "length texts \<le> index_limit"
    and cv: "cv = fold (converse K) (map (\<lambda>t. Send Alice t drawn) texts) (conversation_start a b)"
  shows "\<exists>base co. conversation_inv K config base [fresh] True co cv
    \<and> co Alice = map (Pair 0) [0..<length texts] \<and> cv_got cv = (\<lambda>_. []) \<and> cv_session cv Bob = b
    \<and> os_session_keys (cv_session cv Alice) = os_session_keys a \<and> os_receiving_chains (cv_session cv Alice) = []
    \<and> map snd (cv_sent cv Alice) = texts
    \<and> (\<forall>m\<in>set (cv_sent cv Alice). \<exists>pk. fst m = OlmPreKey pk \<and> pk_session_keys pk = os_session_keys a)"
  using assms(3) unfolding cv
proof (induction texts rule: rev_induct)
  case Nil
  from start_inv [OF assms(1,2)] obtain base where "conversation_inv K config base [fresh] True (\<lambda>_. []) (conversation_start a b)"
    by blast
  moreover have "os_receiving_chains a = []"
    using established_sessions [OF assms(1,2)] by (metis olm_session.select_convs(3) olm_session_new_def)
  ultimately show ?case by (intro exI [of _ base] exI [of _ "\<lambda>_. []"]) (simp add: conversation_start_def)
next
  case (snoc t texts)
  let ?cv = "fold (converse K) (map (\<lambda>t. Send Alice t drawn) texts) (conversation_start a b)"
  from snoc obtain base co where inv: "conversation_inv K config base [fresh] True co ?cv"
    and co: "co Alice = map (Pair 0) [0..<length texts]"
    and rest: "cv_got ?cv = (\<lambda>_. [])" "cv_session ?cv Bob = b" "os_session_keys (cv_session ?cv Alice) = os_session_keys a"
      "os_receiving_chains (cv_session ?cv Alice) = []" "map snd (cv_sent ?cv Alice) = texts"
      "\<forall>m\<in>set (cv_sent ?cv Alice). \<exists>pk. fst m = OlmPreKey pk \<and> pk_session_keys pk = os_session_keys a"
    by auto
  have pos: "position (length [fresh] - 1) True Alice = (0, True)" by (simp add: position_def)
  have sent: "sent_in (co Alice) 0 = length texts" by (simp add: co sent_in_def filter_map o_def)
  note new = send_active [OF inv _ pos, of t drawn, unfolded sent]
  obtain d key where d: "next_message_key K drawn (os_sending_ratchet (cv_session ?cv Alice)) = (Some key, d)"
    using next_message_key_active side_facts(5) [OF inv pos] by blast
  obtain m where m: "olm_encrypt K drawn t (cv_session ?cv Alice) = (Inr m, (cv_session ?cv Alice)\<lparr>os_sending_ratchet := d\<rparr>)"
    using olm_encrypt_key [OF d] by blast
  from olm_encrypt_pre_key [OF rest(4) m] rest(3) obtain pk where pk: "m = OlmPreKey pk" "pk_session_keys pk = os_session_keys a"
    by auto
  let ?cv' = "converse K (Send Alice t drawn) ?cv"
  define co' where "co' = co(Alice := co Alice @ [(0, length texts)])"
  have "conversation_inv K config base [fresh] True co' ?cv'" using new snoc.prems co by (simp add: co'_def)
  moreover have "co' Alice = map (Pair 0) [0..<length (texts @ [t])]" by (simp add: co co'_def)
  moreover have "?cv' = ?cv\<lparr>cv_session := (cv_session ?cv)(Alice := (cv_session ?cv Alice)\<lparr>os_sending_ratchet := d\<rparr>),
      cv_sent := (cv_sent ?cv)(Alice := cv_sent ?cv Alice @ [(m, t)])\<rparr>" using m by simp
  ultimately show ?case using rest pk by (intro exI [of _ base] exI [of _ co']) (simp del: converse.simps)
qed

lemma create_inbound_bob:
  assumes "x25519_law K" "established K base_key fresh config alice bob otk a b"
    and otk: "find_one_time_key K (k_x25519_public K otk) bob = Some otk"
    and pk: "pk_session_keys pk = os_session_keys a" "pk_message pk = seal K config key plaintext"
      "mk_ratchet_key key = k_x25519_public K fresh"
    and dec: "olm_decrypt_decoded K drawn (pk_message pk) b = (Inr plaintext, s)"
  shows "create_inbound_session K drawn config (curve25519_key K alice) pk bob =
    (Inr \<lparr>icr_session = s, icr_plaintext = plaintext\<rparr>, snd (remove_one_time_key_helper (k_x25519_public K otk) bob))"
proof -
  obtain secret where a: "a = olm_session_new K fresh config secret \<lparr>olm_identity_key = curve25519_key K alice,
       olm_base_key = k_x25519_public K base_key, olm_one_time_key = k_x25519_public K otk\<rparr>"
    and b: "b = olm_session_new_remote K config secret (k_x25519_public K fresh) (os_session_keys a)"
    and secret: "remote_3dh_new K (ac_diffie_hellman_key bob) otk (curve25519_key K alice) (k_x25519_public K base_key) = Some secret"
    using established_sessions [OF assms(1,2)] .
  have keys: "pk_session_keys pk = \<lparr>olm_identity_key = curve25519_key K alice, olm_base_key = k_x25519_public K base_key,
      olm_one_time_key = k_x25519_public K otk\<rparr>" using pk(1) a by (simp add: olm_session_new_def)
  have conf: "\<lparr>olm_version = v\<rparr> = config" if "olm_version config = v" for v using that by simp
  have version: "(if om_version (pk_message pk) = OLM_MAC_TRUNCATED_VERSION then Inr \<lparr>olm_version = OlmV1\<rparr>
      else if om_version (pk_message pk) = OLM_VERSION then Inr \<lparr>olm_version = OlmV2\<rparr>
      else Inl (MismatchedSessionConfig config None)) = Inr config"
    using conf by (cases "olm_version config")
      (simp_all add: pk(2) om_version_seal OLM_VERSION_def OLM_MAC_TRUNCATED_VERSION_def)
  have "b = olm_session_new_remote K config secret (om_ratchet_key (pk_message pk)) (pk_session_keys pk)"
    using b by (simp add: pk)
  then show ?thesis
    using dec otk secret unfolding create_inbound_session_def Let_def version by (simp add: keys)
qed



section \<open>Arbitrary messages\<close>

text \<open>What a session keeps, whatever messages it is given: five chains with forty skipped keys each.\<close>

datatype session_op = Encrypt string string | Decrypt olm_message string

fun session_step :: "'a olm_crypto_scheme \<Rightarrow> session_op \<Rightarrow> olm_session \<Rightarrow> olm_session" where
  "session_step K (Encrypt plaintext fresh) s = snd (olm_encrypt K fresh plaintext s)"
| "session_step K (Decrypt m fresh) s = snd (olm_decrypt K fresh m s)"

definition bounded_chain :: "receiver_chain \<Rightarrow> bool" where
  "bounded_chain c \<longleftrightarrow> length (rc_skipped c) \<le> MAX_MESSAGE_KEYS"

definition bounded_session :: "olm_session \<Rightarrow> bool" where
  "bounded_session s \<longleftrightarrow> length (os_receiving_chains s) \<le> MAX_RECEIVING_CHAINS \<and> (\<forall>c\<in>set (os_receiving_chains s). bounded_chain c)"

lemma key_store_merge_bounded: "length store \<le> MAX_MESSAGE_KEYS \<Longrightarrow> length (key_store_merge keys store) \<le> MAX_MESSAGE_KEYS"
  unfolding key_store_merge_def by (rule key_store.fold_push_bounded)

lemma receiver_chain_decrypt_bounded: "bounded_chain c \<Longrightarrow> bounded_chain (snd (receiver_chain_decrypt K m config c))"
  by (auto simp: receiver_chain_decrypt_def bounded_chain_def key_store_merge_bounded remove_message_key_def
      split: sum.split prod.split found_message_key.split intro: le_trans [OF length_filter_le])

lemma receiver_chain_decrypt_error: "fst (receiver_chain_decrypt K m config c) = Inl e \<Longrightarrow> snd (receiver_chain_decrypt K m config c) = c"
  by (auto simp: receiver_chain_decrypt_def split: sum.splits prod.splits found_message_key.splits)

lemma chain_store_find_bounded:
  assumes "chain_store_find key f cs = Some (r, cs')" "\<And>c. bounded_chain c \<Longrightarrow> bounded_chain (snd (f c))"
    "\<forall>c\<in>set cs. bounded_chain c"
  shows "length cs' = length cs \<and> (\<forall>c\<in>set cs'. bounded_chain c)"
  using assms(1,3)
proof (induction cs arbitrary: cs')
  case (Cons c cs)
  then show ?case using assms(2) [of c] by (auto simp: case_prod_beta split: if_splits)
qed simp

lemma chain_store_find_error:
  assumes "chain_store_find key f cs = Some (Inl e, cs')" "\<And>c e. fst (f c) = Inl e \<Longrightarrow> snd (f c) = c"
  shows "cs' = cs"
  using assms(1)
proof (induction cs arbitrary: cs')
  case (Cons c cs)
  then show ?case using assms(2) [of c] by (auto simp: case_prod_beta split: if_splits)
qed simp

lemma active_advance_bounded: "active_advance K key r = Some (i, c) \<Longrightarrow> bounded_chain c"
  by (auto simp: active_advance_def receiver_chain_new_def bounded_chain_def Let_def)

lemma double_ratchet_advance_bounded: "double_ratchet_advance K fresh key d = (Some (d', c), r) \<Longrightarrow> bounded_chain c"
  by (cases d) (auto simp: double_ratchet_advance_def dest: active_advance_bounded split: option.splits)

lemma chain_store_push_bounded:
  assumes "length cs \<le> MAX_RECEIVING_CHAINS" "\<forall>c\<in>set cs. bounded_chain c" "bounded_chain c"
  shows "length (chain_store_push c cs) \<le> MAX_RECEIVING_CHAINS \<and> (\<forall>x\<in>set (chain_store_push c cs). bounded_chain x)"
  using chain_store.length_push [OF assms(1), of c] chain_store.set_push [OF assms(1), of c] assms(2,3) by blast

lemma receiver_chain_decrypt_pushed:
  assumes "receiver_chain_decrypt K m config c = (r, c')" "bounded_chain c" "bounded_session s"
  shows "bounded_session (s\<lparr>os_sending_ratchet := d, os_receiving_chains := chain_store_push c' (os_receiving_chains s)\<rparr>)"
proof -
  have "bounded_chain c'" using receiver_chain_decrypt_bounded [OF assms(2), of K m config] assms(1) by simp
  moreover have "length (os_receiving_chains s) \<le> MAX_RECEIVING_CHAINS" "\<forall>c\<in>set (os_receiving_chains s). bounded_chain c"
    using assms(3) unfolding bounded_session_def by blast+
  ultimately show ?thesis using chain_store_push_bounded unfolding bounded_session_def by simp
qed

lemma olm_decrypt_decoded_bounded:
  assumes "bounded_session s"
  shows "bounded_session (snd (olm_decrypt_decoded K fresh m s))"
proof (cases "chain_store_find (om_ratchet_key m) (receiver_chain_decrypt K m (os_config s)) (os_receiving_chains s)")
  case (Some x)
  obtain r cs where x: "x = (r, cs)" by fastforce
  have "length cs = length (os_receiving_chains s) \<and> (\<forall>c\<in>set cs. bounded_chain c)"
    using chain_store_find_bounded [OF Some [unfolded x] receiver_chain_decrypt_bounded] assms by (simp add: bounded_session_def)
  with Some x assms show ?thesis by (simp add: olm_decrypt_decoded_def bounded_session_def)
next
  case None
  obtain adv r where d: "double_ratchet_advance K fresh (om_ratchet_key m) (os_sending_ratchet s) = (adv, r)" by fastforce
  show ?thesis
  proof (cases adv)
    case None
    with \<open>chain_store_find _ _ _ = None\<close> d assms show ?thesis by (simp add: olm_decrypt_decoded_def bounded_session_def)
  next
    case (Some x)
    obtain d' c where x: "x = (d', c)" by fastforce
    obtain res c' where c': "receiver_chain_decrypt K m (os_config s) c = (res, c')" by fastforce
    have "bounded_chain c" using d Some x double_ratchet_advance_bounded by blast
    with receiver_chain_decrypt_pushed [OF c' _ assms] None d Some x c' assms show ?thesis
      by (cases res) (simp_all add: olm_decrypt_decoded_def, simp add: bounded_session_def)
  qed
qed

lemma session_step_bounded: "bounded_session s \<Longrightarrow> bounded_session (session_step K x s)"
proof (induction K x s rule: session_step.induct)
  case (1 K plaintext fresh s)
  then show ?case by (simp add: olm_encrypt_def bounded_session_def case_prod_beta Let_def)
next
  case (2 K m fresh s)
  then show ?case by (cases m) (simp_all add: olm_decrypt_def olm_decrypt_decoded_bounded)
qed

lemma double_ratchet_advance_kept:
  "double_ratchet_advance K fresh key d = (adv, d') \<Longrightarrow>
     d' = d \<or> (\<exists>r r'. d = Inactive r \<and> activate K fresh r = Some r' \<and> d' = Active r')"
  by (cases d) (auto simp: double_ratchet_advance_def split: option.splits)

lemma olm_decrypt_decoded_error:
  assumes "olm_decrypt_decoded K fresh m s = (Inl e, s')"
  shows "s' = s \<or> (\<exists>r r'. os_sending_ratchet s = Inactive r \<and> activate K fresh r = Some r'
    \<and> s' = s\<lparr>os_sending_ratchet := Active r'\<rparr>)"
proof (cases "chain_store_find (om_ratchet_key m) (receiver_chain_decrypt K m (os_config s)) (os_receiving_chains s)")
  case (Some x)
  obtain r cs where x: "x = (r, cs)" by fastforce
  with Some assms have r: "r = Inl e" "s' = s\<lparr>os_receiving_chains := cs\<rparr>" by (simp_all add: olm_decrypt_decoded_def)
  have "cs = os_receiving_chains s"
    using chain_store_find_error [OF Some [unfolded x r(1)] receiver_chain_decrypt_error] by simp
  with r(2) show ?thesis by simp
next
  case None
  obtain adv d where d: "double_ratchet_advance K fresh (om_ratchet_key m) (os_sending_ratchet s) = (adv, d)" by fastforce
  have "s' = s\<lparr>os_sending_ratchet := d\<rparr>"
    using None d assms by (auto simp: olm_decrypt_decoded_def split: option.splits prod.splits sum.splits)
  with double_ratchet_advance_kept [OF d] show ?thesis by auto
qed

text \<open>
  (C11) Sessions stay bounded, and a message that is refused does no harm. Whatever is encrypted and
  whatever messages arrive, forged ones included, a session never keeps more than five receiving chains
  with forty skipped keys each. A message that cannot be decrypted changes nothing, except that a
  session that has not answered yet may draw the ratchet key of its answer.
\<close>

theorem olm_session_robust:
  "bounded_session (fold (session_step K) ops (olm_session_new K fresh config secret keys))
   \<and> bounded_session (fold (session_step K) ops (olm_session_new_remote K config secret ratchet_key keys))
   \<and> (case olm_decrypt K drawn m s of
        (Inr _, _) \<Rightarrow> True
      | (Inl _, s') \<Rightarrow> s' = s \<or> (\<exists>r r'. os_sending_ratchet s = Inactive r \<and> activate K drawn r = Some r'
          \<and> s' = s\<lparr>os_sending_ratchet := Active r'\<rparr>))"
proof (intro conjI)
  have fold: "bounded_session s \<Longrightarrow> bounded_session (fold (session_step K) ops s)" for s
    by (induction ops arbitrary: s) (simp_all add: session_step_bounded)
  show "bounded_session (fold (session_step K) ops (olm_session_new K fresh config secret keys))"
    by (rule fold) (simp add: bounded_session_def olm_session_new_def)
  show "bounded_session (fold (session_step K) ops (olm_session_new_remote K config secret ratchet_key keys))"
    by (rule fold) (simp add: bounded_session_def olm_session_new_remote_def case_prod_beta chain_store_push_def push_evicting_def
        MAX_RECEIVING_CHAINS_def bounded_chain_def receiver_chain_new_def)
  show "case olm_decrypt K drawn m s of (Inr _, _) \<Rightarrow> True
      | (Inl _, s') \<Rightarrow> s' = s \<or> (\<exists>r r'. os_sending_ratchet s = Inactive r \<and> activate K drawn r = Some r'
          \<and> s' = s\<lparr>os_sending_ratchet := Active r'\<rparr>)"
  proof (cases "olm_decrypt K drawn m s")
    case (Pair r s')
    then obtain n where "olm_decrypt_decoded K drawn n s = (r, s')" by (cases m) (auto simp: olm_decrypt_def)
    with olm_decrypt_decoded_error [of K drawn n s _ s'] Pair show ?thesis by (cases r) simp_all
  qed
qed

end
