(* ===== verification/One_Time_Keys.thy ===== *)
theory One_Time_Keys
  imports Olm_Account Olm_Chain
begin

text \<open>
  The store of one-time keys of an Olm account keeps each key in up to three maps, by its ID, by its
  public key and as unpublished. It implements a bounded queue of secret keys, each marked as published
  or not, which forgets its oldest key when it is full. The simulation relates the store to the entries
  (ID, secret key, published) in the order in which they were generated.
\<close>

section \<open>The queue\<close>

type_synonym key_queue = "(string \<times> bool) list"

datatype otk_op = OtkGenerate "string list" | OtkRemove string | OtkPublish | OtkPickle

datatype otk_answer = OtkKeys "string list" "string list" | OtkSecret "string option" | OtkDone

definition queue_get :: "'a olm_crypto_scheme \<Rightarrow> string \<Rightarrow> key_queue \<Rightarrow> string option" where
  "queue_get K public_key q = map_option fst (find (\<lambda>x. k_x25519_public K (fst x) = public_key) q)"

definition queue_unpublished :: "'a olm_crypto_scheme \<Rightarrow> key_queue \<Rightarrow> string list" where
  "queue_unpublished K q = map (\<lambda>x. k_x25519_public K (fst x)) (filter (\<lambda>x. \<not> snd x) q)"

fun queue_step :: "'a olm_crypto_scheme \<Rightarrow> otk_op \<Rightarrow> key_queue \<Rightarrow> otk_answer \<times> key_queue" where
  "queue_step K (OtkGenerate fresh) q =
     (let all = q @ map (\<lambda>s. (s, False)) fresh
      in (OtkKeys (map (k_x25519_public K) fresh)
            (map (\<lambda>x. k_x25519_public K (fst x)) (evicted MAX_ONE_TIME_KEYS all)),
          last_n MAX_ONE_TIME_KEYS all))"
| "queue_step K (OtkRemove public_key) q =
     (OtkSecret (queue_get K public_key q), filter (\<lambda>x. k_x25519_public K (fst x) \<noteq> public_key) q)"
| "queue_step K OtkPublish q = (OtkDone, map (\<lambda>x. (fst x, True)) q)"
| "queue_step K OtkPickle q = (OtkDone, q)"

fun otk_step :: "'a olm_crypto_scheme \<Rightarrow> otk_op \<Rightarrow> one_time_keys \<Rightarrow> otk_answer \<times> one_time_keys" where
  "otk_step K (OtkGenerate fresh) o1 =
     (let ((created, removed), o1) = otk_generate K fresh o1 in (OtkKeys created removed, o1))"
| "otk_step K (OtkRemove public_key) o1 =
     (let (secret, o1) = otk_remove_secret_key public_key o1 in (OtkSecret secret, o1))"
| "otk_step K OtkPublish o1 = (OtkDone, otk_mark_as_published o1)"
| "otk_step K OtkPickle o1 = (OtkDone, otk_from_pickle K (otk_to_pickle o1))"

fun run_steps :: "('op \<Rightarrow> 's \<Rightarrow> 'r \<times> 's) \<Rightarrow> 'op list \<Rightarrow> 's \<Rightarrow> 'r list \<times> 's" where
  "run_steps f [] s = ([], s)"
| "run_steps f (x # xs) s = (let (r, s) = f x s; (rs, s) = run_steps f xs s in (r # rs, s))"

fun op_keys :: "otk_op \<Rightarrow> string list" where
  "op_keys (OtkGenerate fresh) = fresh"
| "op_keys _ = []"

section \<open>The simulation\<close>

lemma disjoint_subset: "A \<inter> C = {} \<Longrightarrow> B \<subseteq> A \<Longrightarrow> B \<inter> C = {}"
  by auto

type_synonym otk_entry = "64 word \<times> string \<times> bool"

definition by_id :: "otk_entry list \<Rightarrow> (64 word \<times> string) list" where
  "by_id ts = map (\<lambda>t. (fst t, fst (snd t))) ts"

definition by_key :: "'a olm_crypto_scheme \<Rightarrow> otk_entry list \<Rightarrow> (string \<times> 64 word) list" where
  "by_key K ts = map (\<lambda>t. (k_x25519_public K (fst (snd t)), fst t)) ts"

definition unpublished :: "'a olm_crypto_scheme \<Rightarrow> otk_entry list \<Rightarrow> (64 word \<times> string) list" where
  "unpublished K ts = map (\<lambda>t. (fst t, k_x25519_public K (fst (snd t)))) (filter (\<lambda>t. \<not> snd (snd t)) ts)"

definition otk_rel :: "'a olm_crypto_scheme \<Rightarrow> one_time_keys \<Rightarrow> otk_entry list \<Rightarrow> bool" where
  "otk_rel K o1 ts \<longleftrightarrow> private_keys o1 = by_id ts \<and> unpublished_public_keys o1 = unpublished K ts
     \<and> map_of (key_ids_by_key o1) = map_of (by_key K ts) \<and> sorted_wrt (<) (map fst ts)
     \<and> (\<forall>t\<in>set ts. fst t < next_key_id o1) \<and> distinct (map fst (by_key K ts))"

lemmas entry_defs = by_id_def by_key_def unpublished_def

lemma entries_simps [simp]:
  "by_id [] = []" "by_key K [] = []" "unpublished K [] = []"
  "by_id (ts @ us) = by_id ts @ by_id us" "by_key K (ts @ us) = by_key K ts @ by_key K us"
  "unpublished K (ts @ us) = unpublished K ts @ unpublished K us"
  "map fst (by_id ts) = map fst ts" "length (by_id ts) = length ts" "length (by_key K ts) = length ts"
  by (auto simp: entry_defs)

lemma fst_unpublished: "fst ` set (unpublished K ts) \<subseteq> fst ` set ts"
  by (force simp: unpublished_def)

lemma by_id_delete: "hm_remove i (by_id ts) = by_id (filter (\<lambda>t. fst t \<noteq> i) ts)"
  by (induction ts) (auto simp: by_id_def AList.delete_eq)

lemma unpublished_delete: "hm_remove i (unpublished K ts) = unpublished K (filter (\<lambda>t. fst t \<noteq> i) ts)"
  by (induction ts) (auto simp: unpublished_def AList.delete_eq)

lemma by_key_delete: "hm_remove k (by_key K ts) = by_key K (filter (\<lambda>t. k_x25519_public K (fst (snd t)) \<noteq> k) ts)"
  by (induction ts) (auto simp: by_key_def AList.delete_eq)

lemma otk_rel_unique:
  assumes "otk_rel K o1 ts" "(i, s, p) \<in> set ts"
  shows "filter (\<lambda>t. fst t \<noteq> i) ts = filter (\<lambda>t. k_x25519_public K (fst (snd t)) \<noteq> k_x25519_public K s) ts"
proof (rule filter_cong)
  fix t assume t: "t \<in> set ts"
  have "distinct (map fst ts)" "distinct (map (\<lambda>t. k_x25519_public K (fst (snd t))) ts)"
    using assms(1) by (auto simp: otk_rel_def strict_sorted_iff by_key_def comp_def)
  with t assms(2) show "fst t \<noteq> i \<longleftrightarrow> k_x25519_public K (fst (snd t)) \<noteq> k_x25519_public K s"
    by (auto simp: distinct_map inj_on_def case_prod_beta) (metis fst_conv snd_conv)+
qed simp

lemma otk_rel_remove:
  assumes "otk_rel K o1 ts" "(i, s, p) \<in> set ts"
    and o2: "key_ids_by_key o2 = hm_remove (k_x25519_public K s) (key_ids_by_key o1)"
      "unpublished_public_keys o2 = hm_remove i (unpublished_public_keys o1)"
      "private_keys o2 = hm_remove i (private_keys o1)" "next_key_id o2 = next_key_id o1"
  shows "otk_rel K o2 (filter (\<lambda>t. fst t \<noteq> i) ts)"
proof -
  let ?ts = "filter (\<lambda>t. fst t \<noteq> i) ts" and ?k = "k_x25519_public K s"
  have "map_of (hm_remove ?k (key_ids_by_key o1)) = map_of (hm_remove ?k (by_key K ts))"
    using assms(1) by (simp add: otk_rel_def)
  also have "\<dots> = map_of (by_key K ?ts)" by (simp only: by_key_delete otk_rel_unique [OF assms(1,2)])
  finally have "map_of (hm_remove ?k (key_ids_by_key o1)) = map_of (by_key K ?ts)" .
  moreover have "distinct (map fst (by_key K ?ts))" "sorted_wrt (<) (map fst ?ts)"
    using assms(1) by (auto simp: otk_rel_def by_key_def comp_def distinct_map_filter sorted_wrt_map intro: sorted_wrt_filter)
  ultimately show ?thesis using assms(1) o2 by (simp add: otk_rel_def by_id_delete unpublished_delete)
qed

lemma otk_rel_ids: "otk_rel K o1 ts \<Longrightarrow> hm_wf (by_id ts) \<and> hm_wf (by_key K ts)"
  by (simp add: otk_rel_def strict_sorted_iff)

lemma otk_rel_lookup:
  assumes "otk_rel K o1 ts"
  shows "map_of (key_ids_by_key o1) k = map_option fst (find (\<lambda>t. k_x25519_public K (fst (snd t)) = k) ts)"
    and "(i, s, p) \<in> set ts \<Longrightarrow> map_of (private_keys o1) i = Some s"
proof -
  have "map_of (by_key K us) k = map_option fst (find (\<lambda>t. k_x25519_public K (fst (snd t)) = k) us)" for us
    by (induction us) (auto simp: by_key_def)
  then show "map_of (key_ids_by_key o1) k = map_option fst (find (\<lambda>t. k_x25519_public K (fst (snd t)) = k) ts)"
    using assms by (simp add: otk_rel_def)
  show "map_of (private_keys o1) i = Some s" if "(i, s, p) \<in> set ts"
    using that assms otk_rel_ids [OF assms] by (intro map_of_is_SomeI) (force simp: otk_rel_def by_id_def)+
qed

lemma find_snd: "find (\<lambda>x. P (snd x)) ts = None \<and> find P (map snd ts) = None
    \<or> (\<exists>t\<in>set ts. P (snd t) \<and> find (\<lambda>x. P (snd x)) ts = Some t \<and> find P (map snd ts) = Some (snd t))"
  by (induction ts) auto

lemma otk_rel_find:
  assumes "otk_rel K o1 ts"
  obtains (None) "map_of (key_ids_by_key o1) k = None" "queue_get K k (map snd ts) = None"
      "filter (\<lambda>x. k_x25519_public K (fst x) \<noteq> k) (map snd ts) = map snd ts"
  | (Some) i s p where "(i, s, p) \<in> set ts" "k_x25519_public K s = k" "map_of (key_ids_by_key o1) k = Some i"
      "queue_get K k (map snd ts) = Some s" "map_of (private_keys o1) i = Some s"
proof -
  let ?P = "\<lambda>x. k_x25519_public K (fst x) = k"
  consider "find (\<lambda>x. ?P (snd x)) ts = None" "find ?P (map snd ts) = None"
    | t where "t \<in> set ts" "?P (snd t)" "find (\<lambda>x. ?P (snd x)) ts = Some t" "find ?P (map snd ts) = Some (snd t)"
    using find_snd [of ?P ts] by fast
  then show ?thesis
  proof cases
    case 1
    with None show ?thesis
      by (force simp: otk_rel_lookup(1) [OF assms] queue_get_def find_None_iff filter_id_conv)
  next
    case 2
    obtain i s p where t: "t = (i, s, p)" by (metis prod.exhaust)
    with 2 show ?thesis
      using otk_rel_lookup(2) [OF assms, of i s p]
      by (intro Some [of i s p]) (simp_all add: otk_rel_lookup(1) [OF assms] queue_get_def)
  qed
qed

section \<open>The operations\<close>

lemma otk_get_refines:
  assumes "otk_rel K o1 ts"
  shows "otk_get_secret_key k o1 = queue_get K k (map snd ts)"
  using assms by (cases rule: otk_rel_find [of K o1 ts k]) (simp_all add: otk_get_secret_key_def)

lemma otk_remove_refines:
  assumes "otk_rel K o1 ts" "otk_step K (OtkRemove k) o1 = (r, o2)"
  shows "\<exists>us. otk_rel K o2 us \<and> next_key_id o2 = next_key_id o1 \<and> set us \<subseteq> set ts \<and> length us \<le> length ts
    \<and> queue_step K (OtkRemove k) (map snd ts) = (r, map snd us)"
  using assms(1)
proof (cases rule: otk_rel_find [of K o1 ts k])
  case None
  with assms show ?thesis by (intro exI [of _ ts]) (simp add: otk_remove_secret_key_def)
next
  case (Some i s p)
  have "filter (\<lambda>x. k_x25519_public K (fst x) \<noteq> k) (map snd ts) = map snd (filter (\<lambda>t. fst t \<noteq> i) ts)"
    using otk_rel_unique [OF assms(1) Some(1)] Some(2) by (simp add: filter_map comp_def)
  with Some assms otk_rel_remove [OF assms(1) Some(1), of o2] show ?thesis
    by (intro exI [of _ "filter (\<lambda>t. fst t \<noteq> i) ts"]) (auto simp: otk_remove_secret_key_def)
qed

lemma otk_publish_refines:
  assumes "otk_rel K o1 ts"
  shows "otk_rel K (otk_mark_as_published o1) (map (\<lambda>t. (fst t, fst (snd t), True)) ts)"
proof -
  have "by_id (map (\<lambda>t. (fst t, fst (snd t), True)) ts) = by_id ts" "by_key K (map (\<lambda>t. (fst t, fst (snd t), True)) ts) = by_key K ts"
    "unpublished K (map (\<lambda>t. (fst t, fst (snd t), True)) ts) = []" "map fst (map (\<lambda>t. (fst t, fst (snd t), True)) ts) = map fst ts"
    by (auto simp: entry_defs filter_map comp_def)
  with assms show ?thesis by (auto simp: otk_rel_def otk_mark_as_published_def comp_def)
qed

lemma otk_pickle_refines:
  assumes "otk_rel K o1 ts"
  shows "otk_rel K (otk_from_pickle K (otk_to_pickle o1)) ts"
proof -
  have fold: "distinct (map fst (by_key K us)) \<Longrightarrow>
      map_of (fold (\<lambda>(k, v). hm_insert (k_x25519_public K v) k) (by_id us) m) = map_of m ++ map_of (by_key K us)" for us m
  proof (induction us arbitrary: m)
    case (Cons t us)
    have "by_key K (t # us) = (k_x25519_public K (fst (snd t)), fst t) # by_key K us"
      "by_id (t # us) = (fst t, fst (snd t)) # by_id us" by (simp_all add: entry_defs)
    with Cons show ?case by (force simp: fun_eq_iff map_add_def map_of_eq_None_iff split: option.split)
  qed simp
  show ?thesis
    using assms fold [of ts "[]"] by (simp add: otk_rel_def otk_from_pickle_def otk_to_pickle_def)
qed

lemma otk_evict_refines:
  assumes "otk_rel K o1 ts" "length ts \<le> MAX_ONE_TIME_KEYS" "otk_evict K o1 = (removed, o2)"
  shows "otk_rel K o2 (if length ts = MAX_ONE_TIME_KEYS then tl ts else ts) \<and> next_key_id o2 = next_key_id o1
    \<and> removed = (if length ts = MAX_ONE_TIME_KEYS then Some (k_x25519_public K (fst (snd (hd ts)))) else None)"
proof (cases "length ts = MAX_ONE_TIME_KEYS")
  case True
  then obtain i s p us where ts: "ts = (i, s, p) # us"
    by (cases ts) (auto simp: MAX_ONE_TIME_KEYS_def PUBLIC_MAX_ONE_TIME_KEYS_def)
  have priv: "private_keys o1 = (i, s) # by_id us" using assms(1) ts by (simp add: otk_rel_def entry_defs)
  have us: "filter (\<lambda>t. fst t \<noteq> i) ts = us" using assms(1) ts by (auto simp: otk_rel_def filter_id_conv)
  have "hm_remove i (private_keys o1) = by_id us"
    using assms(1) us by (simp add: otk_rel_def by_id_delete)
  with otk_rel_remove [OF assms(1), of i s p o2] assms(3) True ts us priv show ?thesis
    by (auto simp: otk_evict_def Let_def)
next
  case False
  with assms show ?thesis by (simp add: otk_evict_def otk_rel_def)
qed

lemma otk_insert_refines:
  assumes "otk_rel K o1 ts" "k_x25519_public K fresh \<notin> (\<lambda>t. k_x25519_public K (fst (snd t))) ` set ts"
    and "unat (next_key_id o1) + 1 < 2 ^ 64"
    and "next_key_id o2 = next_key_id o1 + 1"
      "private_keys o2 = bt_insert (next_key_id o1) fresh (private_keys o1)"
      "key_ids_by_key o2 = hm_insert (k_x25519_public K fresh) (next_key_id o1) (key_ids_by_key o1)"
      "unpublished_public_keys o2 = bt_insert (next_key_id o1) (k_x25519_public K fresh) (unpublished_public_keys o1)"
  shows "otk_rel K o2 (ts @ [(next_key_id o1, fresh, False)])"
proof -
  have ids: "fst t < next_key_id o1" if "t \<in> set ts" for t using assms(1) that by (simp add: otk_rel_def)
  have step: "next_key_id o1 < next_key_id o1 + 1"
    using assms(3) by (simp add: word_less_nat_alt unat_word_ariths)
  have later: "\<forall>t\<in>set ts. fst t < next_key_id o1 + 1" using ids step less_trans by blast
  have "bt_insert (next_key_id o1) fresh (by_id ts) = by_id ts @ [(next_key_id o1, fresh)]"
    using ids by (intro bt_insert_last) (auto simp: by_id_def)
  moreover have "bt_insert (next_key_id o1) v (unpublished K ts) = unpublished K ts @ [(next_key_id o1, v)]" for v
    using ids by (intro bt_insert_last) (auto simp: unpublished_def)
  moreover have "k_x25519_public K fresh \<notin> fst ` set (by_key K ts)" using assms(2) by (force simp: by_key_def)
  moreover from this have "map_of (by_key K ts @ [(k_x25519_public K fresh, i)]) = (map_of (by_key K ts))(k_x25519_public K fresh \<mapsto> i)" for i
    by (auto simp: fun_eq_iff map_add_def map_of_eq_None_iff [symmetric] split: option.split)
  ultimately show ?thesis
    using assms(1,4-7) ids step later by (simp add: otk_rel_def sorted_wrt_append) (simp add: entry_defs)
qed

lemma MAX_ONE_TIME_KEYS_pos [simp]: "0 < MAX_ONE_TIME_KEYS"
  by (simp add: MAX_ONE_TIME_KEYS_def PUBLIC_MAX_ONE_TIME_KEYS_def)

lemma generate_one_time_key_refines:
  assumes "otk_rel K o1 ts" "length ts \<le> MAX_ONE_TIME_KEYS" "unat (next_key_id o1) + 1 < 2 ^ 64"
    and fresh: "k_x25519_public K fresh \<notin> (\<lambda>t. k_x25519_public K (fst (snd t))) ` set ts"
    and gen: "generate_one_time_key K fresh o1 = ((created, removed), o2)"
  shows "otk_rel K (o2\<lparr>next_key_id := next_key_id o2 + 1\<rparr>) (last_n MAX_ONE_TIME_KEYS (ts @ [(next_key_id o1, fresh, False)]))"
    and "next_key_id o2 = next_key_id o1" "created = k_x25519_public K fresh"
    and "(case removed of None \<Rightarrow> [] | Some k \<Rightarrow> [k])
      = map (\<lambda>x. k_x25519_public K (fst x)) (evicted MAX_ONE_TIME_KEYS (map snd ts @ [(fresh, False)]))"
proof -
  obtain r o' where e: "otk_evict K o1 = (r, o')" by fastforce
  let ?o = "o'\<lparr>private_keys := bt_insert (next_key_id o1) fresh (private_keys o'),
      key_ids_by_key := hm_insert (k_x25519_public K fresh) (next_key_id o1) (key_ids_by_key o'),
      unpublished_public_keys := bt_insert (next_key_id o1) (k_x25519_public K fresh) (unpublished_public_keys o')\<rparr>"
  have o2: "o2 = ?o" and o': "otk_evict K o1 = (removed, o')" and created: "created = k_x25519_public K fresh"
    using gen e by (auto simp: generate_one_time_key_def otk_insert_secret_key_def Let_def)
  let ?us = "if length ts = MAX_ONE_TIME_KEYS then tl ts else ts"
  note ev = otk_evict_refines [OF assms(1,2) o']
  have us: "?us @ [x] = last_n MAX_ONE_TIME_KEYS (ts @ [x])" for x
    using push_evicting [OF assms(2), of x] by (auto simp: push_evicting_def drop_Suc)
  have "k_x25519_public K fresh \<notin> (\<lambda>t. k_x25519_public K (fst (snd t))) ` set ?us"
    using fresh by (cases ts) auto
  with otk_insert_refines [of K o' ?us fresh "o2\<lparr>next_key_id := next_key_id o2 + 1\<rparr>"] ev assms(3) o2
  show "otk_rel K (o2\<lparr>next_key_id := next_key_id o2 + 1\<rparr>) (last_n MAX_ONE_TIME_KEYS (ts @ [(next_key_id o1, fresh, False)]))"
    by (simp add: us)
  show "next_key_id o2 = next_key_id o1" "created = k_x25519_public K fresh" using ev o2 created by simp_all
  show "(case removed of None \<Rightarrow> [] | Some k \<Rightarrow> [k])
      = map (\<lambda>x. k_x25519_public K (fst x)) (evicted MAX_ONE_TIME_KEYS (map snd ts @ [(fresh, False)]))"
  proof (cases "length ts = MAX_ONE_TIME_KEYS")
    case True
    then obtain t ts' where "ts = t # ts'" using MAX_ONE_TIME_KEYS_pos by (cases ts) auto
    with True ev show ?thesis by (simp add: evicted_def Suc_diff_le)
  qed (use ev assms(2) in \<open>simp add: evicted_def\<close>)
qed

lemma otk_generate_loop_refines:
  assumes "otk_rel K o1 ts" "length ts \<le> MAX_ONE_TIME_KEYS" "unat (next_key_id o1) + length fresh < 2 ^ 64"
    and "distinct (map (k_x25519_public K) fresh)"
    and "(\<lambda>t. k_x25519_public K (fst (snd t))) ` set ts \<inter> k_x25519_public K ` set fresh = {}"
    and "otk_generate_loop K fresh created removed o1 = ((created', removed'), o2)"
  shows "\<exists>us. otk_rel K o2 us \<and> unat (next_key_id o2) = unat (next_key_id o1) + length fresh
    \<and> map snd us = last_n MAX_ONE_TIME_KEYS (map snd ts @ map (\<lambda>s. (s, False)) fresh)
    \<and> created' = created @ map (k_x25519_public K) fresh
    \<and> removed' = removed @ map (\<lambda>x. k_x25519_public K (fst x)) (evicted MAX_ONE_TIME_KEYS (map snd ts @ map (\<lambda>s. (s, False)) fresh))"
  using assms
proof (induction fresh arbitrary: o1 ts created removed)
  case Nil
  then show ?case by (intro exI [of _ ts]) (auto simp: evicted_def)
next
  case (Cons f fresh)
  obtain c r o' where gen: "generate_one_time_key K f o1 = ((c, r), o')" by (metis prod.exhaust)
  have step: "unat (next_key_id o1) + 1 < 2 ^ 64" using Cons.prems(3) by simp
  have f: "k_x25519_public K f \<notin> (\<lambda>t. k_x25519_public K (fst (snd t))) ` set ts" using Cons.prems(5) by auto
  note g = generate_one_time_key_refines [OF Cons.prems(1,2) step f gen]
  let ?o = "o'\<lparr>next_key_id := next_key_id o' + 1\<rparr>" and ?ts = "last_n MAX_ONE_TIME_KEYS (ts @ [(next_key_id o1, f, False)])"
  let ?r = "case r of None \<Rightarrow> removed | Some k \<Rightarrow> removed @ [k]"
  have step': "unat (next_key_id o1 + 1) = unat (next_key_id o1) + 1"
    using step by (simp add: unat_word_ariths)
  have disjoint: "(\<lambda>t. k_x25519_public K (fst (snd t))) ` set ?ts \<inter> k_x25519_public K ` set fresh = {}"
  proof (rule disjoint_subset)
    show "(\<lambda>t. k_x25519_public K (fst (snd t))) ` set (ts @ [(next_key_id o1, f, False)]) \<inter> k_x25519_public K ` set fresh = {}"
      using Cons.prems(4,5) by auto
  qed (rule image_mono [OF set_last_n])
  have loop: "otk_generate_loop K fresh (created @ [c]) ?r ?o = ((created', removed'), o2)"
    using Cons.prems(6) gen by simp
  have "length ?ts \<le> MAX_ONE_TIME_KEYS" "unat (next_key_id ?o) + length fresh < 2 ^ 64" "distinct (map (k_x25519_public K) fresh)"
    using Cons.prems(3,4) step' g(2) by simp_all
  from Cons.IH [OF g(1) this disjoint loop]
  obtain us where us: "otk_rel K o2 us" "unat (next_key_id o2) = unat (next_key_id ?o) + length fresh"
    "map snd us = last_n MAX_ONE_TIME_KEYS (map snd ?ts @ map (\<lambda>s. (s, False)) fresh)"
    "created' = (created @ [c]) @ map (k_x25519_public K) fresh"
    "removed' = ?r @ map (\<lambda>x. k_x25519_public K (fst x)) (evicted MAX_ONE_TIME_KEYS (map snd ?ts @ map (\<lambda>s. (s, False)) fresh))"
    by blast
  have ts: "map snd ?ts = last_n MAX_ONE_TIME_KEYS (map snd ts @ [(f, False)])" by (simp add: map_last_n)
  have r: "?r = removed @ map (\<lambda>x. k_x25519_public K (fst x)) (evicted MAX_ONE_TIME_KEYS (map snd ts @ [(f, False)]))"
    using g(4) by (simp split: option.splits)
  show ?case
    using us g(2,3) step' evicted_append [of MAX_ONE_TIME_KEYS "map snd ts @ [(f, False)]" "map (\<lambda>s. (s, False)) fresh"]
    unfolding ts r by (intro exI [of _ us]) (simp add: last_n_append)
qed

lemma otk_step_refines:
  assumes "otk_rel K o1 ts" "length ts \<le> MAX_ONE_TIME_KEYS" "unat (next_key_id o1) + length (op_keys x) < 2 ^ 64"
    and "distinct (map (k_x25519_public K) (op_keys x))"
    and "(\<lambda>t. k_x25519_public K (fst (snd t))) ` set ts \<inter> k_x25519_public K ` set (op_keys x) = {}"
    and "otk_step K x o1 = (r, o2)"
  shows "\<exists>us. otk_rel K o2 us \<and> length us \<le> MAX_ONE_TIME_KEYS \<and> queue_step K x (map snd ts) = (r, map snd us)
    \<and> unat (next_key_id o2) = unat (next_key_id o1) + length (op_keys x)
    \<and> fst ` snd ` set us \<subseteq> fst ` snd ` set ts \<union> set (op_keys x)"
proof (cases x)
  case (OtkGenerate fresh)
  obtain created removed where loop: "otk_generate_loop K fresh [] [] o1 = ((created, removed), o2)"
    and r: "r = OtkKeys created removed"
    using assms(6) OtkGenerate by (auto simp: otk_generate_def split: prod.splits)
  let ?all = "map snd ts @ map (\<lambda>s. (s, False)) fresh"
  obtain us where us: "otk_rel K o2 us" "unat (next_key_id o2) = unat (next_key_id o1) + length fresh"
    "map snd us = last_n MAX_ONE_TIME_KEYS ?all" "created = [] @ map (k_x25519_public K) fresh"
    "removed = [] @ map (\<lambda>x. k_x25519_public K (fst x)) (evicted MAX_ONE_TIME_KEYS ?all)"
    using otk_generate_loop_refines [OF assms(1,2) _ _ _ loop] assms(3-5) OtkGenerate by auto
  have len: "length us \<le> MAX_ONE_TIME_KEYS" using arg_cong [OF us(3), of length] by simp
  have "set (map snd us) \<subseteq> set ?all" unfolding us(3) by (rule set_last_n)
  then have "fst ` set (map snd us) \<subseteq> fst ` set ?all" by (rule image_mono)
  then have "fst ` snd ` set us \<subseteq> fst ` snd ` set ts \<union> set fresh" by (simp add: image_Un image_image)
  with us len r OtkGenerate show ?thesis by (intro exI [of _ us]) (simp add: Let_def)
next
  case (OtkRemove k)
  then obtain us where "otk_rel K o2 us" "next_key_id o2 = next_key_id o1" "set us \<subseteq> set ts" "length us \<le> length ts"
    "queue_step K x (map snd ts) = (r, map snd us)"
    using otk_remove_refines [OF assms(1), of k r o2] assms(6) by auto
  with assms(2) OtkRemove show ?thesis by (intro exI [of _ us]) auto
next
  case OtkPublish
  with assms otk_publish_refines [OF assms(1)] show ?thesis
    by (intro exI [of _ "map (\<lambda>t. (fst t, fst (snd t), True)) ts"]) (auto simp: otk_mark_as_published_def image_image)
next
  case OtkPickle
  with assms otk_pickle_refines [OF assms(1)] show ?thesis
    by (intro exI [of _ ts]) (auto simp: otk_from_pickle_def otk_to_pickle_def)
qed

lemma otk_run_refines:
  assumes "otk_rel K o1 ts" "length ts \<le> MAX_ONE_TIME_KEYS"
    and "unat (next_key_id o1) + length (concat (map op_keys ops)) < 2 ^ 64"
    and "distinct (map (k_x25519_public K) (concat (map op_keys ops)))"
    and "(\<lambda>t. k_x25519_public K (fst (snd t))) ` set ts \<inter> k_x25519_public K ` set (concat (map op_keys ops)) = {}"
    and "run_steps (otk_step K) ops o1 = (answers, o2)"
  shows "\<exists>us. otk_rel K o2 us \<and> length us \<le> MAX_ONE_TIME_KEYS \<and> run_steps (queue_step K) ops (map snd ts) = (answers, map snd us)"
  using assms
proof (induction ops arbitrary: o1 ts answers)
  case Nil
  then show ?case by auto
next
  case (Cons x ops)
  obtain r o' where step: "otk_step K x o1 = (r, o')" by fastforce
  obtain rs where run: "run_steps (otk_step K) ops o' = (rs, o2)" and answers: "answers = r # rs"
    using Cons.prems(6) step by (auto split: prod.splits)
  have step_prems: "unat (next_key_id o1) + length (op_keys x) < 2 ^ 64" "distinct (map (k_x25519_public K) (op_keys x))"
    "(\<lambda>t. k_x25519_public K (fst (snd t))) ` set ts \<inter> k_x25519_public K ` set (op_keys x) = {}"
    using Cons.prems(3-5) by auto
  obtain us where us: "otk_rel K o' us" "length us \<le> MAX_ONE_TIME_KEYS" "queue_step K x (map snd ts) = (r, map snd us)"
    "unat (next_key_id o') = unat (next_key_id o1) + length (op_keys x)"
    "fst ` snd ` set us \<subseteq> fst ` snd ` set ts \<union> set (op_keys x)"
    using otk_step_refines [OF Cons.prems(1,2) step_prems step] by blast
  have "k_x25519_public K ` fst ` snd ` set us \<subseteq> k_x25519_public K ` (fst ` snd ` set ts \<union> set (op_keys x))"
    using us(5) by (rule image_mono)
  moreover have "k_x25519_public K ` (fst ` snd ` set ts \<union> set (op_keys x)) \<inter> k_x25519_public K ` set (concat (map op_keys ops)) = {}"
    using Cons.prems(4,5) by (simp add: image_Un image_image Int_Un_distrib Int_Un_distrib2)
  ultimately have disjoint: "k_x25519_public K ` fst ` snd ` set us \<inter> k_x25519_public K ` set (concat (map op_keys ops)) = {}"
    by (rule disjoint_subset [rotated])
  obtain vs where "otk_rel K o2 vs" "length vs \<le> MAX_ONE_TIME_KEYS" "run_steps (queue_step K) ops (map snd us) = (rs, map snd vs)"
    using Cons.IH [OF us(1,2) _ _ _ run] Cons.prems(3,4) us(4) disjoint by (auto simp: image_image)
  with us(3) answers show ?case by auto
qed

text \<open>
  (C12) The one-time keys of an account are a bounded queue. For any sequence of generating, removing and
  publishing keys and of saving and restoring the store, when no public key is generated twice, the
  three maps of the store answer like one list of secret keys in the order of generation: the created
  keys and those reported as removed to make room, the secret key of a public key, and the keys that are
  still to be published. Keys are forgotten only by being removed or by being the oldest of more than 5000.
\<close>

theorem one_time_keys_queue:
  assumes "length (concat (map op_keys ops)) < 2 ^ 64"
    and "distinct (map (k_x25519_public K) (concat (map op_keys ops)))"
    and "run_steps (otk_step K) ops one_time_keys_new = (answers, o1)"
    and "run_steps (queue_step K) ops [] = (expected, q)"
  shows "answers = expected \<and> (\<forall>k. otk_get_secret_key k o1 = queue_get K k q) \<and> map snd (private_keys o1) = map fst q
    \<and> map snd (unpublished_public_keys o1) = queue_unpublished K q \<and> length q \<le> MAX_ONE_TIME_KEYS"
proof -
  have "otk_rel K one_time_keys_new []" by (simp add: otk_rel_def one_time_keys_new_def)
  from otk_run_refines [OF this _ _ _ _ assms(3)] assms(1,2,4)
  obtain us where us: "otk_rel K o1 us" "length us \<le> MAX_ONE_TIME_KEYS" "expected = answers" "q = map snd us"
    by (auto simp: one_time_keys_new_def)
  with otk_get_refines [OF us(1)] show ?thesis
    by (auto simp: otk_rel_def entry_defs queue_unpublished_def filter_map comp_def)
qed

definition example_ops :: "otk_op list" where
  "example_ops = [OtkGenerate [''a'', ''b''], OtkRemove (fit 32 ''a''), OtkPublish, OtkPickle, OtkGenerate [''c''], OtkRemove (fit 32 ''a'')]"

lemma example_queue:
  "run_steps (queue_step example_olm) example_ops [] =
     ([OtkKeys [fit 32 ''a'', fit 32 ''b''] [], OtkSecret (Some ''a''), OtkDone, OtkDone, OtkKeys [fit 32 ''c''] [], OtkSecret None],
      [(''b'', True), (''c'', False)])"
  by code_simp

theorem one_time_keys_queue_witness:
  "fst (run_steps (otk_step example_olm) example_ops one_time_keys_new)
     = [OtkKeys [fit 32 ''a'', fit 32 ''b''] [], OtkSecret (Some ''a''), OtkDone, OtkDone, OtkKeys [fit 32 ''c''] [], OtkSecret None]
   \<and> otk_get_secret_key (fit 32 ''b'') (snd (run_steps (otk_step example_olm) example_ops one_time_keys_new)) = Some ''b''"
proof -
  have facts: "distinct (map (k_x25519_public example_olm) (concat (map op_keys example_ops)))"
    "length (concat (map op_keys example_ops)) = 3" "queue_get example_olm (fit 32 ''b'') [(''b'', True), (''c'', False)] = Some ''b''"
    by code_simp+
  from facts(2) have "length (concat (map op_keys example_ops)) < 2 ^ 64" by simp
  from one_time_keys_queue [OF this facts(1) prod.collapse [symmetric] example_queue] facts(3)
  show ?thesis by simp
qed

end
