(* ===== verification/Olm_Wire.thy ===== *)
theory Olm_Wire
  imports Olm_Session
begin

text \<open>
  The wire formats of Olm messages: what a session encrypts is decoded to the same message, with its
  type. The two laws are what the documentation of prost promises: decoding reads the fields of a
  message by their tags, and inverts encoding.
\<close>

section \<open>Normal messages\<close>

definition olm_protobuf_law :: "'a olm_crypto_scheme \<Rightarrow> bool" where
  "olm_protobuf_law K \<longleftrightarrow> (\<forall>bs key bs' i bs'' ct.
     read_bytes bs = Some (key, byte 0x10 # bs') \<and> read_varint bs' = Some (i, byte 0x22 # bs'') \<and> i < 2 ^ 64
     \<and> read_bytes bs'' = Some (ct, []) \<longrightarrow> k_protobuf_olm K (byte 0x0A # bs) = Some (key, of_nat i, ct))"

definition pre_key_protobuf_law :: "'a olm_crypto_scheme \<Rightarrow> bool" where
  "pre_key_protobuf_law K \<longleftrightarrow> (\<forall>one_time_key base_key identity_key message.
     length one_time_key = 32 \<and> length base_key = 32 \<and> length identity_key = 32 \<longrightarrow>
     k_protobuf_pre_key K (k_protobuf_pre_key_encode K (one_time_key, base_key, identity_key, message))
       = Some (one_time_key, base_key, identity_key, message))"

definition om_wf :: "normal_message \<Rightarrow> bool" where
  "om_wf m \<longleftrightarrow>
     (case om_mac m of
        Truncated t \<Rightarrow> om_version m = OLM_MAC_TRUNCATED_VERSION \<and> length t = MAC_TRUNCATED_LEN
      | Full t \<Rightarrow> om_version m = OLM_VERSION \<and> length t = MAC_LENGTH)
     \<and> length (om_ratchet_key m) = 32 \<and> length (om_ciphertext m) < 2 ^ 64"

lemma read_bytes_bytes: "length bs < 2 ^ 64 \<Longrightarrow> read_bytes (to_var_int (of_nat (length bs)) @ bs @ rest) = Some (bs, rest)"
  by (simp add: read_bytes_def to_var_int_bytes unat_of_nat read_varint_bytes)

lemma olm_protobufD:
  "olm_protobuf_law K \<Longrightarrow> read_bytes bs = Some (key, byte 0x10 # bs') \<Longrightarrow> read_varint bs' = Some (i, byte 0x22 # bs'') \<Longrightarrow>
     i < 2 ^ 64 \<Longrightarrow> read_bytes bs'' = Some (ct, []) \<Longrightarrow> k_protobuf_olm K (byte 0x0A # bs) = Some (key, of_nat i, ct)"
  unfolding olm_protobuf_law_def by blast

lemma protobuf_olm_encode_manual:
  assumes "olm_protobuf_law K" "length key < 2 ^ 64" "length ct < 2 ^ 64"
  shows "k_protobuf_olm K (drop (Suc 0) (olm_encode_manual v key i ct)) = Some (key, i, ct)"
proof -
  have "k_protobuf_olm K (byte 0x0A # to_var_int (of_nat (length key)) @ key @ byte 0x10 # to_var_int i
      @ byte 0x22 # to_var_int (of_nat (length ct)) @ ct) = Some (key, of_nat (unat i), ct)"
  proof (rule olm_protobufD [OF assms(1) read_bytes_bytes [OF assms(2)]])
    show "read_varint (to_var_int i @ byte 0x22 # to_var_int (of_nat (length ct)) @ ct) =
        Some (unat i, byte 0x22 # to_var_int (of_nat (length ct)) @ ct)"
      by (simp add: to_var_int_bytes read_varint_bytes)
    show "read_bytes (to_var_int (of_nat (length ct)) @ ct) = Some (ct, [])"
      using read_bytes_bytes [OF assms(3), of "[]"] by simp
    show "unat i < 2 ^ 64" using unsigned_less [of i, where 'a = nat] by simp
  qed
  then show ?thesis by (simp add: olm_encode_manual_def)
qed

lemma om_from_bytes_to_bytes:
  assumes "olm_protobuf_law K" "om_wf m"
  shows "om_from_bytes K (om_to_bytes m) = Inr m"
proof -
  define e where "e = om_encode m"
  obtain c x where e: "e = c # x" "of_char c = om_version m" "x \<noteq> []"
    by (simp add: e_def om_encode_def olm_encode_manual_def)
  have "k_protobuf_olm K x = Some (om_ratchet_key m, om_chain_index m, om_ciphertext m)"
    using protobuf_olm_encode_manual [OF assms(1), of "om_ratchet_key m" "om_ciphertext m" "om_version m" "om_chain_index m"] assms(2) e(1)
    by (simp add: e_def om_encode_def om_wf_def)
  moreover have "1 \<le> length x" using e(3) by (cases x) auto
  ultimately show ?thesis
    using assms(2) e
    by (cases "om_mac m")
      (simp_all add: om_from_bytes_def om_to_bytes_def om_wf_def e_def [symmetric] Let_def extract_mac_def curve25519_from_slice_def
        OLM_VERSION_def OLM_MAC_TRUNCATED_VERSION_def MAC_LENGTH_def MAC_TRUNCATED_LEN_def drop_Cons')
qed

section \<open>What a session sends\<close>

lemma encrypted_wf:
  assumes "hmac_law K" "length (mk_ratchet_key k) = 32" "\<forall>key iv. length (k_aes_encrypt K key iv plaintext) < 2 ^ 64"
  shows "om_wf (mk_encrypt K k plaintext)" "om_wf (mk_encrypt_truncated_mac K k plaintext)"
  using assms
  by (simp_all add: om_wf_def mk_encrypt_def mk_encrypt_truncated_mac_def om_set_mac_def om_new_def om_new_truncated_mac_def
      Let_def hmac_law_def cipher_mac_def cipher_encrypt_def mac_truncate_def MAC_LENGTH_def MAC_TRUNCATED_LEN_def)

lemma next_message_key_wf: "x25519_law K \<Longrightarrow> next_message_key K fresh d = (Some k, d') \<Longrightarrow> length (mk_ratchet_key k) = 32"
  by (auto simp: next_message_key_def active_next_message_key_def create_message_key_def x25519_law_def Let_def
      split: double_ratchet.splits option.splits)

lemma olm_encrypt_wf:
  assumes "hmac_law K" "x25519_law K" "\<forall>key iv. length (k_aes_encrypt K key iv plaintext) < 2 ^ 64"
    and "olm_encrypt K fresh plaintext s = (Inr m, s')"
  shows "\<exists>n. om_wf n \<and> m = (if has_received_message s then OlmNormal n
      else OlmPreKey \<lparr>pk_session_keys = os_session_keys s, pk_message = n\<rparr>)"
proof -
  obtain k d where k: "next_message_key K fresh (os_sending_ratchet s) = (k, d)" by fastforce
  with assms(4) obtain k' where k': "k = Some k'"
    by (cases k; cases "olm_version (os_config s)")
      (auto simp: olm_encrypt_def double_ratchet_encrypt_def double_ratchet_encrypt_truncated_mac_def Let_def)
  note wf = encrypted_wf [OF assms(1) next_message_key_wf [OF assms(2) k [unfolded k']] assms(3)]
  show ?thesis
    using assms(4) k k' wf
    by (cases "olm_version (os_config s)")
      (auto simp: olm_encrypt_def double_ratchet_encrypt_def double_ratchet_encrypt_truncated_mac_def Let_def has_received_message_def)
qed

lemma pre_key_from_bytes_to_bytes:
  assumes "olm_protobuf_law K" "pre_key_protobuf_law K" "om_wf (pk_message m)"
    and "length (olm_identity_key (pk_session_keys m)) = 32" "length (olm_base_key (pk_session_keys m)) = 32"
      "length (olm_one_time_key (pk_session_keys m)) = 32"
  shows "pre_key_from_bytes K (pre_key_to_bytes K m) = Inr m"
proof -
  have "k_protobuf_pre_key K (k_protobuf_pre_key_encode K (olm_one_time_key (pk_session_keys m), olm_base_key (pk_session_keys m),
        olm_identity_key (pk_session_keys m), om_to_bytes (pk_message m)))
      = Some (olm_one_time_key (pk_session_keys m), olm_base_key (pk_session_keys m),
        olm_identity_key (pk_session_keys m), om_to_bytes (pk_message m))"
    using assms(2,4-6) unfolding pre_key_protobuf_law_def by blast
  with assms(4-6) om_from_bytes_to_bytes [OF assms(1,3)] show ?thesis
    by (simp add: pre_key_from_bytes_def pre_key_to_bytes_def Let_def PRE_KEY_VERSION_def curve25519_from_slice_def)
qed


lemma example_protobuf_laws: "olm_protobuf_law example_olm" "pre_key_protobuf_law example_olm"
  by (auto simp: olm_protobuf_law_def pre_key_protobuf_law_def example_olm_def read_tag_def)

definition example_session :: olm_session where
  "example_session = olm_session_new example_olm ''fresh'' \<lparr>olm_version = OlmV1\<rparr> ''secret''
     \<lparr>olm_identity_key = fit 32 ''id'', olm_base_key = fit 32 ''base'', olm_one_time_key = fit 32 ''otk''\<rparr>"

definition example_sent :: olm_message where
  "example_sent = projr (fst (olm_encrypt example_olm ''f'' ''hello'' example_session))"


end
