(* ===== verification/Push_Matching.thy ===== *)
theory Push_Matching
  imports Prelude
begin

text \<open>
  The string matching of push rules, \<open>common-types/src/push/condition.rs\<close>: characters at byte
  positions, the search for a word, and the regular expression for a pattern with wildcards.

  A character is the list of its UTF-8 bytes. \<open>None\<close> stands for a call that does not return, because it
  panics or because its loop does not end. The record holds what the code takes from elsewhere: the
  crates \<open>regex\<close> and \<open>wildmatch\<close>, and the Unicode tables of \<open>str::to_lowercase\<close>.
\<close>

record push_engine =
  x_regex_escape :: "string \<Rightarrow> string"
  x_regex_new :: "string \<Rightarrow> (string \<Rightarrow> bool) option"
  x_wild_match :: "string \<Rightarrow> string \<Rightarrow> bool"
  x_to_lowercase :: "string \<Rightarrow> string"

section \<open>Strings\<close>

text \<open>
  \<open>str::find\<close> with a string. With a closure on characters it is a search for the first byte: the
  closures here only accept or reject ASCII characters, and a byte of another character is not ASCII.
\<close>

fun str_find_str :: "string \<Rightarrow> string \<Rightarrow> nat option" where
  "str_find_str p s =
     (if take (length p) s = p then Some 0
      else case s of [] \<Rightarrow> None | _ # cs \<Rightarrow> map_option Suc (str_find_str p cs))"

declare str_find_str.simps [simp del]

fun str_find_by :: "(char \<Rightarrow> bool) \<Rightarrow> string \<Rightarrow> nat option" where
  "str_find_by P [] = None"
| "str_find_by P (c # cs) = (if P c then Some 0 else map_option Suc (str_find_by P cs))"

fun is_word_char :: "string \<Rightarrow> bool" where
  "is_word_char [c] \<longleftrightarrow> is_ascii_alphanumeric c \<or> c = CHR ''_''"
| "is_word_char _ \<longleftrightarrow> False"

declare is_word_char.simps [simp del]

abbreviation word_byte :: "char \<Rightarrow> bool" where
  "word_byte c \<equiv> is_word_char [c]"

text \<open>The loop of \<open>char_len\<close> from a length on.\<close>

partial_function (option) char_len :: "string \<Rightarrow> nat \<Rightarrow> nat \<Rightarrow> nat option" where [code]:
  "char_len s index len =
     (if is_char_boundary s (index + len) then Some len else char_len s index (len + 1))"

definition char_at :: "string \<Rightarrow> nat \<Rightarrow> string option" where
  "char_at s index =
     Option.bind (char_len s index 1) (\<lambda>len.
       if is_char_boundary s index then Some (take len (drop index s)) else None)"

fun prev_boundary :: "string \<Rightarrow> nat \<Rightarrow> nat" where
  "prev_boundary s pos =
     (if pos = 0 \<or> is_char_boundary s pos then pos else prev_boundary s (pos - 1))"

declare prev_boundary.simps [simp del]

definition find_prev_char :: "string \<Rightarrow> nat \<Rightarrow> string option option" where
  "find_prev_char s index =
     (if index = 0 then Some None else map_option Some (char_at s (prev_boundary s (index - 1))))"

section \<open>Patterns\<close>

abbreviation wildcard :: "char \<Rightarrow> bool" where
  "wildcard c \<equiv> c = CHR ''?'' \<or> c = CHR ''*''"

fun dec_digits :: "nat \<Rightarrow> string" where
  "dec_digits n = (if n < 10 then [] else dec_digits (n div 10)) @ [char_of (48 + n mod 10)]"

declare dec_digits.simps [simp del]

definition wildcards_to_regex :: "string \<Rightarrow> string" where
  "wildcards_to_regex s =
     (let question_marks = dec_digits (length (filter (\<lambda>c. c = CHR ''?'') s))
      in if CHR ''*'' \<in> set s then ''.{'' @ question_marks @ '',}'' else ''.{'' @ question_marks @ ''}'')"

fun wildcard_chunks :: "push_engine \<Rightarrow> string \<Rightarrow> (nat \<times> char) list \<Rightarrow> string list \<Rightarrow> bool \<Rightarrow> nat
    \<Rightarrow> string list \<times> bool \<times> nat" where
  "wildcard_chunks X pattern [] chunks prev_wildcard chunk_start = (chunks, prev_wildcard, chunk_start)"
| "wildcard_chunks X pattern ((i, c) # rest) chunks prev_wildcard chunk_start =
     (if wildcard c \<and> \<not> prev_wildcard
      then
        if i \<noteq> 0
        then wildcard_chunks X pattern rest
               (chunks @ [x_regex_escape X (drop chunk_start (take i pattern))]) True i
        else wildcard_chunks X pattern rest chunks True chunk_start
      else if prev_wildcard
      then wildcard_chunks X pattern rest
             (chunks @ [wildcards_to_regex (drop chunk_start (take i pattern))]) False i
      else wildcard_chunks X pattern rest chunks prev_wildcard chunk_start)"

text \<open>The chunks of a pattern, with the last one, and the regular expression for words made of them.\<close>

definition pattern_chunks :: "push_engine \<Rightarrow> string \<Rightarrow> string list" where
  "pattern_chunks X pattern =
     (let (chunks, prev_wildcard, chunk_start) =
        wildcard_chunks X pattern (enumerate 0 pattern) [] False 0
      in if \<not> prev_wildcard then chunks @ [x_regex_escape X (drop chunk_start pattern)]
         else chunks @ [wildcards_to_regex (drop chunk_start pattern)])"

definition word_regex :: "push_engine \<Rightarrow> string \<Rightarrow> string" where
  "word_regex X pattern =
     ''(?-u:^|'' @ [CHR 0x5C] @ ''W|'' @ [CHR 0x5C] @ ''b)'' @ concat (pattern_chunks X pattern)
     @ ''(?-u:'' @ [CHR 0x5C] @ ''b|'' @ [CHR 0x5C] @ ''W|$)''"

definition word_match_at :: "string \<Rightarrow> string \<Rightarrow> nat \<Rightarrow> bool option" where
  "word_match_at s pattern start =
     (let end1 = start + length pattern
      in Option.bind (char_at s start) (\<lambda>c.
         Option.bind
           (if \<not> is_word_char c then Some True
            else map_option (\<lambda>prev. \<not> (\<exists>c\<in>set_option prev. is_word_char c)) (find_prev_char s start))
           (\<lambda>word_boundary_start.
         if \<not> word_boundary_start then Some False
         else if end1 = length s then Some True
         else Option.bind (Option.bind (find_prev_char s end1) id) (\<lambda>prev.
              if \<not> is_word_char prev then Some True
              else map_option (\<lambda>c. \<not> is_word_char c) (char_at s end1)))))"

definition next_word :: "string \<Rightarrow> nat \<Rightarrow> string option" where
  "next_word s start =
     (let non_word_str = drop start s
      in Option.bind (str_find_by (\<lambda>c. \<not> word_byte c) non_word_str) (\<lambda>non_word.
         let word_str = drop non_word non_word_str
         in map_option (\<lambda>word. drop word word_str) (str_find_by word_byte word_str)))"

function matches_word :: "push_engine \<Rightarrow> string \<Rightarrow> string \<Rightarrow> bool option" where
  "matches_word X s pattern =
     (if s = pattern then Some True
      else if pattern = [] then Some False
      else if list_ex wildcard pattern
      then map_option (\<lambda>re. re s) (x_regex_new X (word_regex X pattern))
      else
        case str_find_str pattern s of
          None \<Rightarrow> Some False
        | Some start \<Rightarrow>
            Option.bind (word_match_at s pattern start) (\<lambda>found.
              if found then Some True
              else
                case next_word s start of
                  None \<Rightarrow> Some False
                | Some rest \<Rightarrow> matches_word X rest pattern))"
  by pat_completeness auto

text \<open>Where the search goes on after a failed match: behind the rest of the word and what separates it from the next.\<close>

definition skip :: "string \<Rightarrow> nat \<Rightarrow> nat" where
  "skip s start =
     (let w = length (takeWhile word_byte (drop start s))
      in start + w + length (takeWhile (\<lambda>c. \<not> word_byte c) (drop (start + w) s)))"

lemma str_find_by_takeWhile:
  "str_find_by P s =
     (if length (takeWhile (\<lambda>c. \<not> P c) s) = length s then None else Some (length (takeWhile (\<lambda>c. \<not> P c) s)))"
  by (induction s) auto

lemma next_word_skip:
  assumes "start < length s"
  shows "next_word s start = (if skip s start < length s then Some (drop (skip s start) s) else None)"
proof -
  define w where "w = length (takeWhile word_byte (drop start s))"
  define v where "v = length (takeWhile (\<lambda>c. \<not> word_byte c) (drop (start + w) s))"
  have le: "w \<le> length s - start" "v \<le> length s - (start + w)"
    using length_takeWhile_le [of word_byte "drop start s"] length_takeWhile_le [of "\<lambda>c. \<not> word_byte c" "drop (start + w) s"]
    by (simp_all add: w_def v_def)
  have skip: "skip s start = start + w + v" by (simp add: skip_def w_def v_def Let_def)
  have find: "str_find_by (\<lambda>c. \<not> word_byte c) (drop start s) = (if w = length s - start then None else Some w)"
    by (simp add: str_find_by_takeWhile w_def)
  have "str_find_by word_byte (drop (start + w) s) = (if v = length s - (start + w) then None else Some v)"
    by (simp add: str_find_by_takeWhile v_def)
  moreover have "drop w (drop start s) = drop (start + w) s" by (simp add: add.commute)
  ultimately have "next_word s start =
      (if w = length s - start then None else if v = length s - (start + w) then None else Some (drop v (drop (start + w) s)))"
    by (simp add: next_word_def find ac_simps)
  with le assms show ?thesis by (auto simp: skip ac_simps)
qed

lemma skip_progress:
  assumes "start < length s"
  shows "start < skip s start"
proof (cases "word_byte (s ! start)")
  case True
  then have "takeWhile word_byte (drop start s) \<noteq> []"
    using assms by (simp add: takeWhile_eq_Nil_iff hd_drop_conv_nth)
  then show ?thesis by (simp add: skip_def Let_def)
next
  case False
  then have w: "takeWhile word_byte (drop start s) = []" "takeWhile (\<lambda>c. \<not> word_byte c) (drop start s) \<noteq> []"
    using assms by (simp_all add: takeWhile_eq_Nil_iff hd_drop_conv_nth)
  then show ?thesis by (simp add: skip_def Let_def)
qed

lemma next_word_shorter: "next_word s start = Some rest \<Longrightarrow> length rest < length s"
proof (cases "start < length s")
  case True
  then show "next_word s start = Some rest \<Longrightarrow> ?thesis"
    using skip_progress [OF True] by (auto simp: next_word_skip split: if_splits)
qed (simp add: next_word_def)

termination matches_word
  by (relation "measure (\<lambda>(_, s, _). length s)") (auto dest: next_word_shorter)

declare matches_word.simps [simp del]

section \<open>UTF-8\<close>

text \<open>How strings are cut into characters; that is all that matters of UTF-8 here.\<close>

definition continuation :: "char \<Rightarrow> bool" where
  "continuation c \<longleftrightarrow> 128 \<le> byte c \<and> byte c < 192"

definition follow :: "char \<Rightarrow> nat" where
  "follow c = (if byte c < 128 then 0 else if byte c < 224 then 1 else if byte c < 240 then 2 else 3)"

fun utf8 :: "string \<Rightarrow> bool" where
  "utf8 [] \<longleftrightarrow> True"
| "utf8 (c # cs) \<longleftrightarrow> \<not> continuation c \<and> follow c \<le> length cs \<and> list_all continuation (take (follow c) cs)
     \<and> utf8 (drop (follow c) cs)"

lemma is_char_boundary_iff: "is_char_boundary s i \<longleftrightarrow> i = length s \<or> i < length s \<and> \<not> continuation (s ! i)"
  by (simp add: is_char_boundary_def continuation_def)

lemma word_byte_ascii: "word_byte c \<Longrightarrow> byte c < 128"
  by (auto simp: is_word_char.simps is_ascii_alphanumeric_def is_ascii_digit_def is_ascii_lower_def is_ascii_upper_def byte_def)

lemma utf8_start: "utf8 s \<Longrightarrow> s \<noteq> [] \<Longrightarrow> \<not> continuation (hd s)"
  by (cases s) simp_all

lemma utf8_split:
  assumes "utf8 (x @ y)" "y = [] \<or> \<not> continuation (hd y)"
  shows "utf8 x \<and> utf8 y"
  using assms(1)
proof (induction x rule: utf8.induct)
  case (2 c cs)
  have n: "follow c \<le> length cs"
  proof (rule ccontr)
    assume n: "\<not> follow c \<le> length cs"
    with "2.prems" have y: "y \<noteq> []" by auto
    from n have "take (follow c) (cs @ y) = cs @ take (follow c - length cs) y" "0 < follow c - length cs" by simp_all
    with "2.prems" y have "continuation (hd y)" by (cases y) (auto simp: take_Cons')
    with assms(2) y show False by simp
  qed
  with "2.prems" "2.IH" show ?case by simp
qed simp

lemma utf8_rest: "utf8 (x @ y) \<Longrightarrow> utf8 x \<Longrightarrow> utf8 y"
  by (induction x rule: utf8.induct) auto

section \<open>Characters at positions\<close>

lemma char_len_returns:
  assumes "index + len \<le> length s"
  shows "\<exists>l. char_len s index len = Some l \<and> len \<le> l \<and> index + l \<le> length s \<and> (l = len \<longleftrightarrow> is_char_boundary s (index + len))"
  using assms
proof (induction "length s - (index + len)" arbitrary: len)
  case 0
  then have "index + len = length s" by simp
  then show ?case by (subst char_len.simps) (simp add: is_char_boundary_iff)
next
  case (Suc d)
  show ?case
  proof (cases "is_char_boundary s (index + len)")
    case True
    with Suc.prems show ?thesis by (subst char_len.simps) simp
  next
    case False
    have "d = length s - (index + (len + 1))" "index + (len + 1) \<le> length s" using Suc.hyps(2) by simp_all
    then obtain l where "char_len s index (len + 1) = Some l" "len + 1 \<le> l" "index + l \<le> length s"
      using Suc.hyps(1) [of "len + 1"] by blast
    with False show ?thesis by (subst char_len.simps) simp
  qed
qed

lemma char_at_word:
  assumes "utf8 y" "y \<noteq> []"
  shows "\<exists>c. char_at (x @ y) (length x) = Some c \<and> (is_word_char c \<longleftrightarrow> word_byte (hd y))"
proof -
  let ?s = "x @ y"
  obtain b bs where y: "y = b # bs" using assms(2) by (cases y) auto
  obtain l where l: "char_len ?s (length x) 1 = Some l" "1 \<le> l" "length x + l \<le> length ?s"
    "l = 1 \<longleftrightarrow> is_char_boundary ?s (length x + 1)"
    using char_len_returns [of "length x" 1 ?s] y by auto
  have at: "char_at ?s (length x) = Some (take l y)"
    using l(1) utf8_start [OF assms] assms(2) by (simp add: char_at_def is_char_boundary_iff nth_append hd_conv_nth)
  have "is_word_char (take l y) \<longleftrightarrow> word_byte b"
  proof (cases "l = 1")
    case False
    with l(2,3) y obtain c d rest where "take l y = c # d # rest" by (cases l; cases bs; cases "l - 1") auto
    moreover have "\<not> word_byte b"
    proof
      assume "word_byte b"
      then have "utf8 bs" using assms(1) y word_byte_ascii [of b] by (simp add: follow_def)
      then have "bs \<noteq> [] \<longrightarrow> \<not> continuation (hd bs)" using utf8_start by blast
      then have "is_char_boundary ?s (length x + 1)" using y by (cases bs) (simp_all add: is_char_boundary_iff nth_append)
      with l(4) False show False by simp
    qed
    ultimately show ?thesis by (simp add: is_word_char.simps)
  qed (simp add: y)
  with at y show ?thesis by simp
qed

lemma prev_boundary_spec:
  "prev_boundary s k \<le> k \<and> (prev_boundary s k = 0 \<or> is_char_boundary s (prev_boundary s k))
   \<and> (\<forall>j. prev_boundary s k < j \<and> j \<le> k \<longrightarrow> \<not> is_char_boundary s j)"
proof (induction s k rule: prev_boundary.induct)
  case (1 s pos)
  show ?case
  proof (cases "pos = 0 \<or> is_char_boundary s pos")
    case True
    then show ?thesis by (subst (1 2 3 4) prev_boundary.simps) auto
  next
    case False
    then have "prev_boundary s pos = prev_boundary s (pos - 1)" by (subst prev_boundary.simps) simp
    moreover have "j \<le> pos - 1 \<or> j = pos" if "j \<le> pos" for j using that by auto
    ultimately show ?thesis using "1.IH" [OF False] False by (metis le_trans diff_le_self)
  qed
qed

lemma char_at_nth:
  assumes "utf8 (drop k s)" "k < length s"
  shows "\<exists>c. char_at s k = Some c \<and> (is_word_char c \<longleftrightarrow> word_byte (s ! k))"
  using char_at_word [OF assms(1), of "take k s"] assms(2) by (simp add: hd_drop_conv_nth)

lemma utf8_drop: "utf8 s \<Longrightarrow> k < length s \<Longrightarrow> \<not> continuation (s ! k) \<Longrightarrow> utf8 (drop k s)"
  using utf8_split [of "take k s" "drop k s"] by (simp add: hd_drop_conv_nth)

lemma find_prev_char_nth:
  assumes "utf8 s" "0 < k" "k \<le> length s"
  shows "\<exists>c. find_prev_char s k = Some (Some c) \<and> (is_word_char c \<longleftrightarrow> word_byte (s ! (k - 1)))"
proof -
  define p where "p = prev_boundary s (k - 1)"
  have p: "p \<le> k - 1" "p = 0 \<or> is_char_boundary s p" "\<And>j. p < j \<Longrightarrow> j \<le> k - 1 \<Longrightarrow> \<not> is_char_boundary s j"
    using prev_boundary_spec [of s "k - 1"] by (auto simp: p_def)
  have len: "p < length s" using p(1) assms(2,3) by linarith
  then have start: "\<not> continuation (s ! p)"
    using p(2) utf8_start [OF assms(1)] by (auto simp: is_char_boundary_iff hd_conv_nth)
  note drop = utf8_drop [OF assms(1) len start]
  from char_at_nth [OF drop len] obtain c where c: "char_at s p = Some c" "is_word_char c \<longleftrightarrow> word_byte (s ! p)" by blast
  have "word_byte (s ! p) \<longleftrightarrow> word_byte (s ! (k - 1))"
  proof (cases "p = k - 1")
    case False
    then have p1: "Suc p \<le> k - 1" using p(1) by simp
    have "\<not> word_byte (s ! p)"
    proof
      assume "word_byte (s ! p)"
      then have "utf8 (drop (Suc p) s)"
        using drop word_byte_ascii [of "s ! p"] Cons_nth_drop_Suc [OF len, symmetric] by (simp add: follow_def)
      then have "is_char_boundary s (Suc p)"
        using len utf8_start [of "drop (Suc p) s"] by (auto simp: is_char_boundary_iff hd_drop_conv_nth)
      with p(3) [of "Suc p"] p1 show False by simp
    qed
    moreover have "continuation (s ! (k - 1))"
      using p(3) [of "k - 1"] p1 assms(2,3) by (auto simp: is_char_boundary_iff)
    then have "\<not> word_byte (s ! (k - 1))" using word_byte_ascii [of "s ! (k - 1)"] by (auto simp: continuation_def)
    ultimately show ?thesis by simp
  qed simp
  with c assms(2) show ?thesis by (simp add: find_prev_char_def p_def)
qed

lemma find_prev_char_word:
  assumes "utf8 (x @ y)" "x \<noteq> []"
  shows "\<exists>c. find_prev_char (x @ y) (length x) = Some (Some c) \<and> (is_word_char c \<longleftrightarrow> word_byte (last x))"
  using find_prev_char_nth [OF assms(1), of "length x"] assms(2) by (simp add: nth_append last_conv_nth)

section \<open>Words\<close>

definition word_sep :: "string \<Rightarrow> string \<Rightarrow> bool" where
  "word_sep x y \<longleftrightarrow> x = [] \<or> y = [] \<or> \<not> (word_byte (last x) \<and> word_byte (hd y))"

lemma word_match_at_correct:
  assumes "utf8 (pre @ p @ post)" "utf8 p" "p \<noteq> []"
  shows "word_match_at (pre @ p @ post) p (length pre) = Some (word_sep pre p \<and> word_sep p post)"
proof -
  let ?s = "pre @ p @ post"
  have hd: "\<not> continuation (hd (p @ post))" using utf8_start [OF assms(2,3)] assms(3) by simp
  have utf8: "utf8 (p @ post)" "utf8 post"
    using utf8_split [OF assms(1)] hd utf8_rest [of p post] assms(2) by blast+
  obtain c where c: "char_at ?s (length pre) = Some c" "is_word_char c \<longleftrightarrow> word_byte (hd p)"
    using char_at_word [OF utf8(1), of pre] assms(3) by auto
  have before: "\<exists>d. find_prev_char ?s (length pre) = Some d \<and> ((\<exists>c\<in>set_option d. is_word_char c) \<longleftrightarrow> pre \<noteq> [] \<and> word_byte (last pre))"
    using find_prev_char_word [OF assms(1)] by (cases "pre = []") (auto simp: find_prev_char_def)
  have "\<exists>d. find_prev_char ((pre @ p) @ post) (length (pre @ p)) = Some (Some d) \<and> (is_word_char d \<longleftrightarrow> word_byte (last (pre @ p)))"
    using assms utf8(2) by (intro find_prev_char_word) simp_all
  then obtain d where d: "find_prev_char ?s (length pre + length p) = Some (Some d)" "is_word_char d \<longleftrightarrow> word_byte (last p)"
    using assms(3) by auto
  have after: "\<exists>e. char_at ?s (length pre + length p) = Some e \<and> (is_word_char e \<longleftrightarrow> word_byte (hd post))" if "post \<noteq> []"
    using char_at_word [OF utf8(2) that, of "pre @ p"] by simp
  show ?thesis
    using c before d after assms(3) by (cases "post = []") (auto simp: word_match_at_def word_sep_def Let_def)
qed

definition occurs_at :: "string \<Rightarrow> string \<Rightarrow> nat \<Rightarrow> bool" where
  "occurs_at s p i \<longleftrightarrow> i + length p \<le> length s \<and> take (length p) (drop i s) = p"

definition word_at :: "string \<Rightarrow> string \<Rightarrow> nat \<Rightarrow> bool" where
  "word_at s p i \<longleftrightarrow> occurs_at s p i \<and> word_sep (take i s) p \<and> word_sep p (drop (i + length p) s)"

lemma occurs_at_split: "occurs_at s p i \<Longrightarrow> s = take i s @ p @ drop (i + length p) s"
  by (metis append_take_drop_id drop_drop occurs_at_def add.commute)

lemma occurs_at_append: "occurs_at (x @ p @ y) p (length x)"
  by (simp add: occurs_at_def)

lemma occurs_at_nth: "occurs_at s p i \<Longrightarrow> k < length p \<Longrightarrow> s ! (i + k) = p ! k"
  unfolding occurs_at_def by (metis add_leD1 nth_drop nth_take)

lemma word_at_iff: "(\<exists>i. word_at s p i) \<longleftrightarrow> (\<exists>pre post. s = pre @ p @ post \<and> word_sep pre p \<and> word_sep p post)"
proof
  assume "\<exists>i. word_at s p i"
  then show "\<exists>pre post. s = pre @ p @ post \<and> word_sep pre p \<and> word_sep p post"
    unfolding word_at_def using occurs_at_split by blast
next
  assume "\<exists>pre post. s = pre @ p @ post \<and> word_sep pre p \<and> word_sep p post"
  then obtain pre post where "s = pre @ p @ post" "word_sep pre p" "word_sep p post" by blast
  then have "word_at s p (length pre)" by (simp add: word_at_def occurs_at_def)
  then show "\<exists>i. word_at s p i" ..
qed

lemma str_find_str_spec:
  "case str_find_str p s of
     None \<Rightarrow> \<forall>i. \<not> occurs_at s p i
   | Some start \<Rightarrow> occurs_at s p start \<and> (\<forall>i. i < start \<longrightarrow> \<not> occurs_at s p i)"
proof (induction p s rule: str_find_str.induct)
  case (1 p s)
  show ?case
  proof (cases "take (length p) s = p")
    case True
    then have "length p \<le> length s" by (metis length_take min.cobounded1 min_def)
    with True show ?thesis by (simp add: str_find_str.simps [of p s] occurs_at_def)
  next
    case False
    show ?thesis
    proof (cases s)
      case Nil
      with False show ?thesis by (simp add: str_find_str.simps [of p "[]"] occurs_at_def)
    next
      case (Cons c cs)
      have "occurs_at s p i \<longleftrightarrow> (\<exists>j. i = Suc j \<and> occurs_at cs p j)" for i
        using False Cons by (cases i) (auto simp: occurs_at_def)
      with "1.IH" [OF False Cons] False Cons show ?thesis
        by (auto simp: str_find_str.simps [of p "c # cs"] less_Suc_eq_0_disj split: option.splits)
    qed
  qed
qed

text \<open>No match that is a word starts inside what is skipped after a match that is none.\<close>

lemma skip_run:
  assumes "start \<le> i" "i < skip s start"
  shows "i < length s"
    and "i < start + length (takeWhile word_byte (drop start s)) \<Longrightarrow> word_byte (s ! i)"
    and "start + length (takeWhile word_byte (drop start s)) \<le> i \<Longrightarrow> \<not> word_byte (s ! i)"
proof -
  define w where "w = length (takeWhile word_byte (drop start s))"
  have skip: "skip s start = start + w + length (takeWhile (\<lambda>c. \<not> word_byte c) (drop (start + w) s))"
    by (simp add: skip_def w_def Let_def)
  have le: "w \<le> length s - start" "length (takeWhile (\<lambda>c. \<not> word_byte c) (drop (start + w) s)) \<le> length s - (start + w)"
    using length_takeWhile_le [of word_byte "drop start s"] length_takeWhile_le [of "\<lambda>c. \<not> word_byte c" "drop (start + w) s"]
    by (simp_all add: w_def)
  with assms skip show len: "i < length s" by linarith
  show "word_byte (s ! i)" if "i < start + length (takeWhile word_byte (drop start s))"
  proof -
    have "i - start < length (takeWhile word_byte (drop start s))" using that assms(1) by linarith
    from nth_mem [OF this] takeWhile_nth [OF this] show ?thesis using assms(1) len by (auto dest: set_takeWhileD)
  qed
  show "\<not> word_byte (s ! i)" if "start + length (takeWhile word_byte (drop start s)) \<le> i"
  proof -
    have wi: "start + w \<le> i" using that by (simp add: w_def)
    have "i - (start + w) < length (takeWhile (\<lambda>c. \<not> word_byte c) (drop (start + w) s))"
      using wi assms(2) unfolding skip by linarith
    from nth_mem [OF this] takeWhile_nth [OF this] show ?thesis using wi len by (auto dest: set_takeWhileD)
  qed
qed

lemma last_take_nth: "0 < n \<Longrightarrow> n < length s \<Longrightarrow> last (take n s) = s ! (n - 1)"
  by (cases n) (simp_all add: take_Suc_conv_app_nth)

lemma skip_no_word:
  assumes start: "occurs_at s p start" "\<not> word_at s p start" "p \<noteq> []" and i: "word_at s p i" "start < i"
  shows "skip s start \<le> i"
proof (rule ccontr)
  assume "\<not> skip s start \<le> i"
  then have lt: "i < skip s start" by simp
  let ?w = "length (takeWhile word_byte (drop start s))"
  have occ: "occurs_at s p i" using i(1) by (simp add: word_at_def)
  have hd: "s ! start = hd p" "s ! i = hd p"
    using occurs_at_nth [OF start(1), of 0] occurs_at_nth [OF occ, of 0] start(3) by (simp_all add: hd_conv_nth)
  have start_lt: "start < length s" using i(2) skip_run(1) [OF _ lt] by simp
  show False
  proof (cases "word_byte (hd p)")
    case True
    have "i < start + ?w" using skip_run(3) [of start i s] lt i(2) hd(2) True by (cases "i < start + ?w") auto
    then have "word_byte (s ! (i - 1))" using skip_run(2) [of start "i - 1" s] lt i(2) by simp
    moreover have "last (take i s) = s ! (i - 1)"
      using i(2) skip_run(1) [OF _ lt] by (intro last_take_nth) simp_all
    moreover have "take i s \<noteq> []" using i(2) start_lt by auto
    ultimately show False using i(1) True start(3) by (simp add: word_at_def word_sep_def)
  next
    case False
    then have "takeWhile word_byte (drop start s) = []" using start_lt hd(1) by (simp add: takeWhile_eq_Nil_iff hd_drop_conv_nth)
    then have non: "\<not> word_byte (s ! j)" if "start \<le> j" "j < skip s start" for j using skip_run(3) [of start j s] that by simp
    have "\<exists>k<length p. word_byte (p ! k)"
    proof (rule ccontr)
      assume "\<not> ?thesis"
      then have "\<not> word_byte (last p)" using start(3) by (simp add: last_conv_nth)
      with start False show False by (simp add: word_at_def word_sep_def)
    qed
    then obtain k where k: "k < length p" "word_byte (p ! k)" by blast
    define k0 where "k0 = (LEAST k. k < length p \<and> word_byte (p ! k))"
    have k0: "k0 < length p" "word_byte (p ! k0)" "\<And>k. k < k0 \<Longrightarrow> k < length p \<Longrightarrow> \<not> word_byte (p ! k)"
      using LeastI [of "\<lambda>k. k < length p \<and> word_byte (p ! k)" k] k not_less_Least unfolding k0_def by blast+
    have "skip s start \<le> start + k0"
      using non [of "start + k0"] occurs_at_nth [OF start(1) k0(1)] k0(2)
      by (cases "start + k0 < skip s start") auto
    with lt i(2) obtain d where d: "i = start + d" "0 < d" "d < k0" using less_imp_add_positive [OF i(2)] by force
    have "s ! (i + (k0 - d)) = p ! (k0 - d)" using d k0(1) by (intro occurs_at_nth [OF occ]) simp
    moreover have "s ! (start + k0) = p ! k0" by (rule occurs_at_nth [OF start(1) k0(1)])
    ultimately show False using d k0 by simp
  qed
qed

lemma word_at_drop:
  assumes "n < length s" "0 < n" "\<not> word_byte (s ! (n - 1))"
  shows "word_at (drop n s) p j \<longleftrightarrow> word_at s p (n + j)"
proof -
  have "word_sep (take j (drop n s)) p \<longleftrightarrow> word_sep (take (n + j) s) p"
  proof (cases "j = 0")
    case True
    have "last (take n s) = s ! (n - 1)" using assms(1,2) by (intro last_take_nth)
    with True assms show ?thesis by (simp add: word_sep_def)
  next
    case False
    have "take (n + j) s = take n s @ take j (drop n s)" by (rule take_add)
    with False assms(1) show ?thesis by (simp add: word_sep_def)
  qed
  moreover have "occurs_at (drop n s) p j \<longleftrightarrow> occurs_at s p (n + j)" using assms(1) by (auto simp: occurs_at_def add.commute)
  ultimately show ?thesis by (simp add: word_at_def ac_simps)
qed

lemma skip_before:
  assumes "start < length s" "skip s start < length s"
  shows "0 < skip s start" "\<not> word_byte (s ! (skip s start - 1))" "word_byte (s ! skip s start)"
proof -
  define w where "w = length (takeWhile word_byte (drop start s))"
  define v where "v = length (takeWhile (\<lambda>c. \<not> word_byte c) (drop (start + w) s))"
  have skip: "skip s start = start + w + v" by (simp add: skip_def w_def v_def Let_def)
  show pos: "0 < skip s start" using skip_progress [OF assms(1)] by simp
  have "\<not> word_byte (drop start s ! w)"
    using assms skip nth_length_takeWhile [of word_byte "drop start s"] by (simp add: w_def)
  then have "v \<noteq> 0" using assms skip by (auto simp: v_def takeWhile_eq_Nil_iff hd_drop_conv_nth)
  then have "start + w \<le> skip s start - 1" using skip by simp
  then show "\<not> word_byte (s ! (skip s start - 1))"
    using skip pos by (intro skip_run(3) [of start]) (simp_all add: w_def)
  show "word_byte (s ! skip s start)"
    using assms skip nth_length_takeWhile [of "\<lambda>c. \<not> word_byte c" "drop (start + w) s"] by (simp add: v_def)
qed

lemma word_after_skip:
  assumes "str_find_str p s = Some start" "\<not> word_at s p start" "p \<noteq> []"
  shows "(\<exists>i. word_at s p i) \<longleftrightarrow> (\<exists>rest. next_word s start = Some rest \<and> (\<exists>j. word_at rest p j))"
proof -
  have occ: "occurs_at s p start" "\<And>i. i < start \<Longrightarrow> \<not> occurs_at s p i" using str_find_str_spec [where p = p and s = s] assms(1) by auto
  have len: "start < length s" using occ(1) assms(3) by (cases p) (auto simp: occurs_at_def)
  have later: "skip s start \<le> i" "i < length s" if "word_at s p i" for i
  proof -
    have "start < i" using that occ assms(2) by (metis linorder_neqE_nat word_at_def)
    then show "skip s start \<le> i" by (rule skip_no_word [OF occ(1) assms(2,3) that])
    show "i < length s" using that assms(3) by (cases p) (auto simp: word_at_def occurs_at_def)
  qed
  show ?thesis
  proof (cases "skip s start < length s")
    case True
    note drop = word_at_drop [OF True skip_before(1,2) [OF len True], of p]
    have "(\<exists>i. word_at s p i) \<longleftrightarrow> (\<exists>j. word_at s p (skip s start + j))" using later(1) le_Suc_ex by metis
    moreover have "(\<exists>j. word_at s p (skip s start + j)) \<longleftrightarrow> (\<exists>j. word_at (drop (skip s start) s) p j)" using drop by blast
    ultimately show ?thesis using True by (simp add: next_word_skip [OF len])
  next
    case False
    then show ?thesis using later by (auto simp: next_word_skip [OF len]) (meson le_less_trans)
  qed
qed

lemma next_word_utf8:
  assumes "utf8 s" "next_word s start = Some rest"
  shows "utf8 rest"
proof -
  have len: "start < length s"
  proof (rule ccontr)
    assume "\<not> start < length s"
    with assms(2) show False by (simp add: next_word_def)
  qed
  then have rest: "skip s start < length s" "rest = drop (skip s start) s"
    using assms(2) by (auto simp: next_word_skip split: if_splits)
  have "\<not> continuation (s ! skip s start)"
    using word_byte_ascii [OF skip_before(3) [OF len rest(1)]] by (simp add: continuation_def)
  with utf8_drop [OF assms(1) rest(1)] rest(2) show ?thesis by simp
qed

lemma matches_word_words:
  assumes "utf8 p" "\<not> list_ex wildcard p" "p \<noteq> []" "utf8 s"
  shows "matches_word X s p = Some (\<exists>i. word_at s p i)"
  using assms(4)
proof (induction "length s" arbitrary: s rule: less_induct)
  case less
  show ?case
  proof (cases "s = p")
    case True
    then have "word_at s p 0" by (simp add: word_at_def occurs_at_def word_sep_def)
    with True show ?thesis by (subst matches_word.simps) auto
  next
    case False
    show ?thesis
    proof (cases "str_find_str p s")
      case None
      then have "\<not> word_at s p i" for i using str_find_str_spec [where p = p and s = s] by (simp add: word_at_def)
      with None False assms(2,3) show ?thesis by (subst matches_word.simps) simp
    next
      case (Some start)
      have occ: "occurs_at s p start" using str_find_str_spec [where p = p and s = s] Some by simp
      have "length (take start s) = start" using occ by (auto simp: occurs_at_def)
      then have found: "word_match_at s p start = Some (word_at s p start)"
        using word_match_at_correct [of "take start s" p "drop (start + length p) s"] less.prems assms(1,3) occurs_at_split [OF occ] occ
        by (simp add: word_at_def)
      show ?thesis
      proof (cases "word_at s p start")
        case True
        with found Some False assms(2,3) show ?thesis by (subst matches_word.simps) auto
      next
        case no: False
        show ?thesis
          using found no Some False assms(2,3) word_after_skip [OF Some no assms(3)] next_word_shorter [of s start]
            next_word_utf8 [OF less.prems] less.hyps
          by (subst matches_word.simps) (auto split: option.split)
      qed
    qed
  qed
qed

text \<open>
  (C14) The search for a word is complete. For a pattern without wildcards, the search, which jumps from
  word to word, always returns. It finds the pattern exactly when it occurs somewhere in the string with
  a word boundary on both sides: the start or end of the string, or a place where one of the two
  neighbouring characters is not a letter, digit or underscore.
\<close>

theorem matches_word_correct:
  assumes "utf8 s" "utf8 pattern" "\<not> list_ex wildcard pattern"
  shows "matches_word X s pattern = Some (if pattern = [] then s = []
    else (\<exists>pre post. s = pre @ pattern @ post \<and> word_sep pre pattern \<and> word_sep pattern post))"
proof (cases "pattern = []")
  case True
  then show ?thesis by (subst matches_word.simps) simp
next
  case False
  with matches_word_words [OF assms(2,3) False assms(1)] show ?thesis by (simp add: word_at_iff)
qed

definition example_engine :: push_engine where
  "example_engine = \<lparr>x_regex_escape = id, x_regex_new = (\<lambda>_. None), x_wild_match = (=), x_to_lowercase = id\<rparr>"

theorem matches_word_correct_witness:
  "matches_word example_engine ''foobar foo'' ''foo'' = Some True
   \<and> (\<exists>pre post. ''foobar foo'' = pre @ ''foo'' @ post \<and> word_sep pre ''foo'' \<and> word_sep ''foo'' post)"
proof -
  have "matches_word example_engine ''foobar foo'' ''foo'' = Some True" "utf8 ''foobar foo''" "utf8 ''foo''"
    "\<not> list_ex wildcard ''foo''" by code_simp+
  with matches_word_correct [of "''foobar foo''" "''foo''" example_engine] show ?thesis by simp
qed

section \<open>Wildcards\<close>

text \<open>The intended translation: literal text is escaped, a run of wildcards becomes one repetition.\<close>

function glob_chunks :: "push_engine \<Rightarrow> string \<Rightarrow> string list" where
  "glob_chunks X [] = []"
| "glob_chunks X (c # cs) =
     (if wildcard c
      then wildcards_to_regex (c # takeWhile wildcard cs) # glob_chunks X (dropWhile wildcard cs)
      else x_regex_escape X (c # takeWhile (\<lambda>c. \<not> wildcard c) cs) # glob_chunks X (dropWhile (\<lambda>c. \<not> wildcard c) cs))"
  by pat_completeness auto

termination glob_chunks
  by (relation "measure (\<lambda>(_, s). length s)") (auto simp: le_imp_less_Suc length_dropWhile_le)

definition single_wildcards :: "string \<Rightarrow> bool" where
  "single_wildcards p \<longleftrightarrow> successively (\<lambda>a b. \<not> (wildcard a \<and> wildcard b)) p"

lemma glob_chunks_literal:
  assumes "\<forall>c\<in>set lit. \<not> wildcard c" "lit \<noteq> []" "rest = [] \<or> wildcard (hd rest)"
  shows "glob_chunks X (lit @ rest) = x_regex_escape X lit # glob_chunks X rest"
proof -
  obtain c cs where lit: "lit = c # cs" using assms(2) by (cases lit) auto
  with assms have "takeWhile (\<lambda>c. \<not> wildcard c) (cs @ rest) = cs" "dropWhile (\<lambda>c. \<not> wildcard c) (cs @ rest) = rest"
    by (cases rest; auto simp: takeWhile_append dropWhile_append)+
  with lit assms(1) show ?thesis by simp
qed

lemma glob_chunks_wildcard:
  "wildcard c \<Longrightarrow> rest = [] \<or> \<not> wildcard (hd rest) \<Longrightarrow> glob_chunks X (c # rest) = wildcards_to_regex [c] # glob_chunks X rest"
  by (cases rest) auto

definition last_chunk :: "push_engine \<Rightarrow> string \<Rightarrow> string list \<times> bool \<times> nat \<Rightarrow> string list" where
  "last_chunk X p = (\<lambda>(chunks, prev, start).
     chunks @ [if prev then wildcards_to_regex (drop start p) else x_regex_escape X (drop start p)])"

lemma pattern_chunks_last: "pattern_chunks X p = last_chunk X p (wildcard_chunks X p (enumerate 0 p) [] False 0)"
  by (simp add: pattern_chunks_def last_chunk_def case_prod_beta Let_def)

lemma enumerate_step: "i < length p \<Longrightarrow> enumerate i (drop i p) = (i, p ! i) # enumerate (Suc i) (drop (Suc i) p)"
  by (metis Cons_nth_drop_Suc enumerate_simps(2))

lemma take_drop_step: "start \<le> i \<Longrightarrow> i < length p \<Longrightarrow> drop start (take (Suc i) p) = drop start (take i p) @ [p ! i]"
  by (simp add: take_Suc_conv_app_nth)

lemma drop_split:
  assumes "start \<le> i" "i < length p"
  shows "drop start p = drop start (take i p) @ drop i p"
proof -
  have "drop start (take i p @ drop i p) = drop start (take i p) @ drop i p"
    using assms by (simp del: append_take_drop_id)
  then show ?thesis by simp
qed

lemma single_wildcards_nth: "single_wildcards p \<Longrightarrow> Suc i < length p \<Longrightarrow> wildcard (p ! i) \<Longrightarrow> \<not> wildcard (p ! Suc i)"
  unfolding single_wildcards_def successively_conv_nth by blast

lemma wildcard_chunks_single:
  assumes "single_wildcards p" "p \<noteq> []"
  shows "i \<le> length p \<Longrightarrow> start \<le> i \<Longrightarrow> \<forall>c\<in>set (drop start (take i p)). \<not> wildcard c \<Longrightarrow> start < i \<or> i = 0 \<Longrightarrow>
      last_chunk X p (wildcard_chunks X p (enumerate i (drop i p)) chunks False start) = chunks @ glob_chunks X (drop start p)"
    and "i \<le> length p \<Longrightarrow> i = Suc start \<Longrightarrow> wildcard (p ! start) \<Longrightarrow>
      last_chunk X p (wildcard_chunks X p (enumerate i (drop i p)) chunks True start) = chunks @ glob_chunks X (drop start p)"
proof (induction "length p - i" arbitrary: i start chunks)
  case 0
  {
    case 1
    with 0 have "drop start (take i p) = drop start p" by simp
    moreover have "start < length p" using 1 0 assms(2) by (cases p) auto
    ultimately show ?case using 1 0 glob_chunks_literal [of "drop start p" "[]" X] by (simp add: last_chunk_def)
  next
    case 2
    with 0 have "drop start p = [p ! start]" using Cons_nth_drop_Suc [of start p, symmetric] by simp
    with 2 0 glob_chunks_wildcard [of "p ! start" "[]" X] show ?case by (simp add: last_chunk_def)
  }
next
  case (Suc d)
  then have i: "i < length p" "d = length p - Suc i" "Suc i \<le> length p" by auto
  note split = drop_split [OF _ i(1)]
  {
    case 1
    show ?case
    proof (cases "wildcard (p ! i)")
      case True
      show ?thesis
      proof (cases "i = 0")
        case True
        with 1 \<open>wildcard (p ! i)\<close> i Suc.hyps(2) [OF i(2), of start chunks] enumerate_step [OF i(1)] show ?thesis by simp
      next
        case False
        have "glob_chunks X (drop start p) = x_regex_escape X (drop start (take i p)) # glob_chunks X (drop i p)"
          unfolding split [OF 1(2)] using 1 False True i
          by (intro glob_chunks_literal) (auto simp: hd_drop_conv_nth)
        with 1 False True i Suc.hyps(2) [OF i(2), of i "chunks @ [x_regex_escape X (drop start (take i p))]"]
        show ?thesis by (simp add: enumerate_step)
      qed
    next
      case False
      with 1 i Suc.hyps(1) [OF i(2), of start chunks] show ?thesis by (simp add: enumerate_step take_drop_step)
    qed
  next
    case 2
    have next1: "\<not> wildcard (p ! i)" using single_wildcards_nth [OF assms(1), of start] 2 i(1) by simp
    have chunk: "drop start (take i p) = [p ! start]" using 2 i(1) take_drop_step [of start start p] by simp
    have "glob_chunks X (drop start p) = wildcards_to_regex [p ! start] # glob_chunks X (drop i p)"
      unfolding split [OF Suc_leD [OF eq_imp_le [OF 2(2) [symmetric]]]] chunk
      using 2 next1 i(1) glob_chunks_wildcard [of "p ! start" "drop i p" X] by (simp add: hd_drop_conv_nth)
    with next1 i chunk take_drop_step [of i i p] Suc.hyps(1) [OF i(2), of i "chunks @ [wildcards_to_regex [p ! start]]"]
    show ?case by (simp add: enumerate_step)
  }
qed

lemma wildcard_chunks_literal:
  "\<forall>c\<in>set lit. \<not> wildcard c \<Longrightarrow>
     wildcard_chunks X p (enumerate i lit @ rest) chunks False start = wildcard_chunks X p rest chunks False start"
  by (induction lit arbitrary: i) auto



end
