(* ===== verification/Flattened_Json.thy ===== *)
theory Flattened_Json
  imports Canonical_Json
begin

text \<open>
  The flat representation of events that push rules look into,
  \<open>common-types/src/push/condition/flattened_json.rs\<close>: a map from dot-separated paths, with dots and
  backslashes in keys escaped, to scalars and arrays of scalars. The theorem says that looking up a path
  is following the keys.
\<close>

section \<open>Values\<close>

datatype into_json_subset_error = IntConvert | NotInSubset

datatype scalar_json_value = SNull | SBool bool | SInteger int | SString string

datatype flattened_json_value =
  FNull | FBool bool | FInteger int | FString string | FArray "scalar_json_value list" | EmptyObject

definition scalar_try_from_json_value :: "'a codec_scheme \<Rightarrow> json \<Rightarrow> into_json_subset_error + scalar_json_value" where
  "scalar_try_from_json_value X val =
     (case val of
        JsonBool b \<Rightarrow> Inr (SBool b)
      | JsonString string \<Rightarrow> Inr (SString string)
      | JsonNull \<Rightarrow> Inr SNull
      | JsonArray _ \<Rightarrow> Inl NotInSubset
      | JsonObject _ \<Rightarrow> Inl NotInSubset
      | num \<Rightarrow>
          rbind (ok_or (number_as_i64 num) IntConvert) (\<lambda>i.
            map_ok SInteger (map_err (\<lambda>_. IntConvert) (x_int_try_from X i))))"

definition ok_option :: "'e + 'b \<Rightarrow> 'b option" where
  "ok_option r = (case r of Inl _ \<Rightarrow> None | Inr v \<Rightarrow> Some v)"

definition flattened_from_json_value :: "'a codec_scheme \<Rightarrow> json \<Rightarrow> flattened_json_value option" where
  "flattened_from_json_value X val =
     (case val of
        JsonBool b \<Rightarrow> Some (FBool b)
      | JsonString string \<Rightarrow> Some (FString string)
      | JsonNull \<Rightarrow> Some FNull
      | JsonArray vec \<Rightarrow> Some (FArray (List.map_filter (\<lambda>v. ok_option (scalar_try_from_json_value X v)) vec))
      | JsonObject _ \<Rightarrow> None
      | num \<Rightarrow>
          Option.bind (number_as_i64 num) (\<lambda>i. map_option FInteger (ok_option (x_int_try_from X i))))"

definition flattened_eq_scalar :: "flattened_json_value \<Rightarrow> scalar_json_value \<Rightarrow> bool" where
  "flattened_eq_scalar v other =
     (case v of
        FNull \<Rightarrow> other = SNull
      | FBool b \<Rightarrow> other = SBool b
      | FInteger i \<Rightarrow> other = SInteger i
      | FString s \<Rightarrow> other = SString s
      | FArray _ \<Rightarrow> False
      | EmptyObject \<Rightarrow> False)"

section \<open>Flattening\<close>

type_synonym flattened_json = "(string \<times> flattened_json_value) list"

text \<open>\<open>str::replace\<close> of an ASCII character.\<close>

definition str_replace :: "char \<Rightarrow> string \<Rightarrow> string \<Rightarrow> string" where
  "str_replace c r s = concat (map (\<lambda>x. if x = c then r else [x]) s)"

definition escape_key :: "string \<Rightarrow> string" where
  "escape_key key =
     str_replace CHR ''.'' [CHR 0x5C, CHR ''.''] (str_replace (CHR 0x5C) [CHR 0x5C, CHR 0x5C] key)"

fun flatten_value :: "'a codec_scheme \<Rightarrow> json \<Rightarrow> string \<Rightarrow> flattened_json \<Rightarrow> flattened_json"
  and flatten_fields :: "'a codec_scheme \<Rightarrow> json_object \<Rightarrow> string \<Rightarrow> flattened_json \<Rightarrow> flattened_json" where
  "flatten_value X (JsonObject fs) path m =
     (if fs = [] then bt_insert path EmptyObject m else flatten_fields X fs path m)"
| "flatten_value X v path m =
     (case flattened_from_json_value X v of Some v \<Rightarrow> bt_insert path v m | None \<Rightarrow> m)"
| "flatten_fields X [] path m = m"
| "flatten_fields X ((key, v) # fs) path m =
     (let key = escape_key key;
          new_path = (if path = [] then key else path @ ''.'' @ key)
      in flatten_fields X fs path (flatten_value X v new_path m))"

definition flattened_from_value :: "'a codec_scheme \<Rightarrow> json \<Rightarrow> flattened_json" where
  "flattened_from_value X v = flatten_value X v [] []"

definition flattened_get_str :: "string \<Rightarrow> flattened_json \<Rightarrow> string option" where
  "flattened_get_str path m =
     Option.bind (map_of m path) (\<lambda>v. case v of FString s \<Rightarrow> Some s | _ \<Rightarrow> None)"

section \<open>Paths\<close>

definition extend_path :: "string \<Rightarrow> string \<Rightarrow> string" where
  "extend_path path key = (if path = [] then escape_key key else path @ ''.'' @ escape_key key)"

definition path_of :: "string list \<Rightarrow> string" where
  "path_of ks = foldl extend_path [] ks"

text \<open>Reading the keys of a path back.\<close>

fun path_keys :: "string \<Rightarrow> string \<Rightarrow> string list" where
  "path_keys key [] = [key]"
| "path_keys key (c # cs) =
     (if c = CHR 0x5C then (case cs of [] \<Rightarrow> [key] | d # ds \<Rightarrow> path_keys (key @ [d]) ds)
      else if c = CHR ''.'' then key # path_keys [] cs
      else path_keys (key @ [c]) cs)"

lemma escape_key_simps [simp]:
  "escape_key [] = []"
  "escape_key (c # cs) = (if c = CHR 0x5C \<or> c = CHR ''.'' then [CHR 0x5C, c] else [c]) @ escape_key cs"
  by (simp_all add: escape_key_def str_replace_def)

lemma escape_key_Nil [simp]: "escape_key k = [] \<longleftrightarrow> k = []"
  by (cases k) simp_all

lemma path_keys_escape: "path_keys key (escape_key k @ rest) = path_keys (key @ k) rest"
  by (induction k arbitrary: key) simp_all

lemma path_keys_foldl:
  assumes "[] \<notin> set ks" "path \<noteq> []" "\<And>rest. path_keys [] (path @ rest) = ks0 @ path_keys k rest"
  shows "path_keys [] (foldl extend_path path ks) = ks0 @ k # ks"
  using assms
proof (induction ks arbitrary: path ks0 k)
  case (Cons k' ks)
  have "path_keys [] (extend_path path k' @ rest) = (ks0 @ [k]) @ path_keys k' rest" for rest
    using Cons.prems(2) Cons.prems(3) [of "''.'' @ escape_key k' @ rest"] by (simp add: extend_path_def path_keys_escape)
  with Cons.IH [of "extend_path path k'" "ks0 @ [k]" k'] Cons.prems(1,2) show ?case by (simp add: extend_path_def)
next
  case Nil
  from Nil.prems(3) [of "[]"] show ?case by simp
qed

lemma path_keys_path_of: "[] \<notin> set ks \<Longrightarrow> ks \<noteq> [] \<Longrightarrow> path_keys [] (path_of ks) = ks"
proof (cases ks)
  case (Cons k ks')
  assume ks: "[] \<notin> set ks"
  then show ?thesis
    using path_keys_foldl [of ks' "escape_key k" "[]" k] Cons by (auto simp: path_of_def extend_path_def path_keys_escape)
qed simp

lemma path_of_Nil: "[] \<notin> set ks \<Longrightarrow> path_of ks = [] \<longleftrightarrow> ks = []"
proof (cases ks)
  case (Cons k ks')
  have "path \<noteq> [] \<Longrightarrow> foldl extend_path path ls \<noteq> []" for path ls
    by (induction ls arbitrary: path) (simp_all add: extend_path_def)
  then show "[] \<notin> set ks \<Longrightarrow> ?thesis" using Cons by (auto simp: path_of_def extend_path_def)
qed (simp add: path_of_def)

lemma path_of_inj: "inj_on path_of {ks. [] \<notin> set ks}"
proof (rule inj_onI)
  fix ks ks' assume "ks \<in> {ks. [] \<notin> set ks}" "ks' \<in> {ks. [] \<notin> set ks}" and eq: "path_of ks = path_of ks'"
  then have ks: "[] \<notin> set ks" "[] \<notin> set ks'" by blast+
  show "ks = ks'"
  proof (cases "ks = []")
    case True
    then have "path_of ks' = []" using eq by (simp add: path_of_def)
    then show ?thesis using path_of_Nil [OF ks(2)] True by blast
  next
    case False
    then have "path_of ks' \<noteq> []" using path_of_Nil [OF ks(1)] eq by simp
    then have "ks' \<noteq> []" by (auto simp: path_of_def)
    then have "path_keys [] (path_of ks') = ks'" by (rule path_keys_path_of [OF ks(2)])
    moreover have "path_keys [] (path_of ks) = ks" using ks(1) False by (rule path_keys_path_of)
    ultimately show ?thesis using eq by simp
  qed
qed

section \<open>Looking up a path\<close>

fun json_at :: "json \<Rightarrow> string list \<Rightarrow> json option" where
  "json_at v [] = Some v"
| "json_at (JsonObject fs) (k # ks) = (case map_of fs k of None \<Rightarrow> None | Some v \<Rightarrow> json_at v ks)"
| "json_at _ (k # ks) = None"

text \<open>No key is empty and no key occurs twice, in all objects that are not inside an array.\<close>

fun plain_keys :: "json \<Rightarrow> bool"
  and plain_fields :: "json_object \<Rightarrow> bool" where
  "plain_keys (JsonObject fs) \<longleftrightarrow> plain_fields fs"
| "plain_keys _ \<longleftrightarrow> True"
| "plain_fields [] \<longleftrightarrow> True"
| "plain_fields ((k, v) # fs) \<longleftrightarrow> k \<noteq> [] \<and> k \<notin> fst ` set fs \<and> plain_keys v \<and> plain_fields fs"

definition leaf_value :: "'a codec_scheme \<Rightarrow> json \<Rightarrow> flattened_json_value option" where
  "leaf_value X v = (if v = JsonObject [] then Some EmptyObject else flattened_from_json_value X v)"

fun leaves :: "'a codec_scheme \<Rightarrow> json \<Rightarrow> (string list \<times> flattened_json_value) list"
  and leaves_fields :: "'a codec_scheme \<Rightarrow> json_object \<Rightarrow> (string list \<times> flattened_json_value) list" where
  "leaves X (JsonObject fs) = (if fs = [] then [([], EmptyObject)] else leaves_fields X fs)"
| "leaves X v = (case flattened_from_json_value X v of Some x \<Rightarrow> [([], x)] | None \<Rightarrow> [])"
| "leaves_fields X [] = []"
| "leaves_fields X ((k, v) # fs) = map (\<lambda>(ks, x). (k # ks, x)) (leaves X v) @ leaves_fields X fs"

lemma flatten_leaves:
  "flatten_value X v path m = fold (\<lambda>(ks, x). bt_insert (foldl extend_path path ks) x) (leaves X v) m"
  "flatten_fields X fs path m = fold (\<lambda>(ks, x). bt_insert (foldl extend_path path ks) x) (leaves_fields X fs) m"
proof (induction X v path m and X fs path m rule: flatten_value_flatten_fields.induct)
  case (4 X key v fs path m)
  have prefix: "fold (\<lambda>(ks, x). bt_insert (foldl extend_path path ks) x) (map (\<lambda>(ks, x). (key # ks, x)) ls) m
      = fold (\<lambda>(ks, x). bt_insert (foldl extend_path (extend_path path key) ks) x) ls m" for ls m
    by (induction ls arbitrary: m) auto
  have step: "flatten_fields X ((key, v) # fs) path m = flatten_fields X fs path (flatten_value X v (extend_path path key) m)"
    by (simp add: extend_path_def Let_def)
  show ?case
    unfolding step 4(1) [OF refl refl, folded extend_path_def] 4(2) [OF refl refl, folded extend_path_def, unfolded 4(1) [OF refl refl, folded extend_path_def]]
    by (simp add: prefix)
qed (auto split: option.split)

lemma leaves_fields_key: "(ks, x) \<in> set (leaves_fields X fs) \<Longrightarrow> \<exists>k ks'. ks = k # ks' \<and> k \<in> fst ` set fs"
  by (induction fs) force+

lemma leaves_plain:
  "plain_keys v \<Longrightarrow> distinct (map fst (leaves X v)) \<and> (\<forall>(ks, x)\<in>set (leaves X v). [] \<notin> set ks)"
  "plain_fields fs \<Longrightarrow> distinct (map fst (leaves_fields X fs)) \<and> (\<forall>(ks, x)\<in>set (leaves_fields X fs). [] \<notin> set ks)"
proof (induction X v and X fs rule: leaves_leaves_fields.induct)
  case (4 X k v fs)
  have "k # ks \<notin> fst ` set (leaves_fields X fs)" for ks using leaves_fields_key 4(3) by fastforce
  moreover have "map fst (map (\<lambda>(ks, x). (k # ks, x)) (leaves X v)) = map ((#) k) (map fst (leaves X v))" by auto
  then have "distinct (map fst (map (\<lambda>(ks, x). (k # ks, x)) (leaves X v)))" using 4 by (simp only: distinct_map) (auto simp: inj_on_def)
  ultimately show ?case using 4 by (auto simp: comp_def case_prod_beta)
qed (auto split: option.split)

lemma map_of_leaves:
  "plain_keys v \<Longrightarrow> map_of (leaves X v) ks = Option.bind (json_at v ks) (leaf_value X)"
  "plain_fields fs \<Longrightarrow> map_of (leaves_fields X fs) (k # ks) = Option.bind (Option.bind (map_of fs k) (\<lambda>v. json_at v ks)) (leaf_value X)
     \<and> map_of (leaves_fields X fs) [] = None"
proof (induction X v and X fs arbitrary: ks and k ks rule: leaves_leaves_fields.induct)
  case (1 X fs)
  then show ?case
    by (cases ks) (auto simp: leaf_value_def flattened_from_json_value_def split: option.split)
next
  case (4 X k' v fs)
  have "map_of (map (\<lambda>(ks, x). (k' # ks, x)) ls) (k # ks) = (if k = k' then map_of ls ks else None)" for ls :: "(string list \<times> flattened_json_value) list"
    by (induction ls) auto
  moreover have "map_of (map (\<lambda>(ks, x). (k' # ks, x)) ls) [] = None" for ls :: "(string list \<times> flattened_json_value) list"
    by (induction ls) auto
  moreover have "map_of fs k' = None" using 4(3) by (simp add: map_of_eq_None_iff)
  ultimately have maps: "map_of (leaves_fields X ((k', v) # fs)) (k # ks) =
      (if k = k' then map_of (leaves X v) ks else map_of (leaves_fields X fs) (k # ks))"
    "map_of (leaves_fields X ((k', v) # fs)) [] = map_of (leaves_fields X fs) []"
    using 4(2) [of k' ks] 4(3) by (simp_all add: map_add_def split: option.split)
  have IH: "map_of (leaves X v) ks = Option.bind (json_at v ks) (leaf_value X)"
    "map_of (leaves_fields X fs) (k # ks) = Option.bind (Option.bind (map_of fs k) (\<lambda>v. json_at v ks)) (leaf_value X)"
    "map_of (leaves_fields X fs) [] = None"
    using 4(1) [of ks] 4(2) [of k ks] 4(3) by simp_all
  show ?case unfolding maps IH by simp
next
  case (3 X)
  then show ?case by simp
qed (case_tac ks; simp add: leaf_value_def split: option.split)+

lemma map_of_fold_bt_insert:
  "bt_wf m \<Longrightarrow> map_of (fold (\<lambda>(k, v). bt_insert k v) ys m) = map_of m ++ map_of (rev ys) \<and> bt_wf (fold (\<lambda>(k, v). bt_insert k v) ys m)"
  by (induction ys arbitrary: m) (auto simp: map_of_bt_insert)

lemma map_of_inj: "inj_on f A \<Longrightarrow> fst ` set xs \<subseteq> A \<Longrightarrow> k \<in> A \<Longrightarrow> map_of (map (\<lambda>(k, v). (f k, v)) xs) (f k) = map_of xs k"
  by (induction xs) (auto dest: inj_onD)

lemma flattened_map:
  assumes "plain_keys v"
  shows "map_of (flattened_from_value X v) = map_of (map (\<lambda>(ks, x). (path_of ks, x)) (leaves X v))"
proof -
  let ?ys = "map (\<lambda>(ks, x). (path_of ks, x)) (leaves X v)"
  have keys: "fst ` set (leaves X v) \<subseteq> {ks. [] \<notin> set ks}" "distinct (map fst (leaves X v))" using leaves_plain(1) [OF assms, of X] by force+
  have "distinct (map path_of (map fst (leaves X v)))"
    using keys(2) inj_on_subset [OF path_of_inj keys(1)] by (auto simp: distinct_map intro: comp_inj_on)
  then have dist: "distinct (map fst ?ys)" by (simp add: comp_def case_prod_beta)
  have "flattened_from_value X v = fold (\<lambda>(k, v). bt_insert k v) ?ys []"
    unfolding flattened_from_value_def flatten_leaves(1) path_of_def fold_map by (intro fold_cong) auto
  then have "map_of (flattened_from_value X v) = map_of (rev ?ys)" using map_of_fold_bt_insert [of "[]" ?ys] by simp
  also have "\<dots> = map_of ?ys"
  proof (rule iffD2 [OF map_of_inject_set])
    show "distinct (map fst (rev ?ys))" using dist by (metis distinct_rev rev_map)
  qed (use dist in simp_all)
  finally show ?thesis .
qed

lemma flattened_at_path:
  assumes "plain_keys v" "[] \<notin> set ks"
  shows "map_of (flattened_from_value X v) (path_of ks) = Option.bind (json_at v ks) (leaf_value X)"
proof -
  have "fst ` set (leaves X v) \<subseteq> {ks. [] \<notin> set ks}" using leaves_plain(1) [OF assms(1), of X] by force
  then show ?thesis
    using map_of_inj [OF path_of_inj, of "leaves X v" ks] assms(2) by (simp add: flattened_map [OF assms(1)] map_of_leaves(1) [OF assms(1)])
qed


definition example_event :: json where
  "example_event = JsonObject [(''content'', JsonObject [(''body'', JsonString ''hi''), (''m.x'', JsonArray [JsonBool True, JsonObject []])]), (''sender'', JsonString ''@mod:a.org'')]"


end
