(* ===== verification/Push_Conditions.thy ===== *)
theory Push_Conditions
  imports Push_Matching Flattened_Json Room_Power_Levels
begin

text \<open>
  The conditions of push rules, \<open>common-types/src/push/condition.rs\<close> and
  \<open>condition/room_member_count_is.rs\<close>, on the flat representation of an event and the context of the
  room. \<open>None\<close> stands for a call that does not return. The conditions behind the features for MSC3931 and
  MSC4306 are left out.
\<close>

section \<open>Conditions\<close>

datatype comparison_operator = OpEq | OpLt | OpGt | OpGe | OpLe

record room_member_count_is =
  rmc_prefix :: comparison_operator
  rmc_count :: nat

text \<open>\<open>RangeBounds::contains\<close> with the two bounds.\<close>

definition rmc_contains :: "room_member_count_is \<Rightarrow> nat \<Rightarrow> bool" where
  "rmc_contains is n =
     ((case rmc_prefix is of
         OpEq \<Rightarrow> rmc_count is \<le> n | OpLt \<Rightarrow> True | OpLe \<Rightarrow> True
       | OpGt \<Rightarrow> rmc_count is < n | OpGe \<Rightarrow> rmc_count is \<le> n)
      \<and> (case rmc_prefix is of
           OpEq \<Rightarrow> n \<le> rmc_count is | OpGt \<Rightarrow> True | OpGe \<Rightarrow> True
         | OpLt \<Rightarrow> n < rmc_count is | OpLe \<Rightarrow> n \<le> rmc_count is))"

datatype notification_key = KeyRoom | KeyCustom string

datatype push_condition =
  EventMatch string string
| ContainsDisplayName
| RoomMemberCount room_member_count_is
| SenderNotificationPermission notification_key
| EventPropertyIs string scalar_json_value
| EventPropertyContains string scalar_json_value
| CustomCondition

record push_power_levels_ctx =
  pc_users :: int_map
  pc_users_default :: int
  pc_notifications :: notification_power_levels
  pc_rules :: room_power_levels_rules

record push_room_ctx =
  pc_room_id :: string
  pc_member_count :: nat
  pc_user_id :: string
  pc_user_display_name :: string
  pc_power_levels :: "push_power_levels_ctx option"

definition has_sender_notification_permission :: "push_power_levels_ctx \<Rightarrow> string \<Rightarrow> notification_key \<Rightarrow> bool" where
  "has_sender_notification_permission c user_id key =
     (case (case key of KeyRoom \<Rightarrow> Some (npl_room (pc_notifications c)) | KeyCustom _ \<Rightarrow> None) of
        None \<Rightarrow> False
      | Some notification_power_level \<Rightarrow>
          if (case privileged_creators (pc_rules c) of None \<Rightarrow> False | Some creators \<Rightarrow> user_id \<in> set creators)
          then True
          else
            let user_power_level =
              (case map_of (pc_users c) user_id of None \<Rightarrow> pc_users_default c | Some pl \<Rightarrow> pl)
            in notification_power_level \<le> user_power_level)"

definition push_ctx_from_power_levels :: "room_power_levels \<Rightarrow> push_power_levels_ctx" where
  "push_ctx_from_power_levels p =
     \<lparr>pc_users = rpl_users p, pc_users_default = rpl_users_default p,
      pc_notifications = rpl_notifications p, pc_rules = rpl_rules p\<rparr>"

definition matches_pattern :: "push_engine \<Rightarrow> string \<Rightarrow> string \<Rightarrow> bool \<Rightarrow> bool option" where
  "matches_pattern E s pattern match_words =
     (let s = x_to_lowercase E s; pattern = x_to_lowercase E pattern
      in if match_words then matches_word E s pattern else Some (x_wild_match E pattern s))"

definition check_event_match ::
  "push_engine \<Rightarrow> flattened_json \<Rightarrow> string \<Rightarrow> string \<Rightarrow> push_room_ctx \<Rightarrow> bool option" where
  "check_event_match E event key pattern ctx =
     (case (if key = ''room_id'' then Some (pc_room_id ctx) else flattened_get_str key event) of
        None \<Rightarrow> Some False
      | Some v \<Rightarrow> matches_pattern E v pattern (key = ''content.body''))"

definition push_condition_applies ::
  "push_engine \<Rightarrow> bool \<Rightarrow> push_condition \<Rightarrow> flattened_json \<Rightarrow> push_room_ctx \<Rightarrow> bool option" where
  "push_condition_applies E compat_len condition event ctx =
     (if flattened_get_str ''sender'' event = Some (pc_user_id ctx) then Some False
      else case condition of
        EventMatch key pattern \<Rightarrow> check_event_match E event key pattern ctx
      | ContainsDisplayName \<Rightarrow>
          (case flattened_get_str ''content.body'' event of
             None \<Rightarrow> Some False
           | Some v \<Rightarrow> matches_pattern E v (pc_user_display_name ctx) True)
      | RoomMemberCount is \<Rightarrow> Some (rmc_contains is (pc_member_count ctx))
      | SenderNotificationPermission key \<Rightarrow>
          (case pc_power_levels ctx of
             None \<Rightarrow> Some False
           | Some power_levels \<Rightarrow>
               (case flattened_get_str ''sender'' event of
                  None \<Rightarrow> Some False
                | Some sender_id \<Rightarrow>
                    if \<not> is_ok (user_id_validate compat_len sender_id) then Some False
                    else Some (has_sender_notification_permission power_levels sender_id key)))
      | EventPropertyIs key v \<Rightarrow>
          Some (case map_of event key of None \<Rightarrow> False | Some x \<Rightarrow> flattened_eq_scalar x v)
      | EventPropertyContains key v \<Rightarrow>
          Some (case map_of event key of Some (FArray a) \<Rightarrow> v \<in> set a | _ \<Rightarrow> False)
      | CustomCondition \<Rightarrow> Some False)"

section \<open>Who may notify the room\<close>

lemma permission_agrees:
  "has_sender_notification_permission (push_ctx_from_power_levels p) user_id KeyRoom
     \<longleftrightarrow> user_can_trigger_room_notification p user_id"
  by (simp add: has_sender_notification_permission_def push_ctx_from_power_levels_def for_user_def
      user_can_trigger_room_notification_def is_privileged_creator_def Let_def split: option.split)

text \<open>The path of the sender.\<close>

lemma sender_path: "path_of [''sender''] = ''sender''"
  by code_simp

lemma flattened_sender:
  "plain_keys v \<Longrightarrow> json_at v [''sender''] = Some (JsonString s) \<Longrightarrow> flattened_get_str ''sender'' (flattened_from_value X v) = Some s"
  using flattened_at_path [of v "[''sender'']" X]
  by (simp add: sender_path flattened_get_str_def leaf_value_def flattened_from_json_value_def)

text \<open>
  (C17) Notifying the room needs the power for it. The condition that asks for the permission of the
  sender applies to an event exactly when somebody else sent it and the power levels of the room allow the
  sender to trigger a notification of the room, as clients check it. No condition applies to
  events of the user.
\<close>

theorem room_notification_permission:
  assumes "plain_keys event" "json_at event [''sender''] = Some (JsonString sender)"
    and "pc_power_levels ctx = Some (push_ctx_from_power_levels p)" "is_ok (user_id_validate compat_len sender)"
  shows "push_condition_applies E compat_len (SenderNotificationPermission KeyRoom) (flattened_from_value X event) ctx
      = Some (sender \<noteq> pc_user_id ctx \<and> user_can_trigger_room_notification p sender)
    \<and> (sender = pc_user_id ctx \<longrightarrow> push_condition_applies E compat_len condition (flattened_from_value X event) ctx = Some False)"
  using assms(3,4) flattened_sender [OF assms(1,2), of X] by (simp add: push_condition_applies_def permission_agrees)

definition example_push_ctx :: push_room_ctx where
  "example_push_ctx =
     \<lparr>pc_room_id = ''!r:b'', pc_member_count = 3, pc_user_id = ''@me:b'', pc_user_display_name = ''Me'',
      pc_power_levels = Some (push_ctx_from_power_levels example_power_levels)\<rparr>"

theorem room_notification_permission_witness:
  "push_condition_applies example_engine False (SenderNotificationPermission KeyRoom)
     (flattened_from_value example_codec example_event) example_push_ctx = Some True"
proof -
  have facts: "plain_keys example_event" "json_at example_event [''sender''] = Some (JsonString ''@mod:a.org'')"
    "is_ok (user_id_validate False ''@mod:a.org'')" "user_can_trigger_room_notification example_power_levels ''@mod:a.org''" by code_simp+
  have "pc_power_levels example_push_ctx = Some (push_ctx_from_power_levels example_power_levels)" by (simp add: example_push_ctx_def)
  from room_notification_permission [OF facts(1,2) this facts(3)] facts(4) show ?thesis by (simp add: example_push_ctx_def)
qed

end
