(* ===== verification/Spec2Isabelle.thy ===== *)
theory Spec2Isabelle
  imports Resolve_Props Event_Format Signatures_Props Canonical_Serializer Megolm_Props Olm_Props One_Time_Keys Olm_Wire Push_Conditions
begin

text \<open>
  A verification development for the Matrix implementation under \<open>src/\<close>. It covers the code that
  homeservers and clients have to agree on: identifiers, room version rules, power levels, canonical
  JSON, redaction, signatures, event authorization, event format checks, state resolution, the
  end-to-end encryption protocols Megolm and Olm, and the conditions of push rules.

  \<^bold>\<open>The program.\<close> Rooms are replicated; each server keeps a graph of signed events. A received event is
  checked for its format (\<open>common-state-res/src/event_format.rs\<close>) and its hashes and signatures
  (\<open>common-signatures\<close>), which are made over canonical JSON of the redacted event
  (\<open>common-types/src/canonical_json\<close>). Then the authorization rules of its room version (\<open>event_auth.rs\<close>,
  \<open>event_auth/room_member.rs\<close>) decide, first against the auth events it cites, then against states of
  the room. Where the graph forks, the states of the branches are merged by state resolution
  (\<open>resolve.rs\<close>), which runs the same rules over the conflicting events in an order all servers compute
  alike. The rules read the content of a few events through views (\<open>events/*.rs\<close>), identifiers are
  validated strings (\<open>common-identifiers-validation\<close>, \<open>common-types/src/identifiers\<close>), and what differs
  between room versions is a record of flags (\<open>common-types/src/room_version_rules.rs\<close>). Clients predict
  the outcome of the rules from the power levels (\<open>common-events/src/room/power_levels.rs\<close>) and decide
  by push rules which events to notify about (\<open>common-types/src/push\<close>). Messages are encrypted for a room
  by Megolm sessions, whose keys travel over Olm sessions between two devices (\<open>common-olm\<close>).

  \<^bold>\<open>The theories\<close>, in the order of their imports:
  \<^item> \<open>Prelude\<close>: results as sums, panics, the contract of Rust's \<open>Ord\<close> as the locale \<open>rust_ord\<close>, a binary
    heap, hash maps, ordered maps and hash sets as lists, byte strings.
  \<^item> \<open>Identifiers\<close>: the validators and the accessors of user, room, alias, event and key
    identifiers, server names and MXC URIs; what each accepts, that accessors return the parts and do
    not panic on valid identifiers, and where one-byte indices break this.
  \<^item> \<open>Room_Version_Rules\<close>: the rule records, one constant for each version; parsing and printing
    versions are inverse, the rule sets are consistent.
  \<^item> \<open>Room_Power_Levels\<close>: contents, redaction, effective levels, the checks \<open>user_can_*\<close>.
  \<^item> \<open>Canonical_Json\<close>, \<open>Canonical_Serializer\<close>: JSON values, canonical values, the conversions and the
    serializer; what they produce is canonical and survives the way back.
  \<^item> \<open>Redaction\<close>: the keys every room version retains; redaction is idempotent, and the serializer that
    redacts on the fly prints what redacting first would print.
  \<^item> \<open>Signatures\<close>, \<open>Signatures_Props\<close>: hashing, signing and verifying; signed events verify, and neither
    redaction nor further signatures invalidate hashes and signatures.
  \<^item> \<open>Topo_Sort\<close>: \<open>reverse_topological_power_sort\<close>; it terminates without panic, returns the
    smallest topological ordering, whatever the iteration order of hash maps.
  \<^item> \<open>State_Events\<close>: events and the views on their content, with the caches of power levels events.
  \<^item> \<open>Event_Auth\<close>, \<open>Event_Auth_Props\<close>: the authorization rules and what they guarantee.
  \<^item> \<open>Event_Format\<close>: \<open>check_pdu_format\<close> and exactly what it accepts.
  \<^item> \<open>Resolve\<close>: state resolution, one definition for each function and loop.
  \<^item> \<open>Conflict_Sets\<close>, \<open>Mainline\<close>, \<open>Resolve_Props\<close>: the parts of state resolution compute what the
    specification says, and the whole ends, keeps unconflicted state, decides by the rules
    only, and does not depend on the iteration order of hash maps.
  \<^item> \<open>Bounded_Store\<close>: the locale \<open>bounded_store\<close>, a store that drops its oldest value to make room.
  \<^item> \<open>Olm_Crypto\<close>: ciphers, keys and integer encodings, with the laws of the primitives.
  \<^item> \<open>Megolm_Ratchet\<close>, \<open>Megolm_Session\<close>, \<open>Megolm_Props\<close>: the ratchet with 32-bit wrap-around, the sender
    and the receiver. Fast and slow advancing agree, the cache of a receiver is invisible, sessions merge to
    the better one, and all messages sent after a key was shared are read in any order.
  \<^item> \<open>Olm_Ratchet\<close>, \<open>Olm_Session\<close>, \<open>Olm_Account\<close>: messages, chains, the double ratchet, sessions and
    accounts, one definition for each method.
  \<^item> \<open>Olm_Chain\<close>, \<open>Olm_Conversation\<close>, \<open>Olm_Props\<close>: a receiving chain by the set of indices it has
    accepted; two sessions over a lossy, reordering, repeating network; what arrives within the windows of
    2000 messages, 40 skipped keys and 5 chains is decrypted. Sessions set up from the keys of
    an account agree, and stores are bounded whatever arrives.
  \<^item> \<open>One_Time_Keys\<close>: the three maps of one-time keys implement a bounded queue.
  \<^item> \<open>Olm_Wire\<close>: what a session encrypts is decoded to the same message.
  \<^item> \<open>Push_Matching\<close>, \<open>Flattened_Json\<close>, \<open>Push_Conditions\<close>: word matching in UTF-8 strings, paths into
    events, and the conditions; the search for words is complete, paths are unambiguous, and the
    permission to notify a room is the one of the power levels.

  \<^bold>\<open>How code is modelled.\<close> A struct is a record, an enum a datatype, a function a definition of the same
  name, a loop a recursive function with a termination proof. A \<open>Result\<close> is a sum with the error on
  the left; where code can panic, the error is \<open>Panic\<close> or \<open>Err e\<close>. A method that takes \<open>&mut self\<close> returns
  the new value with its result, and where the code draws a random key the definition takes it as an
  argument. A \<open>&str\<close> is its list of bytes. Integers that wrap around are words of their width.
  Error messages are data of \<open>auth_error\<close>, without the interpolated debug output. The two loops along
  the chain of power levels events and the loop of \<open>char_len\<close> are partial functions, \<open>None\<close> standing for a
  run that does not end; \<open>resolve_terminates\<close> shows that the former end when no event is its own
  ancestor, which the hashes in event IDs ensure, and \<open>matches_word_correct\<close> that the latter ends on
  UTF-8. No fuel is used. Of the compile-time features, \<open>experimental-session-config\<close> is on, the one
  that lifts the length limit of identifiers is a parameter, and the unstable ones of single proposals
  are off.

  Third-party code is a parameter: the record \<open>codec\<close> of \<open>Canonical_Json\<close>, extended in \<open>State_Events\<close>, has
  one field for each function of \<open>serde_json\<close>, \<open>js_int\<close>, \<open>base64\<close>, \<open>sha2\<close> and \<open>ed25519_dalek\<close> that is called;
  \<open>olm_crypto\<close> of \<open>Olm_Crypto\<close> has those of the ciphers, key agreement and \<open>prost\<close>; \<open>push_engine\<close> of
  \<open>Push_Matching\<close> those of \<open>regex\<close> and \<open>wildmatch\<close>, and the Unicode lower case tables. Results that need
  something of them name it as a law (\<open>hmac_law\<close>, \<open>x25519_law\<close>, ...), and an example instance satisfies the
  laws. The iteration order of hash maps and sets is the parameter \<open>hash_order\<close>, assumed only to
  be a permutation.

  \<^bold>\<open>Not modelled.\<close> Validators that need the Unicode tables; the asynchronous wrappers of
  \<open>server-state-res\<close>; pickles of \<open>libolm\<close>, of Olm sessions and of whole accounts, and dehydrated devices,
  which are encodings by derive macros; the ordered sets of push rules; PKCS#8 key documents; the
  encryption machine of \<open>client-crypto\<close> and everything else that is I/O, storage, asynchronous code,
  serialization by derive macros or bindings.
\<close>

end
